(* ===== verification/Prelude.thy ===== *)
theory Prelude
  imports Main
begin

text \<open>
  Shared vocabulary of the development: Go errors and panics as values, the result type of a
  fallible Go function, iteration over a slice with early return, the collections of facts
  the component proofs are run with, and generic lemmas on lists and relations that more than one
  component uses.
\<close>

section \<open>Errors and panics\<close>

text \<open>
  \<open>Plain\<close> is an error made by \<^verbatim>\<open>fmt.Errorf\<close> or \<^verbatim>\<open>errors.New\<close>, \<open>Wrap\<close> one made by
  \<^verbatim>\<open>errors.Wrap\<close>, \<open>Api\<close> a Kubernetes \<^verbatim>\<open>StatusError\<close> with its reason. A run-time panic is a value
  too; \<open>Diverge\<close> stands for the unbounded recursion (stack overflow) or unbounded
  iteration that a cyclic node graph causes.
\<close>

datatype api_reason = Invalid | NotFound | OtherReason

datatype go_error = Plain string | Wrap string go_error | Api api_reason string

datatype go_panic = NilDereference | IndexOutOfRange | SliceOutOfBounds | ExplicitPanic | Diverge

datatype fault = Err go_error | Panic go_panic

type_synonym 'a result = "fault + 'a"

fun error_text :: "go_error \<Rightarrow> string" where
  "error_text (Plain s) = s"
| "error_text (Wrap s e) = s @ '': '' @ error_text e"
| "error_text (Api r s) = s"

text \<open>\<^verbatim>\<open>kerrors.ReasonForError\<close> looks through wrapping, but not through \<^verbatim>\<open>fmt.Errorf("%v")\<close>.\<close>

fun reason_for :: "go_error \<Rightarrow> api_reason option" where
  "reason_for (Plain s) = None"
| "reason_for (Wrap s e) = reason_for e"
| "reason_for (Api r s) = Some r"

abbreviation fail :: "string \<Rightarrow> 'a result" where
  "fail s \<equiv> Inl (Err (Plain s))"

abbreviation panic :: "go_panic \<Rightarrow> 'a result" where
  "panic p \<equiv> Inl (Panic p)"

definition bind_result :: "'a result \<Rightarrow> ('a \<Rightarrow> 'b result) \<Rightarrow> 'b result" where
  "bind_result m f = (case m of Inl e \<Rightarrow> Inl e | Inr x \<Rightarrow> f x)"

text \<open>\<^verbatim>\<open>errors.Wrap(err, msg)\<close>: only an error is wrapped, a panic unwinds unchanged.\<close>

fun wrap :: "string \<Rightarrow> 'a result \<Rightarrow> 'a result" where
  "wrap s (Inl (Err e)) = Inl (Err (Wrap s e))"
| "wrap s (Inl (Panic p)) = Inl (Panic p)"
| "wrap s (Inr x) = Inr x"

text \<open>A \<^verbatim>\<open>for range\<close> loop over a slice whose body may return an error.\<close>

fun fold_result :: "('a \<Rightarrow> 's \<Rightarrow> 's result) \<Rightarrow> 'a list \<Rightarrow> 's \<Rightarrow> 's result" where
  "fold_result f [] s = Inr s"
| "fold_result f (x # xs) s = bind_result (f x s) (fold_result f xs)"

text \<open>The concatenation of the results of a fallible function over a slice.\<close>

fun concat_result :: "('a \<Rightarrow> 'b list result) \<Rightarrow> 'a list \<Rightarrow> 'b list result" where
  "concat_result f [] = Inr []"
| "concat_result f (x # xs) =
     bind_result (f x) (\<lambda>ys. bind_result (concat_result f xs) (\<lambda>zs. Inr (ys @ zs)))"

definition is_diverge :: "'a result \<Rightarrow> bool" where
  "is_diverge r \<longleftrightarrow> r = Inl (Panic Diverge)"

definition is_panic :: "'a result \<Rightarrow> bool" where
  "is_panic r \<longleftrightarrow> (\<exists>p. r = Inl (Panic p))"

section \<open>Collections of facts\<close>

named_theorems result_simps \<open>evaluation and inversion of the result combinators\<close>
named_theorems heap_simps \<open>reading and writing the node store\<close>
named_theorems heap_inv \<open>preservation of the node-store invariants\<close>

section \<open>Result combinators\<close>

lemma bind_result_simps [simp, result_simps]:
  "bind_result (Inr x) f = f x"
  "bind_result (Inl e) f = Inl e"
  by (simp_all add: bind_result_def)

lemma bind_result_Inr [result_simps]:
  "bind_result m f = Inr y \<longleftrightarrow> (\<exists>x. m = Inr x \<and> f x = Inr y)"
  by (cases m) auto

lemma bind_result_Inl [result_simps]:
  "bind_result m f = Inl e \<longleftrightarrow> m = Inl e \<or> (\<exists>x. m = Inr x \<and> f x = Inl e)"
  by (cases m) auto

lemma bind_result_assoc:
  "bind_result (bind_result m f) g = bind_result m (\<lambda>x. bind_result (f x) g)"
  by (cases m) auto

lemma wrap_Inr [simp, result_simps]: "wrap s m = Inr x \<longleftrightarrow> m = Inr x"
  by (cases "(s, m)" rule: wrap.cases) auto

lemma wrap_panic [simp, result_simps]: "wrap s m = Inl (Panic p) \<longleftrightarrow> m = Inl (Panic p)"
  by (cases "(s, m)" rule: wrap.cases) auto

lemma fold_result_append [result_simps]:
  "fold_result f (xs @ ys) s = bind_result (fold_result f xs s) (fold_result f ys)"
proof (induction xs arbitrary: s)
  case (Cons x xs)
  then show ?case by (cases "f x s") auto
qed simp

text \<open>Loop rule: an invariant kept by every iteration that returns holds at the end.\<close>

lemma fold_result_inv:
  assumes "fold_result f xs s = Inr t" and "P s"
    and "\<And>x s s'. x \<in> set xs \<Longrightarrow> P s \<Longrightarrow> f x s = Inr s' \<Longrightarrow> P s'"
  shows "P t"
  using assms
proof (induction xs arbitrary: s)
  case Nil
  then show ?case by simp
next
  case (Cons x xs)
  then obtain s' where s': "f x s = Inr s'" "fold_result f xs s' = Inr t"
    by (auto simp: result_simps)
  have "P s'" using Cons.prems(2,3) s'(1) by (meson list.set_intros(1))
  then show ?case using Cons.IH [OF s'(2)] Cons.prems(3) by (meson list.set_intros(2))
qed

text \<open>Loop rule for faults: a fault that no iteration raises under the invariant never happens.\<close>

lemma fold_result_no_fault:
  assumes "P s"
    and "\<And>x s s'. x \<in> set xs \<Longrightarrow> P s \<Longrightarrow> f x s = Inr s' \<Longrightarrow> P s'"
    and "\<And>x s. x \<in> set xs \<Longrightarrow> P s \<Longrightarrow> f x s \<noteq> Inl e"
  shows "fold_result f xs s \<noteq> Inl e"
  using assms
proof (induction xs arbitrary: s)
  case Nil
  then show ?case by simp
next
  case (Cons x xs)
  show ?case
  proof (cases "f x s")
    case (Inl e')
    then show ?thesis using Cons.prems(1,3) by (metis bind_result_simps(2) fold_result.simps(2)
          list.set_intros(1))
  next
    case (Inr s')
    then have "P s'" using Cons.prems(1,2) by (meson list.set_intros(1))
    then have "fold_result f xs s' \<noteq> Inl e"
      using Cons.IH Cons.prems(2,3) by (meson list.set_intros(2))
    then show ?thesis using Inr by simp
  qed
qed

lemma concat_result_Inr:
  "concat_result f xs = Inr ys \<Longrightarrow> y \<in> set ys \<Longrightarrow> \<exists>x zs. x \<in> set xs \<and> f x = Inr zs \<and> y \<in> set zs"
proof (induction xs arbitrary: ys)
  case (Cons x xs)
  then obtain us vs where "f x = Inr us" "concat_result f xs = Inr vs" "ys = us @ vs"
    by (auto simp: result_simps)
  with Cons show ?case by fastforce
qed simp

lemma concat_result_total:
  "(\<And>x. x \<in> set xs \<Longrightarrow> \<exists>ys. f x = Inr ys) \<Longrightarrow> \<exists>zs. concat_result f xs = Inr zs"
proof (induction xs)
  case (Cons x xs)
  then obtain ys zs where "f x = Inr ys" "concat_result f xs = Inr zs"
    by (metis list.set_intros(1,2))
  then show ?case by simp
qed simp

section \<open>Total correctness up to errors\<close>

text \<open>
  \<open>yields Q m\<close>: the computation does not run for ever, and if it returns a value, \<open>Q\<close> holds of it.
  The rules below take a program apart along its binds and loops.
\<close>

definition yields :: "('a \<Rightarrow> bool) \<Rightarrow> 'a result \<Rightarrow> bool" where
  "yields Q m \<longleftrightarrow> m \<noteq> Inl (Panic Diverge) \<and> (\<forall>x. m = Inr x \<longrightarrow> Q x)"

named_theorems yields_intro \<open>rules for \<open>yields\<close>\<close>

lemma yields_Inr [yields_intro]: "Q x \<Longrightarrow> yields Q (Inr x)"
  by (simp add: yields_def)

lemma yields_Err [yields_intro]: "yields Q (Inl (Err e))"
  by (simp add: yields_def)

lemma yields_Panic [yields_intro]: "p \<noteq> Diverge \<Longrightarrow> yields Q (Inl (Panic p))"
  by (simp add: yields_def)

lemma yields_bind:
  "yields Q m \<Longrightarrow> (\<And>x. m = Inr x \<Longrightarrow> Q x \<Longrightarrow> yields R (f x)) \<Longrightarrow> yields R (bind_result m f)"
  by (auto simp: yields_def result_simps)

lemma yields_wrap [yields_intro]: "yields Q m \<Longrightarrow> yields Q (wrap s m)"
  by (auto simp: yields_def)

lemma yields_mono: "yields Q m \<Longrightarrow> (\<And>x. m = Inr x \<Longrightarrow> Q x \<Longrightarrow> R x) \<Longrightarrow> yields R m"
  by (auto simp: yields_def)

lemma yields_fold:
  assumes "P s" and "\<And>x s. x \<in> set xs \<Longrightarrow> P s \<Longrightarrow> yields P (f x s)"
  shows "yields P (fold_result f xs s)"
  using assms
proof (induction xs arbitrary: s)
  case (Cons x xs)
  show ?case
    by (auto intro!: yields_bind [where Q = P] Cons)
qed (simp add: yields_Inr)

lemma yields_concat:
  assumes "\<And>x. x \<in> set xs \<Longrightarrow> yields (\<lambda>ys. \<forall>y \<in> set ys. Q y) (f x)"
  shows "yields (\<lambda>ys. \<forall>y \<in> set ys. Q y) (concat_result f xs)"
  using assms
proof (induction xs)
  case (Cons x xs)
  show ?case
    by (auto intro!: yields_bind [where Q = "\<lambda>ys. \<forall>y \<in> set ys. Q y"] Cons yields_Inr)
qed (simp add: yields_Inr)

lemma yields_result: "yields Q m \<Longrightarrow> m = Inr x \<Longrightarrow> Q x"
  by (simp add: yields_def)

lemma yields_no_diverge: "yields Q m \<Longrightarrow> \<not> is_diverge m"
  by (simp add: yields_def is_diverge_def)

section \<open>Lists\<close>

lemma suffix_takeWhile_rev: "\<exists>xs. b = xs @ rev (takeWhile P (rev b))"
proof -
  have "rev (rev b) = rev (dropWhile P (rev b)) @ rev (takeWhile P (rev b))"
    by (subst takeWhile_dropWhile_id [of P "rev b", symmetric]) (rule rev_append)
  then show ?thesis by auto
qed

lemma dropWhile_ConsD: "dropWhile P s = d # g \<Longrightarrow> \<not> P d \<and> s = takeWhile P s @ d # g"
  by (induction s) (auto split: if_splits)

lemma filter_ConsD: "filter P xs = k # ks \<Longrightarrow> k \<in> set xs \<and> P k"
  by (induction xs) (auto split: if_splits)

section \<open>Relations\<close>

text \<open>Edges added at one source keep a relation acyclic when no new target reaches the source.\<close>

lemma acyclic_add_edges:
  assumes "acyclic r" and "\<And>c. c \<in> C \<Longrightarrow> (c, a) \<notin> r\<^sup>*"
  shows "acyclic (r \<union> {a} \<times> C)"
proof -
  let ?s = "r \<union> {a} \<times> C"
  have key: "(x, y) \<in> ?s\<^sup>* \<Longrightarrow> (x, y) \<in> r\<^sup>* \<or> ((x, a) \<in> r\<^sup>* \<and> (\<exists>c \<in> C. (c, y) \<in> r\<^sup>*))" for x y
  proof (induction rule: rtrancl_induct)
    case (step y z)
    then show ?case
      by (auto intro: rtrancl_into_rtrancl)
  qed simp
  show ?thesis
  proof (rule acyclicI, rule allI, rule notI)
    fix x assume "(x, x) \<in> ?s\<^sup>+"
    then obtain y where y: "(x, y) \<in> ?s" "(y, x) \<in> ?s\<^sup>*" by (meson tranclD)
    show False
    proof (cases "(x, y) \<in> r")
      case True
      from key [OF y(2)] show False
      proof
        assume "(y, x) \<in> r\<^sup>*"
        with True have "(x, x) \<in> r\<^sup>+" by (rule rtrancl_into_trancl2)
        with assms(1) show False by (simp add: acyclic_def)
      next
        assume "(y, a) \<in> r\<^sup>* \<and> (\<exists>c \<in> C. (c, x) \<in> r\<^sup>*)"
        then obtain c where "c \<in> C" "(c, x) \<in> r\<^sup>*" "(y, a) \<in> r\<^sup>*" by blast
        with True have "(c, a) \<in> r\<^sup>*" by (meson converse_rtrancl_into_rtrancl rtrancl_trans)
        with assms(2) \<open>c \<in> C\<close> show False by blast
      qed
    next
      case False
      with y(1) have "x = a" "y \<in> C" by auto
      with key [OF y(2)] assms(2) show False by blast
    qed
  qed
qed

end
