(* ===== verification/GoStrings.thy ===== *)
theory GoStrings
  imports Prelude "HOL-Library.Sublist"
begin

text \<open>
  The part of Go's \<^verbatim>\<open>strings\<close>, \<^verbatim>\<open>strconv\<close> and \<^verbatim>\<open>fmt\<close> packages the program uses, on byte strings
  (a HOL \<^typ>\<open>string\<close> is a list of 8-bit characters, as a Go string is a sequence of bytes), the
  dynamic values (\<^verbatim>\<open>interface{}\<close>) that configuration and objects carry, and the Kubernetes
  group/version/kind and namespaced-name structs.
\<close>

section \<open>strings\<close>

text \<open>\<^verbatim>\<open>strings.Split(s, sep)\<close> for a one-byte separator: never the empty slice.\<close>

fun split_on :: "(char \<Rightarrow> bool) \<Rightarrow> string \<Rightarrow> string list" where
  "split_on sep [] = [[]]"
| "split_on sep (c # cs) =
     (if sep c then [] # split_on sep cs
      else (c # hd (split_on sep cs)) # tl (split_on sep cs))"

abbreviation strings_Split :: "string \<Rightarrow> char \<Rightarrow> string list" where
  "strings_Split s sep \<equiv> split_on (\<lambda>c. c = sep) s"

fun strings_Join :: "string list \<Rightarrow> string \<Rightarrow> string" where
  "strings_Join [] sep = []"
| "strings_Join [t] sep = t"
| "strings_Join (t # ts) sep = t @ sep @ strings_Join ts sep"

text \<open>
  \<^verbatim>\<open>strings.ReplaceAll(s, old, new)\<close> for a non-empty \<open>old\<close> (the only case in the program):
  non-overlapping occurrences, from the left.
\<close>

function strings_ReplaceAll :: "string \<Rightarrow> string \<Rightarrow> string \<Rightarrow> string" where
  "strings_ReplaceAll [] old new = []"
| "strings_ReplaceAll (c # cs) old new =
     (if old \<noteq> [] \<and> prefix old (c # cs)
      then new @ strings_ReplaceAll (drop (length old) (c # cs)) old new
      else c # strings_ReplaceAll cs old new)"
  by pat_completeness auto
termination
  by (relation "measure (\<lambda>(s, old, new). length s)") auto

text \<open>\<^verbatim>\<open>strings.Contains\<close>.\<close>

fun strings_Contains :: "string \<Rightarrow> string \<Rightarrow> bool" where
  "strings_Contains [] t = (t = [])"
| "strings_Contains (c # s) t = (prefix t (c # s) \<or> strings_Contains s t)"

definition is_space :: "char \<Rightarrow> bool" where
  "is_space c \<longleftrightarrow> c \<in> {CHR '' '', CHR 0x09, CHR 0x0A, CHR 0x0B, CHR 0x0C, CHR 0x0D}"

text \<open>\<^verbatim>\<open>strings.TrimSpace\<close> on ASCII white space.\<close>

definition strings_TrimSpace :: "string \<Rightarrow> string" where
  "strings_TrimSpace s = rev (dropWhile is_space (rev (dropWhile is_space s)))"

section \<open>strconv and fmt\<close>

definition digit_val :: "char \<Rightarrow> int option" where
  "digit_val c = (let n = of_char c - (48::int) in if 0 \<le> n \<and> n \<le> 9 then Some n else None)"

fun digits_val :: "int \<Rightarrow> string \<Rightarrow> int option" where
  "digits_val acc [] = Some acc"
| "digits_val acc (c # cs) =
     (case digit_val c of None \<Rightarrow> None | Some d \<Rightarrow> digits_val (10 * acc + d) cs)"

text \<open>\<^verbatim>\<open>strconv.Atoi\<close>: an optional sign, decimal digits, the range of a 64-bit \<^verbatim>\<open>int\<close>.\<close>

definition strconv_Atoi :: "string \<Rightarrow> int option" where
  "strconv_Atoi s =
     (let neg = (s \<noteq> [] \<and> hd s = CHR ''-'');
          ds = (if s \<noteq> [] \<and> (hd s = CHR ''-'' \<or> hd s = CHR ''+'') then tl s else s)
      in if ds = [] then None
         else case digits_val 0 ds of
             None \<Rightarrow> None
           | Some n \<Rightarrow>
               let v = (if neg then - n else n)
               in if - (2 ^ 63) \<le> v \<and> v < 2 ^ 63 then Some v else None)"

fun show_nat :: "nat \<Rightarrow> string" where
  "show_nat n =
     (if n < 10 then [char_of (48 + n)] else show_nat (n div 10) @ [char_of (48 + n mod 10)])"

declare show_nat.simps [simp del]

section \<open>Slices\<close>

text \<open>A slice expression \<^verbatim>\<open>xs[lo:hi]\<close>; out of range it panics.\<close>

definition slice :: "'a list \<Rightarrow> int \<Rightarrow> int \<Rightarrow> 'a list result" where
  "slice xs lo hi =
     (if 0 \<le> lo \<and> lo \<le> hi \<and> hi \<le> int (length xs)
      then Inr (take (nat hi - nat lo) (drop (nat lo) xs)) else panic SliceOutOfBounds)"

abbreviation slice_from :: "'a list \<Rightarrow> int \<Rightarrow> 'a list result" where
  "slice_from xs lo \<equiv> slice xs lo (int (length xs))"

section \<open>Dynamic values\<close>

text \<open>
  What an \<^verbatim>\<open>interface{}\<close> of the configuration or of an unstructured object may hold. \<open>VNil\<close> is the
  nil interface. A map is a list of entries in an arbitrary order.
\<close>

datatype goval =
    VNil | VBool bool | VInt int | VFloat string | VStr string
  | VSeq "goval list" | VMap "(string \<times> goval) list"

section \<open>Names and kinds\<close>

record NamespacedName =
  Namespace :: string
  Name :: string

abbreviation emptyNN :: NamespacedName where
  "emptyNN \<equiv> \<lparr>Namespace = [], Name = []\<rparr>"

record GroupVersionKind =
  Group :: string
  Version :: string
  GVKKind :: string

text \<open>\<^verbatim>\<open>schema.FromAPIVersionAndKind\<close>: a malformed apiVersion leaves only the kind.\<close>

definition FromAPIVersionAndKind :: "string \<Rightarrow> string \<Rightarrow> GroupVersionKind" where
  "FromAPIVersionAndKind apiVersion kind =
     (if apiVersion = [] \<or> apiVersion = ''/'' then \<lparr>Group = [], Version = [], GVKKind = kind\<rparr>
      else case strings_Split apiVersion (CHR ''/'') of
          [v] \<Rightarrow> \<lparr>Group = [], Version = v, GVKKind = kind\<rparr>
        | [g, v] \<Rightarrow> \<lparr>Group = g, Version = v, GVKKind = kind\<rparr>
        | _ \<Rightarrow> \<lparr>Group = [], Version = [], GVKKind = kind\<rparr>)"

section \<open>Lemmas on splitting and joining\<close>

lemma split_on_nonempty [simp]: "split_on sep s \<noteq> []"
  by (cases s) auto

lemma split_on_no_sep: "\<forall>c \<in> set s. \<not> sep c \<Longrightarrow> split_on sep s = [s]"
  by (induction s) auto

lemma split_on_append_sep:
  "\<forall>c \<in> set t. \<not> sep c \<Longrightarrow> sep d \<Longrightarrow> split_on sep (t @ d # s) = t # split_on sep s"
  by (induction t) auto

lemma split_on_snoc:
  "sep d \<Longrightarrow> \<forall>c \<in> set t. \<not> sep c \<Longrightarrow> split_on sep (s @ d # t) = split_on sep s @ [t]"
  by (induction s) (auto simp: split_on_no_sep)

lemma strings_Join_Cons:
  "strings_Join (t # ts) sep = (if ts = [] then t else t @ sep @ strings_Join ts sep)"
  by (cases ts) auto

lemma join_split [simp]: "strings_Join (strings_Split s d) [d] = s"
proof (induction s)
  case (Cons c cs)
  obtain t ts where ts: "strings_Split cs d = t # ts" by (meson neq_Nil_conv split_on_nonempty)
  with Cons show ?case by (auto simp: strings_Join_Cons)
qed simp

lemma split_join:
  "ts \<noteq> [] \<Longrightarrow> \<forall>t \<in> set ts. d \<notin> set t \<Longrightarrow> strings_Split (strings_Join ts [d]) d = ts"
proof (induction ts)
  case (Cons t ts)
  have t: "\<forall>c \<in> set t. \<not> c = d" using Cons.prems(2) by auto
  show ?case
  proof (cases "ts = []")
    case True
    then show ?thesis using split_on_no_sep [OF t] by simp
  next
    case False
    then show ?thesis
      using split_on_append_sep [OF t, of d "strings_Join ts [d]"] Cons
      by (simp add: strings_Join_Cons)
  qed
qed simp

lemma split_on_length: "length (split_on sep s) = Suc (length (filter sep s))"
  by (induction s) auto

lemma last_split_on: "last (split_on sep s) = rev (takeWhile (\<lambda>c. \<not> sep c) (rev s))"
proof (induction s)
  case (Cons c cs)
  obtain t ts where ts: "split_on sep cs = t # ts" by (meson neq_Nil_conv split_on_nonempty)
  have len: "length ts = length (filter sep cs)" using split_on_length [of sep cs] ts by simp
  show ?case
  proof (cases "\<exists>d \<in> set cs. sep d")
    case True
    then have "ts \<noteq> []" using len by (auto simp: filter_empty_conv)
    moreover have "takeWhile (\<lambda>c. \<not> sep c) (rev cs @ [c]) = takeWhile (\<lambda>c. \<not> sep c) (rev cs)"
      using True by (auto simp: takeWhile_append)
    ultimately show ?thesis using Cons.IH ts by auto
  next
    case False
    then have "split_on sep cs = [cs]" by (intro split_on_no_sep) auto
    with False show ?thesis by (auto simp: takeWhile_append takeWhile_eq_all_conv)
  qed
qed simp

end
