(* ===== verification/Config.thy ===== *)
theory Config
  imports GoStrings
begin

text \<open>
  The configuration of the plugin (\<^verbatim>\<open>pkg/config/config.go\<close>) and its validation
  (\<^verbatim>\<open>pkg/config/validate.go\<close>). Struct embedding is record extension. A slice of pointers is a list of
  options: a YAML list with a null entry decodes to a nil pointer, and dereferencing it panics.
\<close>

section \<open>Types\<close>

text \<open>
  A compiled \<^verbatim>\<open>regexp.Regexp\<close>, by what the program reads of it: the names of its groups, and the
  index pairs of all successive matches in an input (\<open>-1\<close> for a group that did not take part).
\<close>

record go_regexp =
  SubexpNames :: "string list"
  FindAllStringSubmatchIndex :: "string \<Rightarrow> int list list"

record PatchCondition =
  CondPath :: string
  SubPath :: string
  Equal :: goval
  NotEqual :: goval
  Empty :: "bool option"

record PatchSync =
  Secret :: "bool option"
  ConfigMap :: "bool option"

record Patch =
  Operation :: string
  FromPath :: string
  Path :: string
  NamePath :: string
  NamespacePath :: string
  Value :: goval
  Regex :: string
  ParsedRegex :: "go_regexp option"
  Conditions :: "PatchCondition option list"
  Ignore :: "bool option"
  Sync :: "PatchSync option"

abbreviation PatchTypeRewriteName :: string where "PatchTypeRewriteName \<equiv> ''rewriteName''"
abbreviation PatchTypeRewriteLabelKey :: string where "PatchTypeRewriteLabelKey \<equiv> ''rewriteLabelKey''"
abbreviation PatchTypeRewriteLabelSelector :: string where "PatchTypeRewriteLabelSelector \<equiv> ''rewriteLabelSelector''"
abbreviation PatchTypeRewriteLabelExpressionsSelector :: string where "PatchTypeRewriteLabelExpressionsSelector \<equiv> ''rewriteLabelExpressionsSelector''"
abbreviation PatchTypeCopyFromObject :: string where "PatchTypeCopyFromObject \<equiv> ''copyFromObject''"
abbreviation PatchTypeAdd :: string where "PatchTypeAdd \<equiv> ''add''"
abbreviation PatchTypeReplace :: string where "PatchTypeReplace \<equiv> ''replace''"
abbreviation PatchTypeRemove :: string where "PatchTypeRemove \<equiv> ''remove''"

record Selector =
  LabelSelector :: "(string \<times> string) list option"

record TypeInformation =
  APIVersion :: string
  Kind :: string

record SyncBase = TypeInformation +
  ID :: string
  Patches :: "Patch option list"
  ReversePatches :: "Patch option list"

record NameSyncBackSelector =
  RewrittenPath :: string

record SyncBackSelector =
  SelName :: "NameSyncBackSelector option"

record SyncBack = SyncBase +
  Selectors :: "SyncBackSelector option list"

record FromVirtualCluster = SyncBase +
  FVSelector :: "Selector option"
  SyncBacks :: "SyncBack option list"

abbreviation RewriteNameTypeKeepName :: string where "RewriteNameTypeKeepName \<equiv> ''KeepName''"
abbreviation RewriteNameTypeFromVirtualToHostNamespace :: string where "RewriteNameTypeFromVirtualToHostNamespace \<equiv> ''FromVirtualToHostNamespace''"
abbreviation RewriteNameTypeFromHostToVirtualNamespace :: string where "RewriteNameTypeFromHostToVirtualNamespace \<equiv> ''FromHostToVirtualNamespace''"

record NameMapping =
  NMRewriteName :: string
  NMNamespace :: string

record FromHostCluster = SyncBase +
  HostNameMapping :: NameMapping
  FHSelector :: "Selector option"

record Mapping =
  MFromHostCluster :: "FromHostCluster option"
  MFromVirtualCluster :: "FromVirtualCluster option"

record Config =
  ConfigVersion :: string
  Mappings :: "Mapping list"

abbreviation SupportedVersion :: string where
  "SupportedVersion \<equiv> ''v1beta1''"

section \<open>Validation\<close>

definition validatePatch :: "Patch option \<Rightarrow> unit result" where
  "validatePatch patch = (case patch of
     None \<Rightarrow> panic NilDereference
   | Some p \<Rightarrow>
       if Operation p \<in> {PatchTypeRemove, PatchTypeReplace, PatchTypeAdd} then
         (if FromPath p \<noteq> [] then fail ''fromPath is not supported for this operation'' else Inr ())
       else if Operation p \<in> {PatchTypeRewriteName, PatchTypeRewriteLabelKey,
           PatchTypeRewriteLabelSelector, PatchTypeRewriteLabelExpressionsSelector} then Inr ()
       else if Operation p = PatchTypeCopyFromObject then
         (if FromPath p = [] then fail ''fromPath is required for this operation'' else Inr ())
       else fail (''unsupported patch type '' @ Operation p))"

text \<open>
  The loop over a slice of patches: the first error is returned, wrapped with the position. The
  position is the prefix the caller builds from the index.
\<close>

fun validatePatches :: "(nat \<Rightarrow> string) \<Rightarrow> nat \<Rightarrow> Patch option list \<Rightarrow> unit result" where
  "validatePatches pos i [] = Inr ()"
| "validatePatches pos i (p # ps) =
     bind_result (wrap (pos i) (validatePatch p)) (\<lambda>_. validatePatches pos (Suc i) ps)"

definition validateSyncBack ::
  "SyncBack option \<Rightarrow> (GroupVersionKind \<Rightarrow> bool) \<Rightarrow> (GroupVersionKind \<Rightarrow> bool) result" where
  "validateSyncBack syncBack uniqueSyncBacks = (case syncBack of
     None \<Rightarrow> panic NilDereference
   | Some sb \<Rightarrow>
       if Kind sb = [] then fail ''kind is required''
       else if APIVersion sb = [] then fail ''apiVersion is required''
       else
         let gvk = FromAPIVersionAndKind (APIVersion sb) (Kind sb) in
         if uniqueSyncBacks gvk
         then fail ''another syncBack with the same kind and apiVersion already exists''
         else
           bind_result
             (validatePatches (\<lambda>i. ''patches['' @ show_nat i @ '']'') 0 (Patches sb)) (\<lambda>_.
           bind_result
             (validatePatches (\<lambda>i. ''reversePatches['' @ show_nat i @ '']'') 0 (ReversePatches sb))
             (\<lambda>_. Inr (uniqueSyncBacks(gvk := True)))))"

fun validateSyncBacks ::
  "(nat \<Rightarrow> string) \<Rightarrow> nat \<Rightarrow> SyncBack option list \<Rightarrow> (GroupVersionKind \<Rightarrow> bool) \<Rightarrow> unit result" where
  "validateSyncBacks pos i [] seen = Inr ()"
| "validateSyncBacks pos i (sb # sbs) seen =
     bind_result (wrap (pos i) (validateSyncBack sb seen))
       (\<lambda>seen'. validateSyncBacks pos (Suc i) sbs seen')"

definition mapping_pos :: "nat \<Rightarrow> string \<Rightarrow> nat \<Rightarrow> string" where
  "mapping_pos idx field i =
     ''mappings['' @ show_nat idx @ ''].fromVirtualCluster.'' @ field @ ''['' @ show_nat i @ '']''"

definition validateMapping :: "nat \<Rightarrow> Mapping \<Rightarrow> unit result" where
  "validateMapping idx m = (case MFromVirtualCluster m of
     None \<Rightarrow> fail (''mappings['' @ show_nat idx @ ''].fromVirtualCluster is required'')
   | Some fvc \<Rightarrow>
       if Kind fvc = []
       then fail (''mappings['' @ show_nat idx @ ''].fromVirtualCluster.kind is required'')
       else if APIVersion fvc = []
       then fail (''mappings['' @ show_nat idx @ ''].fromVirtualCluster.apiVersion is required'')
       else
         bind_result (validatePatches (mapping_pos idx ''patches'') 0 (Patches fvc)) (\<lambda>_.
         bind_result (validatePatches (mapping_pos idx ''reversePatches'') 0 (ReversePatches fvc)) (\<lambda>_.
         validateSyncBacks (mapping_pos idx ''syncBack'') 0 (SyncBacks fvc) (\<lambda>_. False))))"

fun validateMappings :: "nat \<Rightarrow> Mapping list \<Rightarrow> unit result" where
  "validateMappings idx [] = Inr ()"
| "validateMappings idx (m # ms) =
     bind_result (validateMapping idx m) (\<lambda>_. validateMappings (Suc idx) ms)"

definition validate :: "Config \<Rightarrow> unit result" where
  "validate config =
     (if ConfigVersion config \<noteq> SupportedVersion
      then fail (''unsupported configuration version. Only '' @ ConfigVersion config @
                 '' is supported by this plugin version'')
      else validateMappings 0 (Mappings config))"

text \<open>\<open>decode\<close> stands for the strict YAML decoder into the configuration struct.\<close>

definition ParseConfig :: "(string \<Rightarrow> Config result) \<Rightarrow> string \<Rightarrow> Config result" where
  "ParseConfig decode rawConfig =
     bind_result (wrap ''parse config'' (decode rawConfig)) (\<lambda>configuration.
     bind_result (validate configuration) (\<lambda>_. Inr configuration))"

section \<open>What a valid configuration is\<close>

text \<open>The declarative reading of the rules, without order, positions or accumulated state.\<close>

definition valid_patch :: "Patch option \<Rightarrow> bool" where
  "valid_patch patch \<longleftrightarrow> (\<exists>p. patch = Some p \<and>
     (Operation p \<in> {PatchTypeRewriteName, PatchTypeRewriteLabelKey,
           PatchTypeRewriteLabelSelector, PatchTypeRewriteLabelExpressionsSelector}
      \<or> Operation p \<in> {PatchTypeRemove, PatchTypeReplace, PatchTypeAdd} \<and> FromPath p = []
      \<or> Operation p = PatchTypeCopyFromObject \<and> FromPath p \<noteq> []))"

definition sync_back_gvk :: "SyncBack option \<Rightarrow> GroupVersionKind" where
  "sync_back_gvk sb = FromAPIVersionAndKind (APIVersion (the sb)) (Kind (the sb))"

definition valid_base :: "'a SyncBase_scheme \<Rightarrow> bool" where
  "valid_base b \<longleftrightarrow> Kind b \<noteq> [] \<and> APIVersion b \<noteq> []
     \<and> list_all valid_patch (Patches b) \<and> list_all valid_patch (ReversePatches b)"

definition valid_sync_back :: "SyncBack option \<Rightarrow> bool" where
  "valid_sync_back sb \<longleftrightarrow> sb \<noteq> None \<and> valid_base (the sb)"

definition valid_mapping :: "Mapping \<Rightarrow> bool" where
  "valid_mapping m \<longleftrightarrow> (\<exists>fvc. MFromVirtualCluster m = Some fvc \<and> valid_base fvc
     \<and> list_all valid_sync_back (SyncBacks fvc)
     \<and> distinct (map sync_back_gvk (SyncBacks fvc)))"

definition valid_config :: "Config \<Rightarrow> bool" where
  "valid_config c \<longleftrightarrow> ConfigVersion c = SupportedVersion \<and> list_all valid_mapping (Mappings c)"

section \<open>Validation decides validity\<close>

lemma validatePatch_ok [result_simps]: "validatePatch p = Inr () \<longleftrightarrow> valid_patch p"
  by (auto simp: validatePatch_def valid_patch_def split: option.splits if_splits)

lemma validatePatches_ok [result_simps]:
  "validatePatches pos i ps = Inr () \<longleftrightarrow> list_all valid_patch ps"
  by (induction ps arbitrary: i) (auto simp: result_simps)

lemma validateSyncBack_ok:
  "validateSyncBack sb seen = Inr seen' \<longleftrightarrow>
     valid_sync_back sb \<and> \<not> seen (sync_back_gvk sb) \<and> seen' = seen(sync_back_gvk sb := True)"
  by (cases sb) (auto simp: validateSyncBack_def valid_sync_back_def valid_base_def
      sync_back_gvk_def Let_def result_simps)

lemma validateSyncBacks_ok:
  "validateSyncBacks pos i sbs seen = Inr () \<longleftrightarrow>
     list_all valid_sync_back sbs \<and> distinct (map sync_back_gvk sbs)
     \<and> (\<forall>sb \<in> set sbs. \<not> seen (sync_back_gvk sb))"
proof (induction sbs arbitrary: i seen)
  case (Cons sb sbs)
  have "(\<forall>sb' \<in> set sbs. \<not> (seen(sync_back_gvk sb := True)) (sync_back_gvk sb')) \<longleftrightarrow>
      sync_back_gvk sb \<notin> sync_back_gvk ` set sbs \<and> (\<forall>sb' \<in> set sbs. \<not> seen (sync_back_gvk sb'))"
    by (auto simp: image_iff split: if_splits)
  then show ?case
    using Cons.IH by (auto simp: result_simps validateSyncBack_ok)
qed simp

lemma validateMapping_ok: "validateMapping idx m = Inr () \<longleftrightarrow> valid_mapping m"
  by (auto simp: validateMapping_def valid_mapping_def valid_base_def result_simps
      validateSyncBacks_ok split: option.splits)

lemma validateMappings_ok: "validateMappings idx ms = Inr () \<longleftrightarrow> list_all valid_mapping ms"
  by (induction ms arbitrary: idx) (auto simp: result_simps validateMapping_ok)

lemma validate_ok: "validate c = Inr () \<longleftrightarrow> valid_config c"
  by (auto simp: validate_def valid_config_def validateMappings_ok)

end
