(* ===== verification/YamlHeap.thy ===== *)
theory YamlHeap
  imports GoStrings
begin

text \<open>
  YAML nodes in a store (\<^verbatim>\<open>gopkg.in/yaml.v3\<close>'s \<^verbatim>\<open>Node\<close>, reached by pointer) and the node operations of
  \<^verbatim>\<open>pkg/patches/operation.go\<close>. The code compares nodes by pointer, inserts one node at several
  places and mutates nodes in place, so a node is a cell of a store and a pointer is its address.
  The store only grows (the garbage collector is invisible); an address is an index.
\<close>

section \<open>Nodes and the store\<close>

datatype node_kind =
  ZeroKind | DocumentNode | SequenceNode | MappingNode | ScalarNode | AliasNode

type_synonym addr = nat

record ynode =
  nkind :: node_kind
  ntag :: string
  nvalue :: string
  ncontent :: "addr list"

type_synonym heap = "ynode list"

definition zero_node :: ynode where
  "zero_node = \<lparr>nkind = ZeroKind, ntag = [], nvalue = [], ncontent = []\<rparr>"

definition node_at :: "heap \<Rightarrow> addr \<Rightarrow> ynode" where
  "node_at h a = (if a < length h then h ! a else zero_node)"

abbreviation content :: "heap \<Rightarrow> addr \<Rightarrow> addr list" where
  "content h a \<equiv> ncontent (node_at h a)"

abbreviation kind_at :: "heap \<Rightarrow> addr \<Rightarrow> node_kind" where
  "kind_at h a \<equiv> nkind (node_at h a)"

abbreviation value_at :: "heap \<Rightarrow> addr \<Rightarrow> string" where
  "value_at h a \<equiv> nvalue (node_at h a)"

definition set_content :: "heap \<Rightarrow> addr \<Rightarrow> addr list \<Rightarrow> heap" where
  "set_content h a cs = h[a := (node_at h a)\<lparr>ncontent := cs\<rparr>]"

definition alloc :: "ynode \<Rightarrow> heap \<Rightarrow> addr \<times> heap" where
  "alloc n h = (length h, h @ [n])"

section \<open>Trees\<close>

text \<open>The pure document a decoder builds, and the document below a node that an encoder walks.\<close>

datatype ytree = YNode node_kind string string "ytree list"

fun alloc_tree :: "ytree \<Rightarrow> heap \<Rightarrow> addr \<times> heap"
  and alloc_trees :: "ytree list \<Rightarrow> heap \<Rightarrow> addr list \<times> heap" where
  "alloc_tree (YNode k tag v ts) h =
     (let (cs, h') = alloc_trees ts h
      in alloc \<lparr>nkind = k, ntag = tag, nvalue = v, ncontent = cs\<rparr> h')"
| "alloc_trees [] h = ([], h)"
| "alloc_trees (t # ts) h =
     (let (c, h') = alloc_tree t h; (cs, h'') = alloc_trees ts h' in (c # cs, h''))"

text \<open>
  Reading the tree below a node recurses without bound when the node graph is cyclic; the depth of
  an acyclic graph is at most the number of its nodes (\<open>read_tree_total\<close> below).
\<close>

fun read_tree_fuel :: "nat \<Rightarrow> heap \<Rightarrow> addr \<Rightarrow> ytree result"
  and read_trees_fuel :: "nat \<Rightarrow> heap \<Rightarrow> addr list \<Rightarrow> ytree list result" where
  "read_tree_fuel 0 h a = panic Diverge"
| "read_tree_fuel (Suc n) h a =
     bind_result (read_trees_fuel n h (content h a))
       (\<lambda>ts. Inr (YNode (kind_at h a) (ntag (node_at h a)) (value_at h a) ts))"
| "read_trees_fuel n h [] = Inr []"
| "read_trees_fuel n h (c # cs) =
     bind_result (read_tree_fuel n h c)
       (\<lambda>t. bind_result (read_trees_fuel n h cs) (\<lambda>ts. Inr (t # ts)))"

definition read_tree :: "heap \<Rightarrow> addr \<Rightarrow> ytree result" where
  "read_tree h a = read_tree_fuel (Suc (length h)) h a"

section \<open>Finding a node (Find, ContainsChild, ChildIndex)\<close>

text \<open>
  \<^verbatim>\<open>Find\<close> is a depth-first search. On a cyclic graph that holds no matching node before the
  cycle closes, the Go recursion overflows the stack: a search deeper than the store has nodes has met
  some node twice on one path and repeats itself for ever.
\<close>

fun Find_fuel :: "nat \<Rightarrow> heap \<Rightarrow> addr \<Rightarrow> (addr \<Rightarrow> bool) \<Rightarrow> addr option result"
  and Find_children :: "nat \<Rightarrow> heap \<Rightarrow> addr list \<Rightarrow> (addr \<Rightarrow> bool) \<Rightarrow> addr option result" where
  "Find_fuel 0 h doc predicate = panic Diverge"
| "Find_fuel (Suc n) h doc predicate =
     (if predicate doc then Inr (Some doc) else Find_children n h (content h doc) predicate)"
| "Find_children n h [] predicate = Inr None"
| "Find_children n h (c # cs) predicate =
     bind_result (Find_fuel n h c predicate) (\<lambda>found. case found of
         Some a \<Rightarrow> Inr (Some a)
       | None \<Rightarrow> Find_children n h cs predicate)"

definition Find :: "heap \<Rightarrow> addr \<Rightarrow> (addr \<Rightarrow> bool) \<Rightarrow> addr option result" where
  "Find h doc predicate = Find_fuel (Suc (length h)) h doc predicate"

definition ContainsChild :: "heap \<Rightarrow> addr \<Rightarrow> addr \<Rightarrow> bool" where
  "ContainsChild h child node \<longleftrightarrow> child \<in> set (content h node)"

fun index_of :: "addr list \<Rightarrow> addr \<Rightarrow> nat \<Rightarrow> nat option" where
  "index_of [] child p = None"
| "index_of (v # vs) child p = (if v = child then Some p else index_of vs child (Suc p))"

definition ChildIndex :: "addr list \<Rightarrow> addr \<Rightarrow> int" where
  "ChildIndex children child = (case index_of children child 0 of None \<Rightarrow> -1 | Some p \<Rightarrow> int p)"

section \<open>Rewriting the children of a node\<close>

definition removeProperty :: "heap \<Rightarrow> addr \<Rightarrow> addr \<Rightarrow> addr list result" where
  "removeProperty h parent child =
     (let childIndex = ChildIndex (content h parent) child in
      bind_result (slice (content h parent) 0 (childIndex - 1)) (\<lambda>pre.
      bind_result (slice_from (content h parent) (childIndex + 1)) (\<lambda>post. Inr (pre @ post))))"

definition removeChild :: "heap \<Rightarrow> addr \<Rightarrow> addr \<Rightarrow> addr list" where
  "removeChild h parent child = filter (\<lambda>current. current \<noteq> child) (content h parent)"

definition AddChildAtIndex :: "heap \<Rightarrow> addr \<Rightarrow> addr \<Rightarrow> addr \<Rightarrow> addr list result" where
  "AddChildAtIndex h parent child value =
     (let childIdx = ChildIndex (content h parent) child in
      bind_result (slice (content h parent) 0 childIdx) (\<lambda>pre.
      bind_result (slice_from (content h parent) childIdx) (\<lambda>post.
        Inr (pre @ content h value @ post))))"

definition replaceChildAtIndex :: "heap \<Rightarrow> addr \<Rightarrow> addr \<Rightarrow> addr \<Rightarrow> addr list result" where
  "replaceChildAtIndex h parent child value =
     (let childIdx = ChildIndex (content h parent) child in
      bind_result (slice (content h parent) 0 childIdx) (\<lambda>pre.
      bind_result (slice_from (content h parent) (childIdx + 1)) (\<lambda>post.
        Inr (pre @ content h value @ post))))"

definition ReplaceNode :: "addr \<Rightarrow> addr \<Rightarrow> addr \<Rightarrow> heap \<Rightarrow> heap result" where
  "ReplaceNode doc match value h =
     bind_result (Find h doc (ContainsChild h match)) (\<lambda>parent. case parent of
         None \<Rightarrow> Inr h
       | Some p \<Rightarrow>
           bind_result (replaceChildAtIndex h p match value) (\<lambda>cs. Inr (set_content h p cs)))"

end
