(* ===== verification/HeapInvariants.thy ===== *)
theory HeapInvariants
  imports YamlHeap
begin

text \<open>
  The invariant of the node store: pointers stay inside the store and the node graph has no cycle
  (\<open>wf_heap\<close>), and what it gives: \<^verbatim>\<open>Find\<close> and the walk of an encoder return, and \<^verbatim>\<open>Find\<close> is a
  decision procedure for "some reachable node satisfies the predicate". The second half is the
  update lemma every patch operation rests on: hanging nodes of a set that is closed under
  children (\<open>sep\<close>) below a node outside of it cannot close a cycle.
\<close>

section \<open>Reachability and well-formedness\<close>

definition child_rel :: "heap \<Rightarrow> (addr \<times> addr) set" where
  "child_rel h = {(a, c). c \<in> set (content h a)}"

definition closed_heap :: "heap \<Rightarrow> bool" where
  "closed_heap h \<longleftrightarrow> (\<forall>a < length h. \<forall>c \<in> set (content h a). c < length h)"

definition wf_heap :: "heap \<Rightarrow> bool" where
  "wf_heap h \<longleftrightarrow> closed_heap h \<and> acyclic (child_rel h)"

definition reach :: "heap \<Rightarrow> addr \<Rightarrow> addr \<Rightarrow> bool" where
  "reach h a b \<longleftrightarrow> (a, b) \<in> (child_rel h)\<^sup>*"

lemma content_out_of_range [simp]: "length h \<le> a \<Longrightarrow> content h a = []"
  by (simp add: node_at_def zero_node_def)

lemma content_in_range: "c \<in> set (content h a) \<Longrightarrow> a < length h"
  by (metis content_out_of_range empty_iff leI list.set(1))

lemma child_relI [intro]: "c \<in> set (content h a) \<Longrightarrow> (a, c) \<in> child_rel h"
  by (simp add: child_rel_def)

lemma closed_heapD: "closed_heap h \<Longrightarrow> c \<in> set (content h a) \<Longrightarrow> c < length h"
  using content_in_range by (auto simp: closed_heap_def)

lemma reach_refl [simp, intro]: "reach h a a"
  by (simp add: reach_def)

lemma reach_step: "reach h a b \<Longrightarrow> c \<in> set (content h b) \<Longrightarrow> reach h a c"
  unfolding reach_def by (auto intro: rtrancl_into_rtrancl)

lemma reach_step2: "b \<in> set (content h a) \<Longrightarrow> reach h b c \<Longrightarrow> reach h a c"
  unfolding reach_def by (auto intro: converse_rtrancl_into_rtrancl)

lemma reach_trans: "reach h a b \<Longrightarrow> reach h b c \<Longrightarrow> reach h a c"
  unfolding reach_def by (rule rtrancl_trans)

lemma reach_in_range: "reach h a b \<Longrightarrow> closed_heap h \<Longrightarrow> a < length h \<Longrightarrow> b < length h"
  unfolding reach_def by (induction rule: rtrancl_induct) (auto simp: child_rel_def closed_heapD)

text \<open>A store whose pointers all go to smaller addresses has no cycle (closed stores evaluate this).\<close>

lemma wf_heap_descending:
  assumes "\<forall>a < length h. \<forall>c \<in> set (content h a). c < a"
  shows "wf_heap h"
proof -
  have "(child_rel h)\<inverse> \<subseteq> less_than"
    using assms content_in_range by (auto simp: child_rel_def)
  then have "acyclic ((child_rel h)\<inverse>)"
    by (meson acyclic_subset wf_acyclic wf_less_than)
  then have "acyclic (child_rel h)" by (simp add: acyclic_converse)
  with assms show ?thesis
    by (fastforce simp: wf_heap_def closed_heap_def)
qed

section \<open>Searches return\<close>

fun chain :: "heap \<Rightarrow> addr \<Rightarrow> addr list \<Rightarrow> bool" where
  "chain h a [] = True"
| "chain h a (x # xs) = (x \<in> set (content h a) \<and> chain h x xs)"

lemma chain_trancl: "chain h a xs \<Longrightarrow> x \<in> set xs \<Longrightarrow> (a, x) \<in> (child_rel h)\<^sup>+"
proof (induction xs arbitrary: a)
  case (Cons y ys)
  then have ay: "(a, y) \<in> child_rel h" by auto
  show ?case
  proof (cases "x = y")
    case False
    with Cons have "(y, x) \<in> (child_rel h)\<^sup>+" by auto
    with ay show ?thesis by (rule trancl_into_trancl2)
  qed (use ay in auto)
qed simp

lemma chain_distinct:
  assumes "acyclic (child_rel h)"
  shows "chain h a xs \<Longrightarrow> distinct (a # xs)"
proof (induction xs arbitrary: a)
  case (Cons x xs)
  have "distinct (x # xs)" by (rule Cons.IH) (use Cons.prems in simp)
  moreover have "a \<notin> set (x # xs)"
    using chain_trancl [OF Cons.prems] assms by (auto simp: acyclic_def)
  ultimately show ?case by simp
qed simp

lemma chain_bounded:
  assumes "wf_heap h" and "chain h a xs"
  shows "length xs \<le> length h"
proof -
  have "set xs \<subseteq> {..<length h}"
    using assms(2)
  proof (induction xs arbitrary: a)
    case (Cons x xs)
    then show ?case using assms(1) by (auto simp: wf_heap_def closed_heapD)
  qed simp
  moreover have "distinct xs"
    using chain_distinct [of h a xs] assms by (simp add: wf_heap_def)
  ultimately show ?thesis
    by (metis card_lessThan card_mono distinct_card finite_lessThan)
qed

lemma Find_fault_chain:
  "Find_fuel n h d p = Inl e \<Longrightarrow> e = Panic Diverge \<and> (\<exists>xs. length xs = n \<and> chain h d xs)"
  "Find_children n h cs p = Inl e \<Longrightarrow>
     e = Panic Diverge \<and> (\<exists>c \<in> set cs. \<exists>xs. length xs = n \<and> chain h c xs)"
proof (induction n h d p and n h cs p arbitrary: e and e rule: Find_fuel_Find_children.induct)
  case (2 n h doc predicate)
  then have "Find_children n h (content h doc) predicate = Inl e"
    and np: "\<not> predicate doc" by (auto split: if_splits)
  with 2(1) obtain c xs where "e = Panic Diverge" "c \<in> set (content h doc)" "length xs = n" "chain h c xs"
    by blast
  then show ?case by (metis chain.simps(2) length_Cons)
next
  case (4 n h c cs predicate)
  then show ?case by (fastforce simp: result_simps split: option.splits)
qed (auto)

lemma Find_total:
  assumes "wf_heap h"
  shows "\<exists>r. Find h d p = Inr r"
proof (cases "Find h d p")
  case (Inl e)
  then obtain xs where "length xs = Suc (length h)" "chain h d xs"
    unfolding Find_def using Find_fault_chain(1) by blast
  with chain_bounded [OF assms] show ?thesis by fastforce
qed simp

lemma Find_sound_aux:
  "Find_fuel n h d p = Inr (Some x) \<Longrightarrow> p x \<and> reach h d x"
  "Find_children n h cs p = Inr (Some x) \<Longrightarrow> p x \<and> (\<exists>c \<in> set cs. reach h c x)"
proof (induction n h d p and n h cs p rule: Find_fuel_Find_children.induct)
  case (4 n h c cs predicate)
  then show ?case by (auto simp: result_simps split: option.splits)
qed (auto split: if_splits intro: reach_step2)

lemma Find_sound: "Find h d p = Inr (Some x) \<Longrightarrow> p x \<and> reach h d x"
  unfolding Find_def by (rule Find_sound_aux)

lemma reach_cases: "reach h a b \<Longrightarrow> a = b \<or> (\<exists>c \<in> set (content h a). reach h c b)"
  unfolding reach_def by (erule converse_rtranclE) (auto simp: child_rel_def)

lemma Find_complete_aux:
  "Find_fuel n h d p = Inr None \<Longrightarrow> reach h d x \<Longrightarrow> \<not> p x"
  "Find_children n h cs p = Inr None \<Longrightarrow> c \<in> set cs \<Longrightarrow> reach h c x \<Longrightarrow> \<not> p x"
proof (induction n h d p and n h cs p arbitrary: and c rule: Find_fuel_Find_children.induct)
  case (2 n h doc predicate)
  from "2.prems"(1) have np: "\<not> predicate doc"
    and rest: "Find_children n h (content h doc) predicate = Inr None" by (auto split: if_splits)
  from reach_cases [OF "2.prems"(2)] show ?case
    using np "2.IH" [OF np rest] by blast
next
  case (4 n h c cs predicate)
  then show ?case by (auto simp: result_simps split: option.splits)
qed auto

lemma Find_None: "Find h d p = Inr None \<Longrightarrow> reach h d x \<Longrightarrow> \<not> p x"
  unfolding Find_def by (rule Find_complete_aux)

lemma Find_fault: "Find h d p = Inl e \<Longrightarrow> e = Panic Diverge"
  unfolding Find_def using Find_fault_chain(1) by blast

lemma read_fault_chain:
  "read_tree_fuel n h a = Inl e \<Longrightarrow> e = Panic Diverge \<and> (\<exists>xs. length xs = n \<and> chain h a xs)"
  "read_trees_fuel n h cs = Inl e \<Longrightarrow>
     e = Panic Diverge \<and> (\<exists>c \<in> set cs. \<exists>xs. length xs = n \<and> chain h c xs)"
proof (induction n h a and n h cs arbitrary: e and e
    rule: read_tree_fuel_read_trees_fuel.induct)
  case (2 n h a)
  then have "read_trees_fuel n h (content h a) = Inl e" by (auto simp: result_simps)
  with 2(1) obtain c xs where "e = Panic Diverge" "c \<in> set (content h a)" "length xs = n" "chain h c xs"
    by blast
  then show ?case by (metis chain.simps(2) length_Cons)
next
  case (4 n h c cs)
  then show ?case by (fastforce simp: result_simps)
qed auto

lemma read_tree_total:
  assumes "wf_heap h"
  shows "\<exists>t. read_tree h a = Inr t"
proof (cases "read_tree h a")
  case (Inl e)
  then obtain xs where "length xs = Suc (length h)" "chain h a xs"
    unfolding read_tree_def using read_fault_chain(1) by blast
  with chain_bounded [OF assms] show ?thesis by fastforce
qed simp

section \<open>Allocation\<close>

definition extends :: "heap \<Rightarrow> heap \<Rightarrow> bool" where
  "extends h h' \<longleftrightarrow> (\<exists>ns. h' = h @ ns)"

lemma extends_refl [simp, intro]: "extends h h"
  by (simp add: extends_def)

lemma extends_trans: "extends h h' \<Longrightarrow> extends h' h'' \<Longrightarrow> extends h h''"
  by (auto simp: extends_def)

lemma extends_length: "extends h h' \<Longrightarrow> length h \<le> length h'"
  by (auto simp: extends_def)

lemma extends_node_at: "extends h h' \<Longrightarrow> a < length h \<Longrightarrow> node_at h' a = node_at h a"
  by (auto simp: extends_def node_at_def nth_append)

lemma extends_alloc: "alloc n h = (a, h') \<Longrightarrow> extends h h'"
  by (auto simp: alloc_def extends_def)

lemma node_at_alloc:
  "node_at (h @ [n]) a = (if a = length h then n else node_at h a)"
  by (auto simp: node_at_def nth_append)

text \<open>
  A block allocated on top of a store: it extends the store, its nodes point to earlier nodes of the
  block only, and every address of \<open>as\<close> is in the block.
\<close>

definition block :: "heap \<Rightarrow> addr set \<Rightarrow> heap \<Rightarrow> bool" where
  "block h as h' \<longleftrightarrow> extends h h' \<and> as \<subseteq> {length h ..< length h'}
     \<and> (\<forall>a. length h \<le> a \<longrightarrow> (\<forall>c \<in> set (content h' a). length h \<le> c \<and> c < a))"

lemma block_trans:
  assumes "block h as h'" and "block h' bs h''"
  shows "block h (as \<union> bs) h''"
proof -
  have ext: "extends h h'" "extends h' h''" using assms by (auto simp: block_def)
  have "length h \<le> c \<and> c < a" if "length h \<le> a" "c \<in> set (content h'' a)" for a c
  proof (cases "a < length h'")
    case True
    then have "node_at h'' a = node_at h' a" using ext(2) by (simp add: extends_node_at)
    with that assms(1) show ?thesis by (auto simp: block_def)
  next
    case False
    then have "length h' \<le> c \<and> c < a"
      using that(2) assms(2) unfolding block_def by (meson leI)
    with extends_length [OF ext(1)] show ?thesis by simp
  qed
  moreover have "as \<union> bs \<subseteq> {length h ..< length h''}"
    using assms extends_length [OF ext(1)] extends_length [OF ext(2)]
    by (fastforce simp: block_def)
  ultimately show ?thesis
    using ext extends_trans by (auto simp: block_def)
qed

lemma block_alloc:
  assumes "block h (set (ncontent n)) h'"
  shows "block h {length h'} (h' @ [n])"
proof -
  have ext: "extends h (h' @ [n])" using assms by (auto simp: block_def extends_def)
  have "length h \<le> c \<and> c < a"
    if "length h \<le> a" "c \<in> set (content (h' @ [n]) a)" for a c
    using that assms by (auto simp: node_at_alloc block_def split: if_splits)
  moreover have "length h \<le> length h'" using assms by (auto simp: block_def dest: extends_length)
  ultimately show ?thesis using ext by (auto simp: block_def)
qed

lemma block_refl: "block h {} h"
  by (auto simp: block_def dest: content_in_range)

lemma block_alloc_tree:
  "alloc_tree t h = (a, h') \<Longrightarrow> block h {a} h'"
  "alloc_trees ts h = (as, h') \<Longrightarrow> block h (set as) h'"
proof (induction t h and ts h arbitrary: a h' and as h' rule: alloc_tree_alloc_trees.induct)
  case (1 k tag v ts h)
  obtain cs h1 where cs: "alloc_trees ts h = (cs, h1)" by (meson surj_pair)
  let ?n = "\<lparr>nkind = k, ntag = tag, nvalue = v, ncontent = cs\<rparr>"
  have "block h (set (ncontent ?n)) h1" using "1.IH" [OF cs] by simp
  then have "block h {length h1} (h1 @ [?n])" by (rule block_alloc)
  then show ?case using "1.prems" cs by (auto simp: alloc_def)
next
  case (3 t ts h)
  obtain c h1 where c: "alloc_tree t h = (c, h1)" by (meson surj_pair)
  obtain cs h2 where cs: "alloc_trees ts h1 = (cs, h2)" by (meson surj_pair)
  have "block h ({c} \<union> set cs) h2"
    using "3.IH"(1) [OF c] "3.IH"(2) [OF c [symmetric] refl cs] by (rule block_trans)
  then show ?case using "3.prems" c cs by auto
qed (auto simp: block_refl)

lemma content_block_old:
  "block h as h' \<Longrightarrow> a < length h \<Longrightarrow> node_at h' a = node_at h a"
  by (simp add: block_def extends_node_at)

lemma block_length: "block h as h' \<Longrightarrow> length h \<le> length h'"
  by (simp add: block_def extends_length)

lemma block_closed: "block h as h' \<Longrightarrow> closed_heap h \<Longrightarrow> closed_heap h'"
  unfolding closed_heap_def
proof (intro allI impI ballI)
  fix a c assume b: "block h as h'" and cl: "\<forall>a<length h. \<forall>c\<in>set (content h a). c < length h"
    and a: "a < length h'" and c: "c \<in> set (content h' a)"
  show "c < length h'"
  proof (cases "a < length h")
    case True
    then show ?thesis
      using c cl content_block_old [OF b True] block_length [OF b] by fastforce
  next
    case False
    then show ?thesis using b a c unfolding block_def by (meson leI less_trans)
  qed
qed

lemma block_wf [heap_inv]:
  assumes b: "block h as h'" and wf: "wf_heap h"
  shows "wf_heap h'"
proof -
  have cl: "closed_heap h'" using b wf block_closed by (auto simp: wf_heap_def)
  have step: "(x, y) \<in> child_rel h' \<Longrightarrow> (x < length h \<longrightarrow> (x, y) \<in> child_rel h)
      \<and> (length h \<le> x \<longrightarrow> length h \<le> y \<and> y < x)" for x y
    using b content_block_old [OF b] by (auto simp: child_rel_def block_def)
  have old: "(x, y) \<in> (child_rel h')\<^sup>+ \<Longrightarrow> x < length h \<Longrightarrow> (x, y) \<in> (child_rel h)\<^sup>+ \<and> y < length h" for x y
  proof (induction rule: trancl_induct)
    case (base y)
    with step have "(x, y) \<in> child_rel h" by blast
    with wf show ?case by (auto simp: wf_heap_def child_rel_def closed_heapD)
  next
    case (step y z)
    then have "(y, z) \<in> child_rel h" using \<open>\<And>y x. (x, y) \<in> child_rel h' \<Longrightarrow> _\<close> by blast
    with step wf show ?case
      by (auto simp: wf_heap_def child_rel_def closed_heapD intro: trancl_into_trancl)
  qed
  have new: "(x, y) \<in> (child_rel h')\<^sup>+ \<Longrightarrow> length h \<le> x \<Longrightarrow> length h \<le> y \<and> y < x" for x y
  proof (induction rule: trancl_induct)
    case (base y)
    then show ?case using step by blast
  next
    case (step y z)
    then show ?case using \<open>\<And>y x. (x, y) \<in> child_rel h' \<Longrightarrow> _\<close> by fastforce
  qed
  have "acyclic (child_rel h')"
  proof (rule acyclicI, rule allI, rule notI)
    fix x assume "(x, x) \<in> (child_rel h')\<^sup>+"
    with old [of x x] new [of x x] wf show False
      by (cases "x < length h") (auto simp: wf_heap_def acyclic_def)
  qed
  with cl show ?thesis by (simp add: wf_heap_def)
qed

section \<open>Rewriting children\<close>

lemma length_set_content [simp]: "length (set_content h p cs) = length h"
  by (simp add: set_content_def)

lemma node_at_set_content [heap_simps]:
  "node_at (set_content h p cs) a =
     (if a = p \<and> p < length h then (node_at h p)\<lparr>ncontent := cs\<rparr> else node_at h a)"
  by (auto simp: set_content_def node_at_def)

lemma kind_at_set_content [simp]: "kind_at (set_content h p cs) a = kind_at h a"
  by (simp add: node_at_set_content)

lemma value_at_set_content [simp]: "value_at (set_content h p cs) a = value_at h a"
  by (simp add: node_at_set_content)

lemma content_set_content [heap_simps]:
  "content (set_content h p cs) a = (if a = p \<and> p < length h then cs else content h a)"
  by (simp add: node_at_set_content)

text \<open>
  The update lemma. \<open>S\<close> is a set of nodes that is closed under children and holds every address not
  yet allocated: the nodes to be inserted. A node outside \<open>S\<close> may keep or lose children and gain
  any node of \<open>S\<close>: the graph stays well-formed and \<open>S\<close> stays closed.
\<close>

definition closed_set :: "addr set \<Rightarrow> heap \<Rightarrow> bool" where
  "closed_set S h \<longleftrightarrow> (\<forall>a \<in> S. set (content h a) \<subseteq> S)"

definition sep :: "addr set \<Rightarrow> heap \<Rightarrow> bool" where
  "sep S h \<longleftrightarrow> wf_heap h \<and> closed_set S h \<and> {length h ..} \<subseteq> S"

lemma sep_wf: "sep S h \<Longrightarrow> wf_heap h"
  by (simp add: sep_def)

lemma sep_closed: "sep S h \<Longrightarrow> a \<in> S \<Longrightarrow> c \<in> set (content h a) \<Longrightarrow> c \<in> S"
  by (auto simp: sep_def closed_set_def)

lemma sep_range: "sep S h \<Longrightarrow> a \<notin> S \<Longrightarrow> a < length h"
  by (meson atLeast_iff leI sep_def subsetD)

lemma sep_parent: "sep S h \<Longrightarrow> m \<notin> S \<Longrightarrow> m \<in> set (content h p) \<Longrightarrow> p \<notin> S"
  by (meson sep_closed)

lemma content_range: "wf_heap h \<Longrightarrow> c \<in> set (content h a) \<Longrightarrow> c < length h"
  by (auto simp: wf_heap_def dest: closed_heapD)

lemma reach_closed_set: "reach h a b \<Longrightarrow> closed_set S h \<Longrightarrow> a \<in> S \<Longrightarrow> b \<in> S"
  unfolding reach_def
  by (induction rule: rtrancl_induct) (auto simp: child_rel_def closed_set_def)

lemma wf_set_content:
  assumes wf: "wf_heap h" and cl: "closed_set S h"
    and cs: "\<And>c. c \<in> set cs \<Longrightarrow> c < length h \<and> (c \<in> set (content h p) \<or> (c \<in> S \<and> p \<notin> S))"
  shows "wf_heap (set_content h p cs)"
proof -
  let ?h = "set_content h p cs" and ?C = "{c \<in> set cs. c \<in> S \<and> p \<notin> S}"
  have "closed_heap ?h"
    using wf cs by (auto simp: wf_heap_def closed_heap_def content_set_content)
  moreover have "acyclic (child_rel ?h)"
  proof -
    have "(c, p) \<notin> (child_rel h)\<^sup>*" if "c \<in> ?C" for c
      using that reach_closed_set [OF _ cl, of c p] by (auto simp: reach_def)
    then have "acyclic (child_rel h \<union> {p} \<times> ?C)"
      using wf by (intro acyclic_add_edges) (auto simp: wf_heap_def)
    moreover have "child_rel ?h \<subseteq> child_rel h \<union> {p} \<times> ?C"
      using cs by (fastforce simp: child_rel_def content_set_content split: if_splits)
    ultimately show ?thesis by (rule acyclic_subset)
  qed
  ultimately show ?thesis by (simp add: wf_heap_def)
qed

lemma sep_set_content [heap_inv]:
  assumes s: "sep S h"
    and cs: "\<And>c. c \<in> set cs \<Longrightarrow> c < length h \<and> (c \<in> set (content h p) \<or> (c \<in> S \<and> p \<notin> S))"
  shows "sep S (set_content h p cs)"
proof -
  have "wf_heap (set_content h p cs)"
    using s cs by (intro wf_set_content [of h S]) (auto simp: sep_def)
  moreover have "closed_set S (set_content h p cs)"
    using s cs by (fastforce simp: sep_def closed_set_def content_set_content)
  ultimately show ?thesis using s by (simp add: sep_def)
qed

text \<open>Allocation: a new node that points to nodes of \<open>S\<close> belongs to \<open>S\<close>.\<close>

lemma wf_alloc:
  assumes wf: "wf_heap h" and n: "\<And>c. c \<in> set (ncontent n) \<Longrightarrow> c < length h"
  shows "wf_heap (h @ [n])"
proof -
  have cl: "closed_heap h" and ac: "acyclic (child_rel h)" using wf by (auto simp: wf_heap_def)
  have "closed_heap (h @ [n])"
    unfolding closed_heap_def using n closed_heapD [OF cl]
    by (fastforce simp: node_at_alloc less_Suc_eq)
  moreover have "acyclic (child_rel (h @ [n]))"
  proof (rule acyclic_subset)
    show "acyclic (child_rel h \<union> {length h} \<times> set (ncontent n))"
      using ac n reach_in_range [OF _ cl] by (intro acyclic_add_edges) (auto simp: reach_def)
    show "child_rel (h @ [n]) \<subseteq> child_rel h \<union> {length h} \<times> set (ncontent n)"
      by (auto simp: child_rel_def node_at_alloc split: if_splits)
  qed
  ultimately show ?thesis by (simp add: wf_heap_def)
qed

lemma sep_alloc [heap_inv]:
  assumes s: "sep S h" and n: "\<And>c. c \<in> set (ncontent n) \<Longrightarrow> c < length h \<and> c \<in> S"
  shows "sep S (h @ [n])"
proof -
  have "wf_heap (h @ [n])" using s n by (intro wf_alloc) (auto simp: sep_def)
  moreover have "closed_set S (h @ [n])"
    using s n by (auto simp: sep_def closed_set_def node_at_alloc)
  ultimately show ?thesis using s by (auto simp: sep_def)
qed

lemma sep_block:
  assumes "block h as h'" and "wf_heap h"
  shows "sep {length h ..} h'"
  using assms block_wf [OF assms] block_length [OF assms(1)]
  by (auto simp: sep_def closed_set_def block_def)

text \<open>A node that reaches nothing of \<open>S\<close> still does so after an allocation.\<close>

definition apart :: "addr \<Rightarrow> addr set \<Rightarrow> heap \<Rightarrow> bool" where
  "apart a S h \<longleftrightarrow> (\<forall>x. reach h a x \<longrightarrow> x \<notin> S)"

lemma reach_alloc:
  assumes "reach (h @ [n]) a x" "closed_heap h" "a < length h"
  shows "reach h a x \<and> x < length h"
  using assms(1) unfolding reach_def
proof (induction rule: rtrancl_induct)
  case base
  show ?case using assms(3) by simp
next
  case (step y z)
  then have "z \<in> set (content h y)" by (auto simp: child_rel_def node_at_alloc split: if_splits)
  with step assms(2) show ?case
    by (auto simp: child_rel_def closed_heapD intro: rtrancl_into_rtrancl)
qed

lemma apart_alloc: "apart a S h \<Longrightarrow> sep S h \<Longrightarrow> apart a S (h @ [n])"
  by (meson apart_def reach_alloc reach_refl sep_def sep_range wf_heap_def)

lemma apart_block:
  assumes b: "block h as h'" and wf: "wf_heap h" and a: "a < length h"
  shows "apart a {length h ..} h'"
proof -
  have "reach h' a x \<Longrightarrow> x < length h" for x
    unfolding reach_def
  proof (induction rule: rtrancl_induct)
    case base
    then show ?case using a by simp
  next
    case (step y z)
    then have "z \<in> set (content h y)"
      using content_block_old [OF b] by (auto simp: child_rel_def)
    then show ?case using content_range [OF wf] by simp
  qed
  then show ?thesis by (fastforce simp: apart_def)
qed

end
