(* ===== verification/YamlPath.thy ===== *)
theory YamlPath
  imports HeapInvariants
begin

text \<open>
  The evaluation of a compiled path expression over the node store: the closures
  \<^verbatim>\<open>yamlpath.NewPath\<close> builds (\<^verbatim>\<open>path.go\<close>, \<^verbatim>\<open>slicer.go\<close> of the vendored yaml-jsonpath, over the vendored
  go-yit iterators). A \<open>ypath\<close> is the chain of closures; the lexer that produces it and the
  filter expressions are parameters of the model.
\<close>

section \<open>Compiled paths\<close>

datatype ypath =
    PIdentity
  | PRoot ypath
  | PRecurse ypath
  | PChild string ypath
  | PAllChildren ypath
  | PBracketChild "string list" ypath
  | PSubscript string ypath
  | PFilter string ypath
  | PRecursiveFilter string ypath
  | PPropertyName string ypath
  | PBracketPropertyName "string list" ypath
  | PSubscriptPropertyName string ypath

section \<open>Array subscripts (slicer.go)\<close>

function indices_up :: "int \<Rightarrow> int \<Rightarrow> int \<Rightarrow> int \<Rightarrow> int list" where
  "indices_up i to step len =
     (if i < to \<and> 0 < step
      then (if 0 \<le> i \<and> i < len then [i] else []) @ indices_up (i + step) to step len else [])"
  by pat_completeness auto
termination
  by (relation "measure (\<lambda>(i, to, step, len). nat (to - i))") auto

function indices_down :: "int \<Rightarrow> int \<Rightarrow> int \<Rightarrow> int \<Rightarrow> int list" where
  "indices_down i to step len =
     (if to < i \<and> step < 0
      then (if 0 \<le> i \<and> i < len then [i] else []) @ indices_down (i + step) to step len else [])"
  by pat_completeness auto
termination
  by (relation "measure (\<lambda>(i, to, step, len). nat (i - to))") auto

declare indices_up.simps [simp del] indices_down.simps [simp del]

definition slice_indices :: "int \<Rightarrow> int \<Rightarrow> int \<Rightarrow> int \<Rightarrow> int list" where
  "slice_indices from to step len =
     (if 0 < step then indices_up (max from 0) (min to len) step len
      else if step < 0 then indices_down (min from len) (max to (-1)) step len
      else [])"

definition subscript_number :: "string \<Rightarrow> int option result" where
  "subscript_number s =
     (let t = strings_TrimSpace s in
      if t = [] then Inr None
      else case strconv_Atoi t of
          None \<Rightarrow> fail ''non-integer array index''
        | Some n \<Rightarrow> Inr (Some n))"

definition from_end :: "int \<Rightarrow> int \<Rightarrow> int" where
  "from_end n len = (if n < 0 then n + len else n)"

fun slice_range :: "int option list \<Rightarrow> int \<Rightarrow> int list result" where
  "slice_range [from] len = (case from of
       None \<Rightarrow> fail ''array index missing''
     | Some n \<Rightarrow> Inr (slice_indices (from_end n len) (from_end n len + 1) 1 len))"
| "slice_range [from, to] len =
     Inr (slice_indices (case from of None \<Rightarrow> 0 | Some n \<Rightarrow> from_end n len)
           (case to of None \<Rightarrow> len | Some n \<Rightarrow> from_end n len) 1 len)"
| "slice_range [from, to, step] len =
     (let st = (case step of None \<Rightarrow> 1 | Some n \<Rightarrow> n) in
      if st = 0 then fail ''array index step value must be non-zero''
      else Inr (slice_indices
             (case from of None \<Rightarrow> (if 0 < st then 0 else len - 1) | Some n \<Rightarrow> from_end n len)
             (case to of None \<Rightarrow> (if 0 < st then len else - 1) | Some n \<Rightarrow> from_end n len) st len))"
| "slice_range _ len = fail ''malformed array index, too many colons''"

fun map_result :: "('a \<Rightarrow> 'b result) \<Rightarrow> 'a list \<Rightarrow> 'b list result" where
  "map_result f [] = Inr []"
| "map_result f (x # xs) =
     bind_result (f x) (\<lambda>y. bind_result (map_result f xs) (\<lambda>ys. Inr (y # ys)))"

definition slice_member :: "string \<Rightarrow> int \<Rightarrow> int list result" where
  "slice_member index len =
     (let idx = strings_TrimSpace index in
      if idx = ''*'' then Inr (slice_indices 0 len 1 len)
      else
        let subscr = strings_Split idx (CHR '':'') in
        if 3 < length subscr then fail ''malformed array index, too many colons''
        else bind_result (map_result subscript_number subscr) (\<lambda>ns. slice_range ns len))"

definition slice_array :: "string \<Rightarrow> int \<Rightarrow> int list result" where
  "slice_array index len =
     concat_result (\<lambda>idx. slice_member idx len) (strings_Split index (CHR '',''))"

section \<open>Children of mappings\<close>

text \<open>
  A mapping node holds its keys at the even and its values at the odd positions. The accesses of
  the code are written for a content of any length: reading the value behind a last, unpaired
  key is out of range.
\<close>

fun find_key :: "heap \<Rightarrow> string \<Rightarrow> addr list \<Rightarrow> addr option result" where
  "find_key h name [] = Inr None"
| "find_key h name [k] = (if value_at h k = name then panic IndexOutOfRange else Inr None)"
| "find_key h name (k # v # rest) =
     (if value_at h k = name then Inr (Some v) else find_key h name rest)"

fun find_keys :: "heap \<Rightarrow> string \<Rightarrow> addr list \<Rightarrow> addr list result" where
  "find_keys h name [] = Inr []"
| "find_keys h name [k] = (if value_at h k = name then panic IndexOutOfRange else Inr [])"
| "find_keys h name (k # v # rest) =
     bind_result (find_keys h name rest)
       (\<lambda>vs. Inr (if value_at h k = name then v # vs else vs))"

fun mapping_keys :: "addr list \<Rightarrow> addr list" where
  "mapping_keys [] = []"
| "mapping_keys [k] = [k]"
| "mapping_keys (k # v # rest) = k # mapping_keys rest"

fun mapping_values :: "addr list \<Rightarrow> addr list" where
  "mapping_values [] = []"
| "mapping_values [k] = []"
| "mapping_values (k # v # rest) = v # mapping_values rest"

text \<open>\<^verbatim>\<open>RecurseNodes\<close>: the node and everything below it, in preorder; endless on a cyclic graph.\<close>

primrec RecurseNodes_fuel :: "nat \<Rightarrow> heap \<Rightarrow> addr \<Rightarrow> addr list result" where
  "RecurseNodes_fuel 0 h a = panic Diverge"
| "RecurseNodes_fuel (Suc n) h a =
     bind_result (concat_result (RecurseNodes_fuel n h) (content h a)) (\<lambda>ds. Inr (a # ds))"

definition RecurseNodes :: "heap \<Rightarrow> addr \<Rightarrow> addr list result" where
  "RecurseNodes h a = RecurseNodes_fuel (Suc (length h)) h a"

section \<open>Evaluation (path.go)\<close>

definition subscript_nodes :: "string \<Rightarrow> addr list \<Rightarrow> addr list result" where
  "subscript_nodes subscript cs =
     (case slice_array subscript (int (length cs)) of
        Inl e \<Rightarrow> panic ExplicitPanic
      | Inr is \<Rightarrow> Inr (map (\<lambda>s. cs ! nat s) (filter (\<lambda>s. 0 \<le> s \<and> s < int (length cs)) is)))"

type_synonym filter_fun = "string \<Rightarrow> heap \<Rightarrow> addr \<Rightarrow> addr \<Rightarrow> bool"

primrec path_find :: "filter_fun \<Rightarrow> heap \<Rightarrow> addr \<Rightarrow> ypath \<Rightarrow> addr \<Rightarrow> addr list result" where
  "path_find F h root PIdentity node =
     Inr (if kind_at h node = ZeroKind then [] else [node])"
| "path_find F h root (PRoot p) node =
     (if kind_at h node = DocumentNode then
        (case content h node of
           [] \<Rightarrow> panic IndexOutOfRange
         | c # _ \<Rightarrow> path_find F h root p c)
      else path_find F h root p node)"
| "path_find F h root (PRecurse p) node =
     bind_result (RecurseNodes h node) (concat_result (path_find F h root p))"
| "path_find F h root (PChild name p) node =
     (if kind_at h node \<noteq> MappingNode then Inr []
      else bind_result (find_key h name (content h node)) (\<lambda>found. case found of
          None \<Rightarrow> Inr []
        | Some v \<Rightarrow> path_find F h root p v))"
| "path_find F h root (PAllChildren p) node =
     (case kind_at h node of
        MappingNode \<Rightarrow> concat_result (path_find F h root p) (mapping_values (content h node))
      | SequenceNode \<Rightarrow> concat_result (path_find F h root p) (content h node)
      | _ \<Rightarrow> Inr [])"
| "path_find F h root (PBracketChild names p) node =
     (if kind_at h node \<noteq> MappingNode then Inr []
      else bind_result (concat_result (\<lambda>name. find_keys h name (content h node)) names)
             (concat_result (path_find F h root p)))"
| "path_find F h root (PSubscript subscript p) node =
     (if kind_at h node = MappingNode \<and> subscript = ''*''
      then concat_result (path_find F h root p) (mapping_values (content h node))
      else if kind_at h node \<noteq> SequenceNode then Inr []
      else bind_result (subscript_nodes subscript (content h node))
             (concat_result (path_find F h root p)))"
| "path_find F h root (PFilter flt p) node =
     (if kind_at h node = SequenceNode
      then concat_result (path_find F h root p) (filter (\<lambda>c. F flt h c root) (content h node))
      else if F flt h node root then path_find F h root p node else Inr [])"
| "path_find F h root (PRecursiveFilter flt p) node =
     (if F flt h node root then path_find F h root p node else Inr [])"
| "path_find F h root (PPropertyName name p) node =
     (if kind_at h node \<noteq> MappingNode then Inr []
      else case filter (\<lambda>k. value_at h k = name) (mapping_keys (content h node)) of
          [] \<Rightarrow> Inr []
        | k # _ \<Rightarrow> path_find F h root p k)"
| "path_find F h root (PBracketPropertyName names p) node =
     (if kind_at h node \<noteq> MappingNode then Inr []
      else concat_result (path_find F h root p)
             (concat (map (\<lambda>name. filter (\<lambda>k. value_at h k = name) (mapping_keys (content h node))) names)))"
| "path_find F h root (PSubscriptPropertyName subscript p) node =
     (if kind_at h node = MappingNode \<and> subscript = ''*''
      then concat_result (path_find F h root p) (mapping_keys (content h node))
      else Inr [])"

text \<open>\<^verbatim>\<open>Path.Find(node)\<close>: the node is also the root of the filters.\<close>

definition path_Find :: "filter_fun \<Rightarrow> ypath \<Rightarrow> heap \<Rightarrow> addr \<Rightarrow> addr list result" where
  "path_Find F p h node = path_find F h node p node"

section \<open>Matches lie below the node\<close>

lemma find_key_mem: "find_key h name cs = Inr (Some v) \<Longrightarrow> v \<in> set cs"
  by (induction h name cs rule: find_key.induct) (auto split: if_splits)

lemma find_keys_mem: "find_keys h name cs = Inr vs \<Longrightarrow> v \<in> set vs \<Longrightarrow> v \<in> set cs"
  by (induction h name cs arbitrary: vs rule: find_keys.induct)
    (auto simp: result_simps split: if_splits)

lemma mapping_keys_mem: "v \<in> set (mapping_keys cs) \<Longrightarrow> v \<in> set cs"
  by (induction cs rule: mapping_keys.induct) auto

lemma mapping_values_mem: "v \<in> set (mapping_values cs) \<Longrightarrow> v \<in> set cs"
  by (induction cs rule: mapping_values.induct) auto

lemma subscript_nodes_mem: "subscript_nodes s cs = Inr ns \<Longrightarrow> a \<in> set ns \<Longrightarrow> a \<in> set cs"
  by (auto simp: subscript_nodes_def split: sum.splits)

lemma RecurseNodes_fuel_reach:
  "RecurseNodes_fuel n h a = Inr ds \<Longrightarrow> d \<in> set ds \<Longrightarrow> reach h a d"
proof (induction n arbitrary: a ds)
  case (Suc n)
  then obtain es where es: "concat_result (RecurseNodes_fuel n h) (content h a) = Inr es" "ds = a # es"
    by (auto simp: result_simps)
  show ?case
  proof (cases "d = a")
    case False
    with es Suc.prems(2) obtain c zs where "c \<in> set (content h a)" "RecurseNodes_fuel n h c = Inr zs" "d \<in> set zs"
      using concat_result_Inr [OF es(1), of d] by auto
    then show ?thesis using Suc.IH by (meson reach_step2)
  qed simp
qed simp

lemmas path_child_mem = find_key_mem find_keys_mem mapping_keys_mem mapping_values_mem subscript_nodes_mem

lemma concat_find_reach:
  assumes IH: "\<And>b ns. path_find F h root p b = Inr ns \<Longrightarrow> m \<in> set ns \<Longrightarrow> reach h b m"
    and "concat_result (path_find F h root p) bs = Inr ms" and "m \<in> set ms"
    and sub: "\<And>b. b \<in> set bs \<Longrightarrow> reach h a b"
  shows "reach h a m"
  using concat_result_Inr [OF assms(2,3)] IH sub by (meson reach_trans)

lemma path_find_reach:
  "path_find F h root p a = Inr ms \<Longrightarrow> m \<in> set ms \<Longrightarrow> reach h a m"
proof (induction p arbitrary: a ms)
  case PIdentity
  then show ?case by (auto split: if_splits)
next
  case (PRoot p)
  then show ?case
    by (auto split: if_splits list.splits intro: reach_step2)
next
  case (PRecurse p)
  then obtain bs where bs: "RecurseNodes h a = Inr bs" "concat_result (path_find F h root p) bs = Inr ms"
    by (auto simp: result_simps)
  show ?case
    by (rule concat_find_reach [OF PRecurse.IH bs(2) PRecurse.prems(2)])
      (use bs(1) RecurseNodes_fuel_reach in \<open>unfold RecurseNodes_def, blast\<close>)
next
  case (PChild name p)
  then show ?case
    by (auto simp: result_simps split: if_splits option.splits dest!: find_key_mem intro: reach_step2)
next
  case (PAllChildren p)
  then show ?case
    by (auto split: node_kind.splits intro!: concat_find_reach [OF PAllChildren.IH]
        dest: mapping_values_mem intro: reach_step [OF reach_refl])
next
  case (PBracketChild names p)
  show ?case
  proof (cases "kind_at h a = MappingNode")
    case True
    with PBracketChild.prems(1) obtain bs where
      bs: "concat_result (\<lambda>name. find_keys h name (content h a)) names = Inr bs"
        "concat_result (path_find F h root p) bs = Inr ms"
      by (auto simp: result_simps)
    show ?thesis
    proof (rule concat_find_reach [OF PBracketChild.IH bs(2) PBracketChild.prems(2)])
      fix b assume "b \<in> set bs"
      then show "reach h a b"
        using concat_result_Inr [OF bs(1)] by (blast intro: reach_step [OF reach_refl] find_keys_mem)
    qed
  qed (use PBracketChild.prems in simp)
next
  case (PSubscript subscript p)
  then show ?case
    by (auto simp: result_simps split: if_splits intro!: concat_find_reach [OF PSubscript.IH]
        dest: path_child_mem intro: reach_step [OF reach_refl])
next
  case (PFilter flt p)
  then show ?case
    by (auto split: if_splits intro!: concat_find_reach [OF PFilter.IH]
        intro: reach_step [OF reach_refl])
next
  case (PRecursiveFilter flt p)
  then show ?case by (auto split: if_splits)
next
  case (PPropertyName name p)
  have "k \<in> set (content h a)" if "filter (\<lambda>k. value_at h k = name) (mapping_keys (content h a)) = k # ks" for k ks
    using filter_ConsD [OF that] mapping_keys_mem by blast
  with PPropertyName show ?case
    by (auto split: if_splits list.splits intro: reach_step2)
next
  case (PBracketPropertyName names p)
  then show ?case
    by (auto split: if_splits intro!: concat_find_reach [OF PBracketPropertyName.IH]
        intro: reach_step [OF reach_refl mapping_keys_mem])
next
  case (PSubscriptPropertyName subscript p)
  then show ?case
    by (auto split: if_splits intro!: concat_find_reach [OF PSubscriptPropertyName.IH]
        dest: mapping_keys_mem intro: reach_step [OF reach_refl])
qed

end
