(* ===== verification/OpPath.thy ===== *)
theory OpPath
  imports GoStrings
begin

text \<open>
  The syntactic decomposition of a patch path into a parent path and the name of the last child
  (\<^verbatim>\<open>pkg/patches/path.go\<close>), with the two regular expressions of that file written out as
  functions on strings.
\<close>

section \<open>Definitions\<close>

text \<open>The root-child expression: a dollar sign or a dot, then one or more bytes that are no dots.\<close>

definition isRootChild :: "string \<Rightarrow> bool" where
  "isRootChild p = (case p of
     [] \<Rightarrow> False
   | c # rest \<Rightarrow> (c = CHR ''$'' \<or> c = CHR ''.'') \<and> rest \<noteq> [] \<and> CHR ''.'' \<notin> set rest)"

text \<open>
  \<^verbatim>\<open>endsWithBracketExp\<close>: an opening bracket, one or more bytes other than a closing bracket, and a
  closing bracket at the end. The leftmost match starts at the first opening bracket behind the
  last inner closing bracket. The result is the text before the match and the bracketed group.
\<close>

definition bracket_suffix :: "string \<Rightarrow> (string \<times> string) option" where
  "bracket_suffix p =
     (if p = [] \<or> last p \<noteq> CHR '']'' then None
      else
        let body = butlast p;
            s = rev (takeWhile (\<lambda>c. c \<noteq> CHR '']'') (rev body));
            front = take (length body - length s) body
        in case dropWhile (\<lambda>c. c \<noteq> CHR ''['') s of
             [] \<Rightarrow> None
           | _ # g \<Rightarrow>
               if g = [] then None
               else Some (front @ takeWhile (\<lambda>c. c \<noteq> CHR ''['') s, g))"

definition getChildName :: "string \<Rightarrow> string" where
  "getChildName path =
     (if path = ''$'' \<or> path = ''.'' then []
      else case bracket_suffix path of
          Some (_, match) \<Rightarrow>
            strings_ReplaceAll (strings_ReplaceAll match [CHR 0x27] []) [CHR 0x22] []
        | None \<Rightarrow> last (split_on (\<lambda>c. c = CHR ''$'' \<or> c = CHR ''.'') path))"

definition getParentPath :: "string \<Rightarrow> string" where
  "getParentPath path =
     (case bracket_suffix path of
        Some (pre, _) \<Rightarrow> pre
      | None \<Rightarrow> strings_Join (butlast (strings_Split path (CHR ''.''))) ''.'')"

section \<open>Lemmas\<close>

lemma bracket_suffix_decomp:
  assumes "bracket_suffix p = Some (pre, g)"
  shows "p = pre @ ''['' @ g @ '']'' \<and> g \<noteq> [] \<and> CHR '']'' \<notin> set g"
proof -
  define body where "body = butlast p"
  define s where "s = rev (takeWhile (\<lambda>c. c \<noteq> CHR '']'') (rev body))"
  have p: "p = body @ '']''"
    using assms by (auto simp: bracket_suffix_def body_def split: if_splits)
      (metis append_butlast_last_id)
  obtain xs where xs: "body = xs @ s"
    unfolding s_def using suffix_takeWhile_rev by blast
  then have front: "take (length body - length s) body @ s = body" by simp
  have s_no: "CHR '']'' \<notin> set s"
    unfolding s_def by (metis (mono_tags, lifting) set_rev set_takeWhileD)
  from assms obtain d where
    d: "dropWhile (\<lambda>c. c \<noteq> CHR ''['') s = d # g" and g: "g \<noteq> []"
    and pre: "pre = take (length body - length s) body @ takeWhile (\<lambda>c. c \<noteq> CHR ''['') s"
    by (auto simp: bracket_suffix_def body_def s_def Let_def split: if_splits list.splits)
  have dq: "d = CHR ''[''" using dropWhile_ConsD [OF d] by simp
  have s: "s = takeWhile (\<lambda>c. c \<noteq> CHR ''['') s @ ''['' @ g"
    using dropWhile_ConsD [OF d] unfolding dq append_Cons append_Nil by (rule conjunct2)
  then have "body = pre @ ''['' @ g" using front pre s append.assoc by metis
  moreover have "CHR '']'' \<notin> set g"
    using s_no arg_cong [OF s, of set] by auto
  ultimately show ?thesis using p g by simp
qed

lemma bracket_suffix_intro:
  assumes "g \<noteq> []" "CHR '']'' \<notin> set g" "CHR ''['' \<notin> set pre \<or> (\<exists>q. pre = q @ '']'')"
  shows "bracket_suffix (pre @ ''['' @ g @ '']'') = Some (pre, g)"
proof -
  let ?nb = "\<lambda>c. c \<noteq> CHR '']''"
  let ?t = "rev (takeWhile ?nb (rev pre))"
  have tw: "takeWhile ?nb (rev g @ ''['' @ rev pre) = rev g @ ''['' @ takeWhile ?nb (rev pre)"
    using assms(2) by (auto simp: takeWhile_append takeWhile_eq_all_conv)
  have no: "CHR ''['' \<notin> set ?t"
  proof (cases "CHR ''['' \<in> set pre")
    case True
    with assms(3) obtain q where "pre = q @ '']''" by blast
    then show ?thesis by simp
  next
    case False
    then show ?thesis by (metis set_rev set_takeWhileD)
  qed
  have dw: "dropWhile (\<lambda>c. c \<noteq> CHR ''['') (?t @ ''['' @ g) = ''['' @ g"
    using no by (auto simp: dropWhile_append dropWhile_eq_Nil_conv)
  have tw2: "takeWhile (\<lambda>c. c \<noteq> CHR ''['') (?t @ ''['' @ g) = ?t"
    using no by (auto simp: takeWhile_append takeWhile_eq_all_conv)
  obtain xs t where t: "t = ?t" and xs: "pre = xs @ t"
    using suffix_takeWhile_rev by blast
  then have "take (length pre - length t) pre @ t = pre" by simp
  then have pre: "take (length pre - length ?t) pre @ ?t = pre" using t by simp
  have len: "length (pre @ ''['' @ g) - length (?t @ ''['' @ g) = length pre - length ?t" by simp
  have bl: "butlast (pre @ ''['' @ g @ '']'') = pre @ ''['' @ g"
    by (metis append.assoc butlast_snoc)
  have la: "last (pre @ ''['' @ g @ '']'') = CHR '']''" by simp
  have tk: "take (length pre - length ?t) (pre @ ''['' @ g) = take (length pre - length ?t) pre"
    by simp
  show ?thesis
    using assms(1) unfolding bracket_suffix_def bl la Let_def
    by (simp only: rev_append rev.simps append.assoc append_Nil append_Cons) (use tw dw tw2 len tk pre in
      \<open>simp add: append.assoc\<close>)
qed

text \<open>The parent path of a path is shorter, or both are empty: the recursion of \<^verbatim>\<open>createPath\<close> ends.\<close>

lemma join_butlast_length:
  "length (strings_Join (butlast ts) [d]) \<le> length (strings_Join ts [d])
   \<and> (2 \<le> length ts \<longrightarrow> length (strings_Join (butlast ts) [d]) < length (strings_Join ts [d]))"
proof (induction ts)
  case (Cons t ts)
  then show ?case
    by (cases ts) (auto simp: strings_Join_Cons Suc_le_eq split: if_splits)
qed simp

lemma getParentPath_shorter: "p \<noteq> [] \<Longrightarrow> length (getParentPath p) < length p"
proof (cases "bracket_suffix p")
  case None
  assume "p \<noteq> []"
  let ?ts = "strings_Split p (CHR ''.'')"
  have par: "getParentPath p = strings_Join (butlast ?ts) ''.''"
    using None by (simp add: getParentPath_def)
  show ?thesis
  proof (cases "2 \<le> length ?ts")
    case True
    then have "length (strings_Join (butlast ?ts) [CHR ''.'']) < length (strings_Join ?ts [CHR ''.''])"
      using join_butlast_length by blast
    then show ?thesis using par by simp
  next
    case False
    then have "length ?ts = 1"
      by (metis One_nat_def Suc_1 Suc_leI le_neq_implies_less length_0_conv not_less_eq_eq
          split_on_nonempty neq0_conv)
    then have "butlast ?ts = []" by (metis One_nat_def Suc_length_conv butlast.simps length_0_conv)
    with par \<open>p \<noteq> []\<close> show ?thesis by simp
  qed
next
  case (Some x)
  then show ?thesis
    using bracket_suffix_decomp [of p "fst x" "snd x"] by (cases x) (auto simp: getParentPath_def)
qed

lemma getParentPath_dot:
  assumes "CHR ''.'' \<notin> set c" "CHR '']'' \<notin> set c"
  shows "getParentPath (p @ ''.'' @ c) = p"
proof -
  have "bracket_suffix (p @ ''.'' @ c) = None"
    using assms(2) by (cases c rule: rev_cases) (auto simp: bracket_suffix_def)
  moreover have "strings_Split (p @ ''.'' @ c) (CHR ''.'') = strings_Split p (CHR ''.'') @ [c]"
    using split_on_snoc [of "\<lambda>d. d = CHR ''.''" "CHR ''.''" c p] assms(1) by auto
  ultimately show ?thesis by (simp add: getParentPath_def)
qed

lemma getChildName_dot:
  assumes "CHR ''.'' \<notin> set c" "CHR '']'' \<notin> set c" "CHR ''$'' \<notin> set c" "c \<noteq> []"
  shows "getChildName (p @ ''.'' @ c) = c"
proof -
  have b: "bracket_suffix (p @ ''.'' @ c) = None"
    using assms(2) by (cases c rule: rev_cases) (auto simp: bracket_suffix_def)
  let ?sep = "\<lambda>d. d = CHR ''$'' \<or> d = CHR ''.''"
  have "split_on ?sep (p @ ''.'' @ c) = split_on ?sep p @ [c]"
    using split_on_snoc [of ?sep "CHR ''.''" c p] assms(1,3) by auto
  moreover have "p @ ''.'' @ c \<noteq> ''$''" "p @ ''.'' @ c \<noteq> ''.''"
    using assms(4) by (auto simp: append_eq_Cons_conv)
  ultimately show ?thesis using b by (simp add: getChildName_def)
qed

lemma ReplaceAll_absent:
  "c \<notin> set s \<Longrightarrow> strings_ReplaceAll s [c] new = s"
  by (induction s) auto

lemma bracket_child_parent:
  assumes "g \<noteq> []" "CHR '']'' \<notin> set g" "CHR ''['' \<notin> set pre \<or> (\<exists>q. pre = q @ '']'')"
  shows "getParentPath (pre @ ''['' @ g @ '']'') = pre"
  using bracket_suffix_intro [OF assms] by (simp add: getParentPath_def)

lemma bracket_child_name:
  assumes "g \<noteq> []" "CHR '']'' \<notin> set g" "CHR ''['' \<notin> set pre \<or> (\<exists>q. pre = q @ '']'')"
    and "CHR 0x27 \<notin> set g" "CHR 0x22 \<notin> set g"
  shows "getChildName (pre @ ''['' @ g @ '']'') = g"
  using bracket_suffix_intro [OF assms(1-3)] assms(4,5)
  by (auto simp: getChildName_def ReplaceAll_absent append_eq_Cons_conv)

end
