(* ===== verification/External.thy ===== *)
theory External
  imports Config YamlPath OpPath
begin

text \<open>
  The third-party functions the patch engine calls, gathered in one record that every definition
  using them takes as its first argument: the YAML and JSON encoders and decoders
  (\<^verbatim>\<open>gopkg.in/yaml.v3\<close>, \<^verbatim>\<open>encoding/json\<close>, \<^verbatim>\<open>ghodss/yaml\<close>, \<^verbatim>\<open>sigs.k8s.io/yaml\<close>) and the lexer and
  filter language of the path library. They return errors and do not panic. Below the record: node
  construction (\<^verbatim>\<open>NewNode\<close>, \<^verbatim>\<open>NewJSONNode\<close>) and path queries (\<^verbatim>\<open>FindMatches\<close>, \<^verbatim>\<open>getParents\<close>).
\<close>

section \<open>Label selectors of the Kubernetes API\<close>

record LabelSelectorRequirement =
  ReqKey :: string
  ReqOperator :: string
  ReqValues :: "string list"

text \<open>A map or slice field of a Go struct may be nil; the code distinguishes it for neither field.\<close>

record MetaLabelSelector =
  MatchLabels :: "(string \<times> string) list"
  MatchExpressions :: "LabelSelectorRequirement list"

text \<open>The JSON form by the struct's tags (all fields but key and operator are \<^verbatim>\<open>omitempty\<close>).\<close>

definition string_map_value :: "(string \<times> string) list \<Rightarrow> goval" where
  "string_map_value m = VMap (map (\<lambda>(k, v). (k, VStr v)) m)"

definition requirement_value :: "LabelSelectorRequirement \<Rightarrow> goval" where
  "requirement_value r = VMap
     ([(''key'', VStr (ReqKey r)), (''operator'', VStr (ReqOperator r))] @
      (if ReqValues r = [] then [] else [(''values'', VSeq (map VStr (ReqValues r)))]))"

definition selector_value :: "MetaLabelSelector option \<Rightarrow> goval" where
  "selector_value s = (case s of
     None \<Rightarrow> VNil
   | Some sel \<Rightarrow> VMap
       ((if MatchLabels sel = [] then [] else [(''matchLabels'', string_map_value (MatchLabels sel))]) @
        (if MatchExpressions sel = [] then []
         else [(''matchExpressions'', VSeq (map requirement_value (MatchExpressions sel)))])))"

section \<open>The external functions\<close>

record external =
  yaml_Marshal :: "goval \<Rightarrow> go_error + string"
  yaml_Marshal_node :: "ytree \<Rightarrow> go_error + string"
  yaml_Unmarshal_node :: "string \<Rightarrow> go_error + ytree"
  json_Marshal :: "goval \<Rightarrow> go_error + string"
  jsonyaml_Unmarshal_object :: "string \<Rightarrow> go_error + goval"
  UnmarshalStrict_string_map :: "string \<Rightarrow> go_error + (string \<times> string) list"
  k8syaml_Unmarshal_selector :: "string \<Rightarrow> go_error + MetaLabelSelector"
  compile_path :: "string \<Rightarrow> go_error + ypath"
  eval_filter :: filter_fun

fun lift_error :: "go_error + 'a \<Rightarrow> 'a result" where
  "lift_error (Inl e) = Inl (Err e)"
| "lift_error (Inr x) = Inr x"

lemma lift_error_simps [simp, result_simps]:
  "lift_error m = Inr x \<longleftrightarrow> m = Inr x"
  "lift_error m \<noteq> Inl (Panic p)"
  by (cases m; simp)+

section \<open>Nodes from values (patch.go)\<close>

text \<open>The texts of the two errors carry a rendering of the value, which is left out here.\<close>

definition node_from_text :: "external \<Rightarrow> string \<Rightarrow> heap \<Rightarrow> (addr \<times> heap) result" where
  "node_from_text E doc h = (case yaml_Unmarshal_node E doc of
     Inl e \<Rightarrow> fail (''failed unmarshaling doc: '' @ error_text e)
   | Inr t \<Rightarrow> Inr (alloc_tree t h))"

definition NewNodeFromString :: "external \<Rightarrow> string \<Rightarrow> heap \<Rightarrow> (addr \<times> heap) result" where
  "NewNodeFromString E text h = node_from_text E text h"

definition NewNode :: "external \<Rightarrow> goval \<Rightarrow> heap \<Rightarrow> (addr \<times> heap) result" where
  "NewNode E raw h = (case yaml_Marshal E raw of
     Inl e \<Rightarrow> fail (''failed marshaling struct: '' @ error_text e)
   | Inr doc \<Rightarrow> node_from_text E doc h)"

definition NewJSONNode :: "external \<Rightarrow> goval \<Rightarrow> heap \<Rightarrow> (addr \<times> heap) result" where
  "NewJSONNode E raw h = (case json_Marshal E raw of
     Inl e \<Rightarrow> fail (''failed marshaling struct: '' @ error_text e)
   | Inr doc \<Rightarrow> node_from_text E doc h)"

text \<open>\<^verbatim>\<open>yaml.Marshal\<close> of a node walks the graph below it.\<close>

definition marshal_node :: "external \<Rightarrow> heap \<Rightarrow> addr \<Rightarrow> string result" where
  "marshal_node E h a =
     bind_result (read_tree h a) (\<lambda>t. lift_error (yaml_Marshal_node E t))"

section \<open>Path queries (operation.go)\<close>

definition FindMatches :: "external \<Rightarrow> heap \<Rightarrow> addr \<Rightarrow> string \<Rightarrow> addr list result" where
  "FindMatches E h doc path =
     bind_result (wrap ''parsing path'' (lift_error (compile_path E path)))
       (\<lambda>yamlPath. path_Find (eval_filter E) yamlPath h doc)"

definition getParents :: "external \<Rightarrow> heap \<Rightarrow> addr \<Rightarrow> string \<Rightarrow> addr list result" where
  "getParents E h doc path =
     bind_result (lift_error (compile_path E (getParentPath path)))
       (\<lambda>parentPath. path_Find (eval_filter E) parentPath h doc)"

section \<open>Lemmas\<close>

lemma new_node_block [heap_inv]:
  "node_from_text E doc h = Inr (a, h') \<Longrightarrow> block h {a} h'"
  "NewNode E raw h = Inr (a, h') \<Longrightarrow> block h {a} h'"
  "NewJSONNode E raw h = Inr (a, h') \<Longrightarrow> block h {a} h'"
  by (auto simp: NewNode_def NewJSONNode_def node_from_text_def split: sum.splits
      intro: block_alloc_tree(1))

lemma FindMatches_reach: "FindMatches E h doc path = Inr ms \<Longrightarrow> m \<in> set ms \<Longrightarrow> reach h doc m"
  by (auto simp: FindMatches_def path_Find_def result_simps intro: path_find_reach)

lemma getParents_reach: "getParents E h doc path = Inr ms \<Longrightarrow> m \<in> set ms \<Longrightarrow> reach h doc m"
  by (auto simp: getParents_def path_Find_def result_simps intro: path_find_reach)

end
