(* ===== verification/Conditions.thy ===== *)
theory Conditions
  imports External
begin

text \<open>
  The conditions under which a patch is applied (\<^verbatim>\<open>pkg/patches/conditions.go\<close>): lookup of the nodes a
  condition is about, the text a node is compared by, and the conjunction of all conditions.
\<close>

section \<open>Definitions\<close>

definition getStringValue :: "external \<Rightarrow> goval \<Rightarrow> string" where
  "getStringValue E value = (case value of
     VStr s \<Rightarrow> s
   | _ \<Rightarrow> (case yaml_Marshal E value of Inl e \<Rightarrow> [] | Inr out \<Rightarrow> out))"

definition getStringValue_node :: "external \<Rightarrow> heap \<Rightarrow> addr \<Rightarrow> string result" where
  "getStringValue_node E h a = (case marshal_node E h a of
     Inl (Err e) \<Rightarrow> Inr []
   | Inl (Panic p) \<Rightarrow> panic p
   | Inr out \<Rightarrow> Inr out)"

definition match_string :: "external \<Rightarrow> heap \<Rightarrow> addr \<Rightarrow> string result" where
  "match_string E h m =
     (if kind_at h m \<noteq> ScalarNode then getStringValue_node E h m else Inr (value_at h m))"

text \<open>The body of the loop over the matches: does this text satisfy the condition?\<close>

definition text_satisfies :: "external \<Rightarrow> PatchCondition \<Rightarrow> string \<Rightarrow> bool" where
  "text_satisfies E condition stringValue =
     (case Empty condition of
        Some e \<Rightarrow> (e \<and> stringValue = []) \<or> (\<not> e \<and> stringValue \<noteq> [])
      | None \<Rightarrow>
          if Equal condition \<noteq> VNil then getStringValue E (Equal condition) = stringValue
          else if NotEqual condition \<noteq> VNil then getStringValue E (NotEqual condition) \<noteq> stringValue
          else False)"

fun any_match :: "external \<Rightarrow> heap \<Rightarrow> PatchCondition \<Rightarrow> addr list \<Rightarrow> bool result" where
  "any_match E h condition [] = Inr False"
| "any_match E h condition (m # ms) =
     bind_result (match_string E h m) (\<lambda>stringValue.
       if text_satisfies E condition stringValue then Inr True else any_match E h condition ms)"

definition holds_if_absent :: "PatchCondition \<Rightarrow> bool" where
  "holds_if_absent condition \<longleftrightarrow> Empty condition = Some True \<or> NotEqual condition \<noteq> VNil"

definition find_at :: "external \<Rightarrow> heap \<Rightarrow> string \<Rightarrow> string \<Rightarrow> addr \<Rightarrow> addr list result" where
  "find_at E h msg path node =
     bind_result (wrap msg (lift_error (compile_path E path)))
       (\<lambda>p. wrap ''find matches'' (path_Find (eval_filter E) p h node))"

definition condition_matches ::
  "external \<Rightarrow> heap \<Rightarrow> addr \<Rightarrow> addr option \<Rightarrow> PatchCondition \<Rightarrow> bool \<Rightarrow> addr list result" where
  "condition_matches E h obj match condition sub =
     (if sub then find_at E h ''parsing sub path'' (SubPath condition) (the match)
      else if CondPath condition \<noteq> [] then find_at E h ''parsing path'' (CondPath condition) obj
      else Inr [])"

definition ValidateCondition ::
  "external \<Rightarrow> heap \<Rightarrow> addr \<Rightarrow> addr option \<Rightarrow> PatchCondition option \<Rightarrow> bool result" where
  "ValidateCondition E h obj match cond = (case cond of
     None \<Rightarrow> Inr True
   | Some condition \<Rightarrow>
       if SubPath condition \<noteq> [] \<and> match = None then Inr (holds_if_absent condition)
       else
         bind_result (condition_matches E h obj match condition (SubPath condition \<noteq> [])) (\<lambda>matches.
           if matches = [] then Inr (holds_if_absent condition)
           else any_match E h condition matches))"

fun ValidateAllConditions ::
  "external \<Rightarrow> heap \<Rightarrow> addr \<Rightarrow> addr option \<Rightarrow> PatchCondition option list \<Rightarrow> bool result" where
  "ValidateAllConditions E h obj match [] = Inr True"
| "ValidateAllConditions E h obj match (condition # conditions) =
     bind_result (ValidateCondition E h obj match condition) (\<lambda>matched.
       if \<not> matched then Inr False else ValidateAllConditions E h obj match conditions)"

section \<open>Meaning\<close>

lemma any_match_iff:
  assumes "\<And>m. m \<in> set ms \<Longrightarrow> match_string E h m = Inr (txt m)"
  shows "any_match E h c ms = Inr (\<exists>m \<in> set ms. text_satisfies E c (txt m))"
  using assms by (induction ms) auto

lemma ValidateAllConditions_true:
  "ValidateAllConditions E h obj match cs = Inr True \<longleftrightarrow>
     (\<forall>c \<in> set cs. ValidateCondition E h obj match c = Inr True)"
  by (induction cs) (auto simp: result_simps)

lemma ValidateAllConditions_false:
  "ValidateAllConditions E h obj match cs = Inr False \<longleftrightarrow>
     (\<exists>pre c post. cs = pre @ c # post \<and> ValidateCondition E h obj match c = Inr False
        \<and> (\<forall>d \<in> set pre. ValidateCondition E h obj match d = Inr True))"
proof (induction cs)
  case (Cons c cs)
  show ?case
  proof (cases "ValidateCondition E h obj match c = Inr True")
    case True
    then have "ValidateAllConditions E h obj match (c # cs) = ValidateAllConditions E h obj match cs"
      by simp
    moreover have "(\<exists>pre d post. c # cs = pre @ d # post \<and> ValidateCondition E h obj match d = Inr False
        \<and> (\<forall>d \<in> set pre. ValidateCondition E h obj match d = Inr True)) \<longleftrightarrow>
      (\<exists>pre d post. cs = pre @ d # post \<and> ValidateCondition E h obj match d = Inr False
        \<and> (\<forall>d \<in> set pre. ValidateCondition E h obj match d = Inr True))" (is "?l \<longleftrightarrow> ?r")
    proof
      assume ?l
      then show ?r using True by (fastforce simp: Cons_eq_append_conv)
    next
      assume ?r
      then obtain pre d post where "cs = pre @ d # post" "ValidateCondition E h obj match d = Inr False"
        "\<forall>d \<in> set pre. ValidateCondition E h obj match d = Inr True" by blast
      with True show ?l by (intro exI [of _ "c # pre"]) auto
    qed
    ultimately show ?thesis using Cons.IH by simp
  next
    case nt: False
    show ?thesis
    proof (cases "ValidateCondition E h obj match c = Inr False")
      case True
      then have "ValidateAllConditions E h obj match (c # cs) = Inr False" by simp
      moreover have "\<exists>pre d post. c # cs = pre @ d # post
          \<and> ValidateCondition E h obj match d = Inr False
          \<and> (\<forall>d \<in> set pre. ValidateCondition E h obj match d = Inr True)"
        using True by (intro exI [of _ "[]"] exI [of _ c] exI [of _ cs]) simp
      ultimately show ?thesis by (intro iffI)
    next
      case False
      with nt obtain e where e: "ValidateCondition E h obj match c = Inl e"
        by (metis (full_types) sum.exhaust)
      then show ?thesis by (auto simp: Cons_eq_append_conv)
    qed
  qed
qed simp

end
