(* ===== verification/PatchOps.thy ===== *)
theory PatchOps
  imports Conditions
begin

text \<open>
  The patch operations (\<^verbatim>\<open>pkg/patches/patch_types.go\<close>) and their application to an object
  (\<^verbatim>\<open>pkg/patches/patch.go\<close>). An operation maps the store to a new store or a fault; the operations
  that translate names also thread the state of the name resolver. After a fault the caller drops
  both documents, so the store of a failed operation is not part of the result.
\<close>

section \<open>Name resolvers (the NameResolver interface)\<close>

record 'r NameResolver =
  TranslateName ::
    "string \<Rightarrow> go_regexp option \<Rightarrow> string \<Rightarrow> 'r \<Rightarrow> (string \<times> 'r) result"
  TranslateLabelKey :: "string \<Rightarrow> 'r \<Rightarrow> (string \<times> 'r) result"
  TranslateLabelExpressionsSelector ::
    "MetaLabelSelector option \<Rightarrow> 'r \<Rightarrow> (MetaLabelSelector option \<times> 'r) result"
  TranslateLabelSelector ::
    "(string \<times> string) list option \<Rightarrow> 'r \<Rightarrow> ((string \<times> string) list option \<times> 'r) result"
  TranslateNameWithNamespace ::
    "string \<Rightarrow> string \<Rightarrow> go_regexp option \<Rightarrow> string \<Rightarrow> 'r \<Rightarrow> (string \<times> 'r) result"
  TranslateNamespaceRef :: "string \<Rightarrow> 'r \<Rightarrow> (string \<times> 'r) result"

section \<open>Adding nodes\<close>

definition append_content :: "addr \<Rightarrow> addr list \<Rightarrow> heap \<Rightarrow> heap" where
  "append_content a cs h = set_content h a (content h a @ cs)"

definition first_child :: "heap \<Rightarrow> addr \<Rightarrow> addr result" where
  "first_child h a = (case content h a of [] \<Rightarrow> panic IndexOutOfRange | c # _ \<Rightarrow> Inr c)"

text \<open>\<^verbatim>\<open>parent.Content = AddChildAtIndex(parent, match, value)\<close>, where \<^verbatim>\<open>parent\<close> may be nil.\<close>

definition insert_at_child :: "addr option \<Rightarrow> addr \<Rightarrow> addr \<Rightarrow> heap \<Rightarrow> heap result" where
  "insert_at_child parent match value h = (case parent of
     None \<Rightarrow> panic NilDereference
   | Some p \<Rightarrow> bind_result (AddChildAtIndex h p match value) (\<lambda>cs. Inr (set_content h p cs)))"

definition AddNode :: "addr \<Rightarrow> addr \<Rightarrow> addr \<Rightarrow> heap \<Rightarrow> heap result" where
  "AddNode obj1 match value h =
     bind_result (Find h obj1 (ContainsChild h match)) (\<lambda>parent.
     case kind_at h match of
       ScalarNode \<Rightarrow> insert_at_child parent match value h
     | MappingNode \<Rightarrow>
         bind_result (first_child h value) (\<lambda>v. Inr (append_content match (content h v) h))
     | SequenceNode \<Rightarrow> Inr (append_content match (content h value) h)
     | DocumentNode \<Rightarrow>
         bind_result (first_child h match) (\<lambda>m.
         bind_result (first_child h value) (\<lambda>v. Inr (append_content m (content h v) h)))
     | _ \<Rightarrow> Inr h)"

definition isSequenceChild :: "string \<Rightarrow> bool" where
  "isSequenceChild path \<longleftrightarrow> getChildName path \<noteq> [] \<and> strconv_Atoi (getChildName path) \<noteq> None"

definition key_node :: "string \<Rightarrow> ynode" where
  "key_node name = \<lparr>nkind = ScalarNode, ntag = ''!!str'', nvalue = name, ncontent = []\<rparr>"

definition createSequenceNode :: "string \<Rightarrow> addr option \<Rightarrow> heap \<Rightarrow> addr \<times> heap" where
  "createSequenceNode path child h =
     alloc \<lparr>nkind = SequenceNode, ntag = ''!!seq'', nvalue = [],
            ncontent = (case child of None \<Rightarrow> [] | Some c \<Rightarrow> [c])\<rparr> h"

definition createMappingNode :: "string \<Rightarrow> addr option \<Rightarrow> heap \<Rightarrow> addr \<times> heap" where
  "createMappingNode path child h = (case child of
     None \<Rightarrow> alloc \<lparr>nkind = MappingNode, ntag = ''!!map'', nvalue = [], ncontent = []\<rparr> h
   | Some c \<Rightarrow>
       let (k, h') = alloc (key_node (getChildName path)) h in
       alloc \<lparr>nkind = MappingNode, ntag = ''!!map'', nvalue = [], ncontent = [k, c]\<rparr> h')"

text \<open>One iteration of the loop of \<^verbatim>\<open>createPath\<close> over the parents it found.\<close>

definition attach_child :: "addr \<Rightarrow> string \<Rightarrow> addr \<Rightarrow> addr \<Rightarrow> heap \<Rightarrow> heap result" where
  "attach_child obj1 path value match h =
     bind_result (Find h obj1 (ContainsChild h match)) (\<lambda>parent.
     case kind_at h match of
       ScalarNode \<Rightarrow> insert_at_child parent match value h
     | MappingNode \<Rightarrow>
         (let (k, h') = alloc (key_node (getChildName path)) h
          in Inr (append_content match [k, value] h'))
     | SequenceNode \<Rightarrow> Inr (append_content match [value] h)
     | DocumentNode \<Rightarrow>
         bind_result (first_child h match) (\<lambda>m.
           let (k, h') = alloc (key_node (getChildName path)) h
           in Inr (append_content m [k, value] h'))
     | _ \<Rightarrow> Inr h)"

definition unpack_document :: "heap \<Rightarrow> addr \<Rightarrow> addr result" where
  "unpack_document h value =
     (if kind_at h value = DocumentNode then first_child h value else Inr value)"

text \<open>
  \<^verbatim>\<open>createPath\<close>: attach the value below every node the parent path finds; if there is none, wrap the
  value into a node for the last path element and create the parent. The recursion is on a shorter
  path each time.
\<close>

function createPath :: "external \<Rightarrow> addr \<Rightarrow> string \<Rightarrow> addr \<Rightarrow> heap \<Rightarrow> heap result" where
  "createPath E obj1 path value h =
     bind_result (unpack_document h value) (\<lambda>v.
       case getParents E h obj1 path of
         Inl (Panic p) \<Rightarrow> panic p
       | Inl (Err e) \<Rightarrow> fail (''could not replace using path: '' @ path)
       | Inr [] \<Rightarrow>
           if path = getParentPath path \<or> getParentPath path = [] \<or> path = [] then Inr h
           else
             let (v', h') = (if isSequenceChild path then createSequenceNode path (Some v) h
                             else createMappingNode path (Some v) h)
             in createPath E obj1 (getParentPath path) v' h'
       | Inr (m # ms) \<Rightarrow> fold_result (attach_child obj1 path v) (m # ms) h)"
  by pat_completeness auto
termination
  by (relation "measure (\<lambda>(E, obj1, path, value, h). length path)")
    (auto intro: getParentPath_shorter)

declare createPath.simps [simp del]

section \<open>The operations\<close>

text \<open>The guard in front of the body of each loop over matches.\<close>

definition if_validated ::
  "external \<Rightarrow> addr \<Rightarrow> addr option \<Rightarrow> Patch \<Rightarrow> (heap \<Rightarrow> heap result) \<Rightarrow> heap \<Rightarrow> heap result" where
  "if_validated E obj1 match patch body h =
     bind_result (wrap ''validate conditions'' (ValidateAllConditions E h obj1 match (Conditions patch)))
       (\<lambda>validated. if \<not> validated then Inr h else body h)"

definition Copy_replace :: "addr \<Rightarrow> addr \<Rightarrow> addr \<Rightarrow> heap \<Rightarrow> heap result" where
  "Copy_replace obj1 m from h =
     (let (d, h') = alloc \<lparr>nkind = DocumentNode, ntag = [], nvalue = [], ncontent = [from]\<rparr> h
      in ReplaceNode obj1 m d h')"

text \<open>The list \<^verbatim>\<open>removeChild\<close> returns is discarded here, as in the source.\<close>

definition Copy_missing :: "addr \<Rightarrow> addr \<Rightarrow> heap \<Rightarrow> heap result" where
  "Copy_missing obj1 m h =
     bind_result (Find h obj1 (ContainsChild h m)) (\<lambda>parent. case parent of
         None \<Rightarrow> panic NilDereference
       | Some p \<Rightarrow> (let _ = removeChild h p m in Inr h))"

definition CopyFromObject :: "external \<Rightarrow> addr \<Rightarrow> addr option \<Rightarrow> Patch \<Rightarrow> heap \<Rightarrow> heap result" where
  "CopyFromObject E obj1 obj2 patch h = (case obj2 of
     None \<Rightarrow> Inr h
   | Some o2 \<Rightarrow>
       bind_result (wrap ''find matches'' (FindMatches E h obj1 (Path patch))) (\<lambda>matches.
       let fromPath = (if FromPath patch = [] then Path patch else FromPath patch) in
       bind_result (wrap ''find from matches'' (FindMatches E h o2 fromPath)) (\<lambda>fromMatches.
       if 1 < length fromMatches then fail (''more than 1 match found for path '' @ fromPath)
       else if length fromMatches = 1 \<and> matches = [] then
         if_validated E obj1 None patch (createPath E obj1 (Path patch) (hd fromMatches)) h
       else
         fold_result (\<lambda>m. if_validated E obj1 (Some m) patch
           (if length fromMatches = 1 then Copy_replace obj1 m (hd fromMatches)
            else Copy_missing obj1 m)) matches h)))"

definition Remove_match :: "addr \<Rightarrow> addr \<Rightarrow> heap \<Rightarrow> heap result" where
  "Remove_match obj1 m h =
     bind_result (Find h obj1 (ContainsChild h m)) (\<lambda>parent. case parent of
         None \<Rightarrow> panic NilDereference
       | Some p \<Rightarrow>
           (case kind_at h p of
              MappingNode \<Rightarrow> bind_result (removeProperty h p m) (\<lambda>cs. Inr (set_content h p cs))
            | SequenceNode \<Rightarrow> Inr (set_content h p (removeChild h p m))
            | _ \<Rightarrow> Inr h))"

definition Remove :: "external \<Rightarrow> addr \<Rightarrow> Patch \<Rightarrow> heap \<Rightarrow> heap result" where
  "Remove E obj1 patch h =
     bind_result (wrap ''find matches'' (FindMatches E h obj1 (Path patch))) (\<lambda>matches.
       fold_result (\<lambda>m. if_validated E obj1 (Some m) patch (Remove_match obj1 m)) matches h)"

definition Add :: "external \<Rightarrow> addr \<Rightarrow> Patch \<Rightarrow> heap \<Rightarrow> heap result" where
  "Add E obj1 patch h =
     bind_result (wrap ''find matches'' (FindMatches E h obj1 (Path patch))) (\<lambda>matches.
     bind_result (wrap ''new node from value'' (NewNode E (Value patch) h)) (\<lambda>(value, h').
       if matches = []
       then if_validated E obj1 None patch (createPath E obj1 (Path patch) value) h'
       else fold_result (\<lambda>m. if_validated E obj1 (Some m) patch (AddNode obj1 m value)) matches h'))"

definition Replace :: "external \<Rightarrow> addr \<Rightarrow> Patch \<Rightarrow> heap \<Rightarrow> heap result" where
  "Replace E obj1 patch h =
     bind_result (wrap ''find matches'' (FindMatches E h obj1 (Path patch))) (\<lambda>matches.
     bind_result (wrap ''new node from value'' (NewNode E (Value patch) h)) (\<lambda>(value, h').
       fold_result (\<lambda>m. if_validated E obj1 (Some m) patch (ReplaceNode obj1 m value)) matches h'))"

section \<open>The operations that translate names\<close>

text \<open>\<^verbatim>\<open>NewNode\<close> of the translated value, then \<^verbatim>\<open>ReplaceNode\<close>: the tail of every rewrite.\<close>

definition replace_with_value ::
  "external \<Rightarrow> addr \<Rightarrow> addr \<Rightarrow> goval \<Rightarrow> 'r \<Rightarrow> heap \<Rightarrow> (heap \<times> 'r) result" where
  "replace_with_value E obj match v r h =
     bind_result (wrap ''create node'' (NewNode E v h)) (\<lambda>(newNode, h').
     bind_result (ReplaceNode obj match newNode h') (\<lambda>h''. Inr (h'', r)))"

definition ValidateAndTranslateName ::
  "external \<Rightarrow> addr \<Rightarrow> addr \<Rightarrow> Patch \<Rightarrow> 'r NameResolver \<Rightarrow> string \<Rightarrow> heap \<times> 'r \<Rightarrow> (heap \<times> 'r) result" where
  "ValidateAndTranslateName E obj match patch resolver namespace s = (case s of (h, r) \<Rightarrow>
     bind_result (wrap ''validate conditions''
       (ValidateAllConditions E h obj (Some match) (Conditions patch))) (\<lambda>validated.
     if \<not> validated then Inr (h, r)
     else
       bind_result
         (if namespace \<noteq> []
          then TranslateNameWithNamespace resolver (value_at h match) namespace
                 (ParsedRegex patch) (FromPath patch) r
          else TranslateName resolver (value_at h match) (ParsedRegex patch) (FromPath patch) r)
         (\<lambda>(translatedName, r'). replace_with_value E obj match (VStr translatedName) r' h)))"

definition ValidateAndTranslateNamespace ::
  "external \<Rightarrow> addr \<Rightarrow> addr \<Rightarrow> Patch \<Rightarrow> 'r NameResolver \<Rightarrow> heap \<times> 'r \<Rightarrow> (heap \<times> 'r) result" where
  "ValidateAndTranslateNamespace E obj match patch resolver s = (case s of (h, r) \<Rightarrow>
     bind_result (wrap ''validate conditions''
       (ValidateAllConditions E h obj (Some match) (Conditions patch))) (\<lambda>validated.
     if \<not> validated then Inr (h, r)
     else
       bind_result (TranslateNamespaceRef resolver (value_at h match) r)
         (\<lambda>(translatedNamespace, r').
            replace_with_value E obj match (VStr translatedNamespace) r' h)))"

definition patch_GetNamespace :: "external \<Rightarrow> addr \<Rightarrow> Patch \<Rightarrow> heap \<Rightarrow> string result" where
  "patch_GetNamespace E obj patch h =
     bind_result (wrap ''find matches namespace'' (FindMatches E h obj (NamespacePath patch)))
       (\<lambda>matches.
          if 1 < length matches then fail ''found multiple namespace references''
          else Inr (fold (\<lambda>m _. value_at h m) matches []))"

text \<open>A loop over matches that skips the nodes that are no scalars.\<close>

definition for_scalars ::
  "(addr \<Rightarrow> heap \<times> 'r \<Rightarrow> (heap \<times> 'r) result) \<Rightarrow> addr list \<Rightarrow> heap \<times> 'r \<Rightarrow> (heap \<times> 'r) result" where
  "for_scalars body =
     fold_result (\<lambda>m s. if kind_at (fst s) m \<noteq> ScalarNode then Inr s else body m s)"

definition ProcessRewrite ::
  "external \<Rightarrow> addr \<Rightarrow> Patch \<Rightarrow> 'r NameResolver \<Rightarrow> heap \<times> 'r \<Rightarrow> (heap \<times> 'r) result" where
  "ProcessRewrite E obj patch resolver s =
     bind_result (if NamespacePath patch \<noteq> [] then patch_GetNamespace E obj patch (fst s) else Inr [])
       (\<lambda>namespace.
     bind_result (wrap ''find name matches'' (FindMatches E (fst s) obj (NamePath patch)))
       (\<lambda>nameMatches.
     bind_result
       (for_scalars (\<lambda>m. ValidateAndTranslateName E obj m patch resolver namespace) nameMatches s)
       (\<lambda>s'.
     if namespace = [] then Inr s'
     else
       bind_result (wrap ''find namespace matches''
         (FindMatches E (fst s') obj (NamespacePath patch))) (\<lambda>namespaceMatches.
       for_scalars (\<lambda>m. ValidateAndTranslateNamespace E obj m patch resolver) namespaceMatches s'))))"

definition RewriteName_match ::
  "external \<Rightarrow> addr \<Rightarrow> Patch \<Rightarrow> 'r NameResolver \<Rightarrow> addr \<Rightarrow> heap \<times> 'r \<Rightarrow> (heap \<times> 'r) result" where
  "RewriteName_match E obj1 patch resolver m s = (case kind_at (fst s) m of
     ScalarNode \<Rightarrow> ValidateAndTranslateName E obj1 m patch resolver [] s
   | SequenceNode \<Rightarrow>
       fold_result (\<lambda>subNode. ProcessRewrite E subNode patch resolver) (content (fst s) m) s
   | MappingNode \<Rightarrow> ProcessRewrite E m patch resolver s
   | _ \<Rightarrow> Inr s)"

definition RewriteName ::
  "external \<Rightarrow> addr \<Rightarrow> Patch \<Rightarrow> 'r NameResolver \<Rightarrow> heap \<times> 'r \<Rightarrow> (heap \<times> 'r) result" where
  "RewriteName E obj1 patch resolver s =
     bind_result (wrap ''find matches'' (FindMatches E (fst s) obj1 (Path patch)))
       (\<lambda>matches. fold_result (RewriteName_match E obj1 patch resolver) matches s)"

text \<open>The guard of the label rewrites: kind, then conditions; a match that fails either is skipped.\<close>

definition rewrite_match ::
  "external \<Rightarrow> addr \<Rightarrow> Patch \<Rightarrow> node_kind \<Rightarrow> (addr \<Rightarrow> heap \<times> 'r \<Rightarrow> (heap \<times> 'r) result)
     \<Rightarrow> addr \<Rightarrow> heap \<times> 'r \<Rightarrow> (heap \<times> 'r) result" where
  "rewrite_match E obj1 patch k body m s =
     (if kind_at (fst s) m \<noteq> k then Inr s
      else bind_result (wrap ''validate conditions''
             (ValidateAllConditions E (fst s) obj1 (Some m) (Conditions patch)))
             (\<lambda>validated. if \<not> validated then Inr s else body m s))"

definition RewriteLabelKey ::
  "external \<Rightarrow> addr \<Rightarrow> Patch \<Rightarrow> 'r NameResolver \<Rightarrow> heap \<times> 'r \<Rightarrow> (heap \<times> 'r) result" where
  "RewriteLabelKey E obj1 patch resolver s =
     bind_result (wrap ''find matches'' (FindMatches E (fst s) obj1 (Path patch))) (\<lambda>matches.
       fold_result (rewrite_match E obj1 patch ScalarNode (\<lambda>m (h, r).
         if value_at h m = [] then Inr (h, r)
         else
           bind_result (TranslateLabelKey resolver (value_at h m) r) (\<lambda>(labelKey, r').
             replace_with_value E obj1 m (VStr labelKey) r' h))) matches s)"

definition RewriteLabelSelector ::
  "external \<Rightarrow> addr \<Rightarrow> Patch \<Rightarrow> 'r NameResolver \<Rightarrow> heap \<times> 'r \<Rightarrow> (heap \<times> 'r) result" where
  "RewriteLabelSelector E obj1 patch resolver s =
     bind_result (wrap ''find matches'' (FindMatches E (fst s) obj1 (Path patch))) (\<lambda>matches.
       fold_result (rewrite_match E obj1 patch MappingNode (\<lambda>m (h, r).
         bind_result (wrap ''marshal label selector'' (marshal_node E h m)) (\<lambda>yamlString.
         bind_result (wrap ''unmarshal label selector''
           (lift_error (UnmarshalStrict_string_map E yamlString))) (\<lambda>labelSelector.
         bind_result (TranslateLabelSelector resolver (Some labelSelector) r) (\<lambda>(labelSelector', r').
           replace_with_value E obj1 m
             (string_map_value (case labelSelector' of None \<Rightarrow> [] | Some l \<Rightarrow> l)) r' h))))) matches s)"

definition RewriteLabelExpressionsSelector ::
  "external \<Rightarrow> addr \<Rightarrow> Patch \<Rightarrow> 'r NameResolver \<Rightarrow> heap \<times> 'r \<Rightarrow> (heap \<times> 'r) result" where
  "RewriteLabelExpressionsSelector E obj1 patch resolver s =
     bind_result (wrap ''find matches'' (FindMatches E (fst s) obj1 (Path patch))) (\<lambda>matches.
       fold_result (rewrite_match E obj1 patch MappingNode (\<lambda>m (h, r).
         bind_result (wrap ''marshal label selector'' (marshal_node E h m)) (\<lambda>yamlString.
         bind_result (wrap ''unmarshal label selector''
           (lift_error (k8syaml_Unmarshal_selector E yamlString))) (\<lambda>labelSelector.
         bind_result (TranslateLabelExpressionsSelector resolver (Some labelSelector) r)
           (\<lambda>(labelSelector', r').
         bind_result (wrap ''create node'' (NewJSONNode E (selector_value labelSelector') h))
           (\<lambda>(newNode, h').
         bind_result (ReplaceNode obj1 m newNode h') (\<lambda>h''. Inr (h'', r')))))))) matches s)"

section \<open>Applying patches to an object (patch.go)\<close>

definition on_heap :: "(heap \<Rightarrow> heap result) \<Rightarrow> heap \<times> 'r \<Rightarrow> (heap \<times> 'r) result" where
  "on_heap f s = bind_result (f (fst s)) (\<lambda>h. Inr (h, snd s))"

definition applyPatch ::
  "external \<Rightarrow> addr \<Rightarrow> addr option \<Rightarrow> 'r NameResolver \<Rightarrow> Patch option \<Rightarrow> heap \<times> 'r \<Rightarrow> (heap \<times> 'r) result" where
  "applyPatch E obj1 obj2 resolver patch s = (case patch of
     None \<Rightarrow> panic NilDereference
   | Some p \<Rightarrow>
       if Operation p = PatchTypeRewriteName then RewriteName E obj1 p resolver s
       else if Operation p = PatchTypeRewriteLabelKey then RewriteLabelKey E obj1 p resolver s
       else if Operation p = PatchTypeRewriteLabelExpressionsSelector
       then RewriteLabelExpressionsSelector E obj1 p resolver s
       else if Operation p = PatchTypeRewriteLabelSelector
       then RewriteLabelSelector E obj1 p resolver s
       else if Operation p = PatchTypeReplace then on_heap (Replace E obj1 p) s
       else if Operation p = PatchTypeRemove then on_heap (Remove E obj1 p) s
       else if Operation p = PatchTypeAdd then on_heap (Add E obj1 p) s
       else if Operation p = PatchTypeCopyFromObject then on_heap (CopyFromObject E obj1 obj2 p) s
       else fail (''patch operation is missing or is not recognized ('' @ Operation p @ '')''))"

definition emptyPatch :: Patch where
  "emptyPatch = \<lparr>Operation = [], FromPath = [], Path = [], NamePath = [], NamespacePath = [],
     Value = VNil, Regex = [], ParsedRegex = None, Conditions = [], Ignore = None, Sync = None\<rparr>"

definition ignorePatch ::
  "external \<Rightarrow> addr \<Rightarrow> addr option \<Rightarrow> 'r NameResolver \<Rightarrow> Patch option \<Rightarrow> heap \<times> 'r \<Rightarrow> (heap \<times> 'r) result" where
  "ignorePatch E node1 node2 resolver patch s = (case patch of
     None \<Rightarrow> panic NilDereference
   | Some p \<Rightarrow>
       if Path p = [] \<or> Ignore p = Some False then Inr s
       else wrap ''apply patch'' (applyPatch E node1 node2 resolver
              (Some (emptyPatch\<lparr>Operation := PatchTypeRemove, Path := Path p\<rparr>)) s))"

definition patch_nodes ::
  "external \<Rightarrow> addr \<Rightarrow> addr option \<Rightarrow> Patch option list \<Rightarrow> Patch option list \<Rightarrow> 'r NameResolver
     \<Rightarrow> heap \<times> 'r \<Rightarrow> (heap \<times> 'r) result" where
  "patch_nodes E node1 node2 patchesConf reversePatchesConf resolver s =
     bind_result
       (fold_result (\<lambda>p s. wrap ''apply patch'' (applyPatch E node1 node2 resolver p s)) patchesConf s)
       (fold_result (ignorePatch E node1 node2 resolver) reversePatchesConf)"

text \<open>
  \<^verbatim>\<open>ApplyPatches\<close>: both objects become node documents, the patches and then the removal of the ignored
  reverse paths run on the first, and the result is decoded back into an object. The caller's object
  is written only by the last step, so a fault leaves it as it was.
\<close>

definition ApplyPatches ::
  "external \<Rightarrow> goval \<Rightarrow> goval option \<Rightarrow> Patch option list \<Rightarrow> Patch option list \<Rightarrow> 'r NameResolver
     \<Rightarrow> 'r \<Rightarrow> (goval \<times> 'r) result" where
  "ApplyPatches E obj1 obj2 patchesConf reversePatchesConf nameResolver r =
     bind_result (wrap ''new json yaml node'' (NewJSONNode E obj1 [])) (\<lambda>(node1, h1).
     bind_result (case obj2 of
         None \<Rightarrow> Inr (None, h1)
       | Some o2 \<Rightarrow> bind_result (wrap ''new json yaml node'' (NewJSONNode E o2 h1))
           (\<lambda>(node2, h2). Inr (Some node2, h2))) (\<lambda>(node2, h2).
     bind_result (patch_nodes E node1 node2 patchesConf reversePatchesConf nameResolver (h2, r))
       (\<lambda>(h3, r').
     bind_result (wrap ''marshal yaml'' (marshal_node E h3 node1)) (\<lambda>objYaml.
     bind_result (wrap ''convert object'' (lift_error (jsonyaml_Unmarshal_object E objYaml)))
       (\<lambda>obj1'. Inr (obj1', r'))))))"

end
