(* ===== verification/PatchInvariants.thy ===== *)
theory PatchInvariants
  imports PatchOps
begin

text \<open>
  Every patch operation keeps the node store well-formed and returns: no search, no path query and
  no encoder walk runs for ever. The rules are stated with \<open>yields\<close>; the operations that call a name
  resolver are treated inside the locale \<open>safe_resolver\<close>, the contract of the NameResolver
  interface, which each resolver of the program is shown to meet where it is defined.
\<close>

section \<open>Searches, path queries and conditions\<close>

lemma yields_Find:
  "wf_heap h \<Longrightarrow> yields (\<lambda>r. \<forall>p. r = Some p \<longrightarrow> P p \<and> reach h d p) (Find h d P)"
  using Find_total [of h d P] by (auto simp: yields_def dest: Find_sound)

lemma RecurseNodes_fault_chain:
  "RecurseNodes_fuel n h a = Inl e \<Longrightarrow> e = Panic Diverge \<and> (\<exists>xs. length xs = n \<and> chain h a xs)"
proof (induction n arbitrary: a e)
  case (Suc n)
  have aux: "concat_result (RecurseNodes_fuel n h) cs = Inl e \<Longrightarrow>
      \<exists>c \<in> set cs. RecurseNodes_fuel n h c = Inl e" for cs
    by (induction cs) (auto simp: result_simps)
  from Suc.prems have "concat_result (RecurseNodes_fuel n h) (content h a) = Inl e"
    by (auto simp: result_simps)
  with aux obtain c where c: "c \<in> set (content h a)" "RecurseNodes_fuel n h c = Inl e" by blast
  from Suc.IH [OF c(2)] obtain xs where "e = Panic Diverge" "length xs = n" "chain h c xs" by blast
  with c(1) show ?case by (intro conjI exI [of _ "c # xs"]) auto
qed simp

lemma yields_RecurseNodes:
  assumes "wf_heap h"
  shows "yields (\<lambda>ds. True) (RecurseNodes h a)"
proof -
  have "RecurseNodes h a \<noteq> Inl e" for e
    using RecurseNodes_fault_chain [of "Suc (length h)" h a e] chain_bounded [OF assms]
    by (fastforce simp: RecurseNodes_def)
  then show ?thesis by (simp add: yields_def)
qed

lemma yields_find_key: "yields (\<lambda>_. True) (find_key h name cs)"
  by (induction h name cs rule: find_key.induct) (auto simp: yields_def)

lemma yields_find_keys: "yields (\<lambda>_. True) (find_keys h name cs)"
  by (induction h name cs rule: find_keys.induct) (auto simp: yields_def result_simps)

lemma yields_concat_True:
  "(\<And>x. x \<in> set xs \<Longrightarrow> yields (\<lambda>_. True) (f x)) \<Longrightarrow> yields (\<lambda>_. True) (concat_result f xs)"
  by (rule yields_concat [where Q = "\<lambda>_. True", simplified]) auto

lemma yields_path_find: "wf_heap h \<Longrightarrow> yields (\<lambda>_. True) (path_find F h root p a)"
proof (induction p arbitrary: a)
  case (PRoot p)
  then show ?case by (auto split: list.splits intro: yields_intro)
next
  case (PRecurse p)
  then show ?case
    by (auto intro!: yields_bind [OF yields_RecurseNodes] yields_concat_True)
next
  case (PChild name p)
  then show ?case
    by (auto intro!: yields_bind [OF yields_find_key] yields_Inr split: option.splits)
next
  case (PAllChildren p)
  then show ?case
    by (auto intro!: yields_concat_True yields_Inr split: node_kind.splits)
next
  case (PBracketChild names p)
  then show ?case
    by (auto intro!: yields_bind [OF yields_concat_True [OF yields_find_keys]] yields_concat_True
        yields_Inr)
next
  case (PSubscript subscript p)
  have "yields (\<lambda>_. True) (subscript_nodes subscript cs)" for cs
    by (auto simp: subscript_nodes_def yields_def split: sum.splits)
  with PSubscript show ?case
    by (auto intro!: yields_bind yields_concat_True yields_Inr)
qed (auto intro!: yields_concat_True yields_Inr split: list.splits)

lemma yields_lift_error [yields_intro]: "yields (\<lambda>_. True) (lift_error m)"
  by (cases m) (auto intro: yields_intro)

lemma yields_FindMatches:
  assumes "wf_heap h"
  shows "yields (\<lambda>ms. \<forall>m \<in> set ms. reach h d m) (FindMatches E h d path)"
proof -
  have "yields (\<lambda>_. True) (FindMatches E h d path)"
    unfolding FindMatches_def path_Find_def
    by (intro yields_bind [where Q = "\<lambda>_. True"] yields_wrap yields_lift_error
        yields_path_find assms)
  then show ?thesis by (rule yields_mono) (auto dest: FindMatches_reach)
qed

lemma yields_getParents:
  assumes "wf_heap h"
  shows "yields (\<lambda>ms. \<forall>m \<in> set ms. reach h d m) (getParents E h d path)"
proof -
  have "yields (\<lambda>_. True) (getParents E h d path)"
    unfolding getParents_def path_Find_def
    by (intro yields_bind [where Q = "\<lambda>_. True"] yields_lift_error yields_path_find assms)
  then show ?thesis by (rule yields_mono) (auto dest: getParents_reach)
qed

lemma yields_marshal_node: "wf_heap h \<Longrightarrow> yields (\<lambda>_. True) (marshal_node E h a)"
  unfolding marshal_node_def using read_tree_total [of h a]
  by (auto intro: yields_intro simp: yields_def [of _ "read_tree h a"])

lemma yields_any_match: "wf_heap h \<Longrightarrow> yields (\<lambda>_. True) (any_match E h c ms)"
proof (induction ms)
  case (Cons m ms)
  have "yields (\<lambda>_. True) (match_string E h m)"
    using yields_marshal_node [OF Cons.prems, of E m]
    by (auto simp: match_string_def getStringValue_node_def yields_def split: sum.splits fault.splits)
  with Cons show ?case by (auto intro!: yields_bind yields_Inr)
qed (simp add: yields_Inr)

lemma yields_ValidateCondition: "wf_heap h \<Longrightarrow> yields (\<lambda>_. True) (ValidateCondition E h obj m c)"
  unfolding ValidateCondition_def condition_matches_def find_at_def path_Find_def
  by (auto split: option.splits intro!: yields_bind [where Q = "\<lambda>_. True"] yields_wrap
      yields_lift_error yields_path_find yields_any_match yields_Inr)

lemma yields_ValidateAllConditions:
  "wf_heap h \<Longrightarrow> yields (\<lambda>_. True) (ValidateAllConditions E h obj m cs)"
  by (induction cs) (auto intro!: yields_bind [OF yields_ValidateCondition] yields_Inr)

section \<open>Rewriting children\<close>

lemma yields_slice: "yields (\<lambda>ys. set ys \<subseteq> set xs) (slice xs lo hi)"
  by (auto simp: slice_def yields_def dest!: in_set_takeD in_set_dropD)

lemma yields_splice:
  "yields (\<lambda>cs. set cs \<subseteq> set (content h p)) (removeProperty h p m)"
  "yields (\<lambda>cs. set cs \<subseteq> set (content h p) \<union> set (content h v)) (AddChildAtIndex h p m v)"
  "yields (\<lambda>cs. set cs \<subseteq> set (content h p) \<union> set (content h v)) (replaceChildAtIndex h p m v)"
  unfolding removeProperty_def AddChildAtIndex_def replaceChildAtIndex_def Let_def
  by (auto intro!: yields_bind [OF yields_slice] yields_Inr)

section \<open>Documents\<close>

text \<open>
  Document nodes are roots only: no node has one among its children. Decoded trees have this shape,
  and every operation keeps it.
\<close>

fun nodoc :: "ytree \<Rightarrow> bool" where
  "nodoc (YNode k tag v ts) \<longleftrightarrow> k \<noteq> DocumentNode \<and> list_all nodoc ts"

definition doc_tree :: "ytree \<Rightarrow> bool" where
  "doc_tree t \<longleftrightarrow> (\<exists>tag v t'. t = YNode DocumentNode tag v [t'] \<and> nodoc t')"

definition inner :: "heap \<Rightarrow> bool" where
  "inner h \<longleftrightarrow> (\<forall>a < length h. \<forall>c \<in> set (content h a). kind_at h c \<noteq> DocumentNode)"

definition sound :: "heap \<Rightarrow> bool" where
  "sound h \<longleftrightarrow> wf_heap h \<and> inner h"

text \<open>
  What the engine relies on in the libraries: decoding a text into a node yields a document with
  one root, and the empty path compiles to the identity and every other one starts at the root (the
  lexer of the path library emits a root lexeme first).
\<close>

definition decodes_documents :: "external \<Rightarrow> bool" where
  "decodes_documents E \<longleftrightarrow> (\<forall>s t. yaml_Unmarshal_node E s = Inr t \<longrightarrow> doc_tree t)"

definition compiles_rooted :: "external \<Rightarrow> bool" where
  "compiles_rooted E \<longleftrightarrow>
     (\<forall>s p. compile_path E s = Inr p \<longrightarrow> (if s = [] then p = PIdentity else \<exists>q. p = PRoot q))"

definition lawful :: "external \<Rightarrow> bool" where
  "lawful E \<longleftrightarrow> decodes_documents E \<and> compiles_rooted E"

lemma innerD: "inner h \<Longrightarrow> c \<in> set (content h a) \<Longrightarrow> kind_at h c \<noteq> DocumentNode"
  using content_in_range by (auto simp: inner_def)

lemma inner_alloc:
  assumes "wf_heap h" "inner h" "\<And>c. c \<in> set (ncontent n) \<Longrightarrow> c < length h \<and> kind_at h c \<noteq> DocumentNode"
  shows "inner (h @ [n])"
  unfolding inner_def
proof (intro allI impI ballI)
  fix a c assume a: "a < length (h @ [n])" and c: "c \<in> set (content (h @ [n]) a)"
  have "c < length h \<and> kind_at h c \<noteq> DocumentNode"
    using a c assms(3) content_range [OF assms(1)] innerD [OF assms(2)]
    by (auto simp: node_at_alloc split: if_splits)
  then show "kind_at (h @ [n]) c \<noteq> DocumentNode" by (simp add: node_at_alloc)
qed

lemma alloc_tree_inner:
  "alloc_tree t h = (a, h') \<Longrightarrow> nodoc t \<Longrightarrow> sound h \<Longrightarrow>
     sound h' \<and> a < length h' \<and> kind_at h' a \<noteq> DocumentNode"
  "alloc_trees ts h = (as, h') \<Longrightarrow> list_all nodoc ts \<Longrightarrow> sound h \<Longrightarrow>
     sound h' \<and> (\<forall>a \<in> set as. a < length h' \<and> kind_at h' a \<noteq> DocumentNode)"
proof (induction t h and ts h arbitrary: a h' and as h' rule: alloc_tree_alloc_trees.induct)
  case (1 k tag v ts h)
  obtain cs h1 where cs: "alloc_trees ts h = (cs, h1)" by (meson surj_pair)
  have IH: "sound h1 \<and> (\<forall>a \<in> set cs. a < length h1 \<and> kind_at h1 a \<noteq> DocumentNode)"
    using "1.IH" [OF cs] "1.prems" by simp
  then show ?case
    using "1.prems" cs by (auto simp: alloc_def sound_def node_at_alloc intro!: wf_alloc inner_alloc)
next
  case (3 t ts h)
  obtain c h1 where c: "alloc_tree t h = (c, h1)" by (meson surj_pair)
  obtain cs h2 where cs: "alloc_trees ts h1 = (cs, h2)" by (meson surj_pair)
  have 1: "sound h1 \<and> c < length h1 \<and> kind_at h1 c \<noteq> DocumentNode"
    using "3.IH"(1) [OF c] "3.prems" by simp
  have 2: "sound h2 \<and> (\<forall>a \<in> set cs. a < length h2 \<and> kind_at h2 a \<noteq> DocumentNode)"
    using "3.IH"(2) [OF c [symmetric] refl cs] "3.prems" 1 by simp
  have "block h1 (set cs) h2" using cs by (rule block_alloc_tree)
  with 1 2 show ?case
    using "3.prems" c cs content_block_old [of h1 "set cs" h2 c] block_length [of h1 "set cs" h2]
    by auto
qed auto

lemma alloc_doc_tree:
  assumes "alloc_tree t h = (a, h')" "doc_tree t" "sound h"
  shows "sound h' \<and> a < length h' \<and> kind_at h' a = DocumentNode \<and> (\<exists>c. content h' a = [c])"
proof -
  obtain tag v t' where t: "t = YNode DocumentNode tag v [t']" "nodoc t'"
    using assms(2) by (auto simp: doc_tree_def)
  obtain c h1 where c: "alloc_tree t' h = (c, h1)" by (meson surj_pair)
  have "sound h1 \<and> c < length h1 \<and> kind_at h1 c \<noteq> DocumentNode"
    using alloc_tree_inner(1) [OF c t(2) assms(3)] .
  then show ?thesis
    using assms(1) t(1) c by (auto simp: alloc_def sound_def node_at_alloc intro!: wf_alloc inner_alloc)
qed

section \<open>The effect of one step\<close>

text \<open>
  A step keeps the inserted part \<open>S\<close> closed, the store sound and growing, and no node changes its kind.
\<close>

definition grows :: "heap \<Rightarrow> heap \<Rightarrow> bool" where
  "grows h h' \<longleftrightarrow> sound h' \<and> length h \<le> length h' \<and> (\<forall>a < length h. kind_at h' a = kind_at h a)"

definition evolves :: "addr set \<Rightarrow> heap \<Rightarrow> heap \<Rightarrow> bool" where
  "evolves S h h' \<longleftrightarrow> sep S h' \<and> grows h h'"

lemma grows_trans: "grows h h' \<Longrightarrow> grows h' h'' \<Longrightarrow> grows h h''"
  by (auto simp: grows_def)

lemma grows_refl: "sound h \<Longrightarrow> grows h h"
  by (simp add: grows_def)

lemma grows_sound: "grows h h' \<Longrightarrow> sound h'"
  by (simp add: grows_def)

lemma grows_length: "grows h h' \<Longrightarrow> length h \<le> length h'"
  by (simp add: grows_def)

lemma evolves_trans: "evolves S h h' \<Longrightarrow> evolves S h' h'' \<Longrightarrow> evolves S h h''"
  by (auto simp: evolves_def intro: grows_trans)

lemma evolves_refl: "sep S h \<Longrightarrow> inner h \<Longrightarrow> evolves S h h"
  by (simp add: evolves_def grows_def sound_def sep_wf)

lemma evolvesD: "evolves S h h' \<Longrightarrow> sep S h' \<and> inner h'"
  by (simp add: evolves_def grows_def sound_def)

lemma evolves_set_content:
  assumes "sep S h" "inner h"
    and cs: "\<And>c. c \<in> set cs \<Longrightarrow> c < length h \<and> (c \<in> set (content h p) \<or> (c \<in> S \<and> p \<notin> S))
      \<and> kind_at h c \<noteq> DocumentNode"
  shows "evolves S h (set_content h p cs)"
proof -
  have "sep S (set_content h p cs)" using assms by (intro sep_set_content) auto
  moreover have "inner (set_content h p cs)"
    using assms(2) cs by (auto simp: inner_def content_set_content)
  ultimately show ?thesis by (auto simp: evolves_def grows_def sound_def dest: sep_wf)
qed

lemma evolves_splice:
  assumes "sep S h" "inner h" "m \<notin> S" "v \<in> S" "m \<in> set (content h p)"
    and "set cs \<subseteq> set (content h p) \<union> set (content h v)"
  shows "evolves S h (set_content h p cs)"
  using assms sep_parent [OF assms(1,3,5)] content_range [OF sep_wf [OF assms(1)]]
    sep_closed [OF assms(1,4)] innerD [OF assms(2)]
  by (auto intro!: evolves_set_content)

lemma evolves_append:
  assumes "sep S h" "inner h" "a \<notin> S"
    and "\<And>c. c \<in> set cs \<Longrightarrow> c \<in> S \<and> c < length h \<and> kind_at h c \<noteq> DocumentNode"
  shows "evolves S h (append_content a cs h)"
  using assms content_range [OF sep_wf [OF assms(1)]] innerD [OF assms(2)]
  by (auto simp: append_content_def intro!: evolves_set_content)

lemma evolves_alloc:
  assumes "sep S h" "inner h"
    and "\<And>c. c \<in> set (ncontent n) \<Longrightarrow> c \<in> S \<and> c < length h \<and> kind_at h c \<noteq> DocumentNode"
  shows "evolves S h (h @ [n])"
  using assms
  by (auto simp: evolves_def grows_def sound_def node_at_alloc sep_wf intro!: sep_alloc inner_alloc wf_alloc)

lemma sep_fresh: "sep S h \<Longrightarrow> length h \<in> S"
  by (auto simp: sep_def)

lemma yields_ReplaceNode:
  assumes s: "sep S h" "inner h" "m \<notin> S" "v \<in> S"
  shows "yields (evolves S h) (ReplaceNode d m v h)"
  unfolding ReplaceNode_def
proof (rule yields_bind [OF yields_Find [OF sep_wf [OF s(1)]]])
  fix r assume r: "\<forall>p. r = Some p \<longrightarrow> ContainsChild h m p \<and> reach h d p"
  show "yields (evolves S h) (case r of None \<Rightarrow> Inr h
      | Some p \<Rightarrow> bind_result (replaceChildAtIndex h p m v) (\<lambda>cs. Inr (set_content h p cs)))"
    using r s by (cases r) (auto simp: ContainsChild_def intro!: yields_Inr evolves_refl
        yields_bind [OF yields_splice(3)] intro: evolves_splice)
qed

lemma yields_insert_at_child:
  assumes s: "sep S h" "inner h" "m \<notin> S" "v \<in> S"
    and p: "\<forall>p. parent = Some p \<longrightarrow> ContainsChild h m p \<and> reach h d p"
  shows "yields (evolves S h) (insert_at_child parent m v h)"
  unfolding insert_at_child_def
  using p s by (cases parent) (auto simp: ContainsChild_def intro!: yields_intro
      yields_bind [OF yields_splice(2)] intro: evolves_splice)

lemma yields_first_child: "yields (\<lambda>c. c \<in> set (content h a)) (first_child h a)"
  by (auto simp: first_child_def yields_def split: list.splits)

text \<open>A match can receive children when it lies outside \<open>S\<close>, and for a document also its root.\<close>

definition open_match :: "addr set \<Rightarrow> heap \<Rightarrow> addr \<Rightarrow> bool" where
  "open_match S h m \<longleftrightarrow> m \<notin> S
     \<and> (kind_at h m = DocumentNode \<longrightarrow> (\<forall>c \<in> set (content h m). c \<notin> S))"

lemma yields_AddNode:
  assumes s: "sep S h" "inner h" "open_match S h m" "v \<in> S"
  shows "yields (evolves S h) (AddNode d m v h)"
proof -
  have m: "m \<notin> S" and doc: "kind_at h m = DocumentNode \<Longrightarrow> c \<in> set (content h m) \<Longrightarrow> c \<notin> S" for c
    using s(3) by (auto simp: open_match_def)
  have app: "evolves S h (append_content a (content h w) h)" if "a \<notin> S" "w \<in> S" for a w
    using that s sep_closed [OF s(1) that(2)] content_range [OF sep_wf [OF s(1)]] innerD [OF s(2)]
    by (intro evolves_append) auto
  have v': "c \<in> S" if "c \<in> set (content h v)" for c
    using sep_closed [OF s(1,4) that] .
  show ?thesis
    unfolding AddNode_def
    by (rule yields_bind [OF yields_Find [OF sep_wf [OF s(1)]]])
      (auto split: node_kind.splits intro!: yields_insert_at_child yields_Inr evolves_refl app
        yields_bind [OF yields_first_child] simp: s m v' doc)
qed

lemma yields_attach_child:
  assumes s: "sep S h" "inner h" "open_match S h m" "v \<in> S" "v < length h" "kind_at h v \<noteq> DocumentNode"
  shows "yields (evolves S h) (attach_child d path v m h)"
proof -
  have m: "m \<notin> S" and doc: "kind_at h m = DocumentNode \<Longrightarrow> c \<in> set (content h m) \<Longrightarrow> c \<notin> S" for c
    using s(3) by (auto simp: open_match_def)
  let ?k = "key_node (getChildName path)"
  have al: "evolves S h (h @ [?k])"
    using s by (intro evolves_alloc) (auto simp: key_node_def)
  have kv: "evolves S h (append_content a [length h, v] (h @ [?k]))" if "a \<notin> S" for a
    by (rule evolves_trans [OF al], rule evolves_append)
      (use evolvesD [OF al] that s sep_fresh [OF s(1)] in \<open>auto simp: node_at_alloc key_node_def\<close>)
  show ?thesis
    unfolding attach_child_def
    by (rule yields_bind [OF yields_Find [OF sep_wf [OF s(1)]]])
      (auto split: node_kind.splits simp: s m doc alloc_def
        intro!: yields_insert_at_child yields_Inr evolves_refl evolves_append kv
          yields_bind [OF yields_first_child])
qed

lemma yields_Remove_match:
  assumes so: "sound h"
  shows "yields (grows h) (Remove_match d m h)"
proof -
  have s: "grows h (set_content h p cs)" if "set cs \<subseteq> set (content h p)" for p cs
  proof -
    have "sep {length h ..} h" using so by (auto simp: sep_def sound_def closed_set_def)
    then have "evolves {length h ..} h (set_content h p cs)"
      using that so content_range [of h] innerD [of h]
      by (intro evolves_set_content) (auto simp: sound_def)
    then show ?thesis by (simp add: evolves_def)
  qed
  have rc: "set (removeChild h p m) \<subseteq> set (content h p)" for p
    by (auto simp: removeChild_def)
  have wf: "wf_heap h" using so by (simp add: sound_def)
  show ?thesis
    unfolding Remove_match_def
    by (rule yields_bind [OF yields_Find [OF wf]])
      (auto split: option.splits node_kind.splits simp: s rc so
        intro!: yields_intro yields_bind [OF yields_splice(1)] grows_refl)
qed

end
