(* ===== verification/PatchSafety.thy ===== *)
theory PatchSafety
  imports PatchInvariants
begin

text \<open>
  The operations as a whole. For a sound store and libraries that decode documents, every operation
  that inserts freshly decoded values returns, and leaves a sound store in which no node has changed its kind.
  The contract of the NameResolver interface is the locale \<open>safe_resolver\<close>; its client lemmas lift
  the result to the operations that translate names and to a whole list of patches.
\<close>

section \<open>Matches\<close>

lemma path_find_root_inner:
  assumes "inner h" "path_find F h root (PRoot p) a = Inr ms" "m \<in> set ms"
  shows "kind_at h m \<noteq> DocumentNode"
proof -
  have step: "kind_at h x \<noteq> DocumentNode" if "reach h b x" "kind_at h b \<noteq> DocumentNode" for b x
    using that unfolding reach_def
    by (induction rule: rtrancl_induct) (auto simp: child_rel_def dest: innerD [OF assms(1)])
  have top: "kind_at h m \<noteq> DocumentNode" if "path_find F h root p b = Inr ms" "kind_at h b \<noteq> DocumentNode" for b
    using step [OF path_find_reach [OF that(1) assms(3)] that(2)] .
  show ?thesis
    using assms(2) top innerD [OF assms(1), of _ a] by (auto split: if_splits list.splits)
qed

lemma path_find_compiled:
  assumes "inner h" "lawful E" "compile_path E s = Inr p" "path_find F h root p d = Inr ms"
  shows "(\<forall>m \<in> set ms. reach h d m) \<and> (ms = [d] \<or> (\<forall>m \<in> set ms. kind_at h m \<noteq> DocumentNode))"
proof
  show "\<forall>m \<in> set ms. reach h d m" using assms(4) path_find_reach by blast
  have "p = PIdentity \<or> (\<exists>q. p = PRoot q)"
    using assms(2,3) by (auto simp: lawful_def compiles_rooted_def split: if_splits)
  then show "ms = [d] \<or> (\<forall>m \<in> set ms. kind_at h m \<noteq> DocumentNode)"
  proof
    assume "\<exists>q. p = PRoot q"
    then obtain q where "p = PRoot q" ..
    with assms(4) path_find_root_inner [OF assms(1), of F root q d ms] show ?thesis by blast
  qed (use assms(4) in \<open>auto split: if_splits\<close>)
qed

text \<open>What a query matches: the queried node itself, or nodes that are no documents.\<close>

definition match_list :: "heap \<Rightarrow> addr \<Rightarrow> addr list \<Rightarrow> bool" where
  "match_list h d ms \<longleftrightarrow> (\<forall>m \<in> set ms. reach h d m)
     \<and> (ms = [d] \<or> (\<forall>m \<in> set ms. kind_at h m \<noteq> DocumentNode))"

lemma FindMatches_match_list:
  "inner h \<Longrightarrow> lawful E \<Longrightarrow> FindMatches E h d path = Inr ms \<Longrightarrow> match_list h d ms"
  unfolding FindMatches_def path_Find_def match_list_def
  by (drule bind_result_Inr [THEN iffD1]) (use path_find_compiled in fastforce)

lemma getParents_match_list:
  "inner h \<Longrightarrow> lawful E \<Longrightarrow> getParents E h d path = Inr ms \<Longrightarrow> match_list h d ms"
  unfolding getParents_def path_Find_def match_list_def
  by (drule bind_result_Inr [THEN iffD1]) (use path_find_compiled in fastforce)

text \<open>
  A loop over the matches. When the document itself is matched, it is the only match, so its root
  has not changed; every other match may have received children and can receive more.
\<close>

lemma yields_match_loop:
  assumes s: "sep S h" "inner h" and ms: "match_list h d ms" and d: "apart d S h"
    and body: "\<And>m h'. evolves S h h' \<Longrightarrow> open_match S h' m \<Longrightarrow> yields (evolves S h') (f m h')"
  shows "yields (evolves S h) (fold_result f ms h)"
proof (cases "ms = [d]")
  case True
  have "reach h d c" if "c \<in> set (content h d)" for c
    using that by (rule reach_step [OF reach_refl])
  then have "open_match S h d" using d by (auto simp: open_match_def apart_def)
  with body [OF evolves_refl [OF s], of d] True show ?thesis
    by (auto simp: yields_def bind_result_def split: sum.splits)
next
  case False
  have nd: "m \<notin> S \<and> m < length h \<and> kind_at h m \<noteq> DocumentNode" if "m \<in> set ms" for m
    using that ms False d sep_range [OF s(1)] by (auto simp: match_list_def apart_def)
  show ?thesis
  proof (rule yields_fold)
    show "evolves S h h" using s by (rule evolves_refl)
    fix m h' assume m: "m \<in> set ms" and e: "evolves S h h'"
    have "open_match S h' m"
      using nd [OF m] e by (auto simp: open_match_def evolves_def grows_def)
    then show "yields (evolves S h) (f m h')"
      by (rule yields_mono [OF body [OF e] evolves_trans [OF e]])
  qed
qed

lemma yields_if_validated:
  assumes "sep S h" "inner h" "yields (evolves S h) (body h)"
  shows "yields (evolves S h) (if_validated E d m p body h)"
  unfolding if_validated_def
  by (rule yields_bind [OF yields_wrap [OF yields_ValidateAllConditions [OF sep_wf [OF assms(1)]]]])
    (use assms in \<open>auto intro: yields_Inr evolves_refl\<close>)

section \<open>createPath\<close>

lemma createNode_evolves:
  assumes s: "sep S h" "inner h" and v: "v \<in> S" "v < length h" "kind_at h v \<noteq> DocumentNode"
    and new: "(v', h') = createSequenceNode path (Some v) h \<or> (v', h') = createMappingNode path (Some v) h"
  shows "evolves S h h' \<and> v' \<in> S \<and> v' < length h' \<and> kind_at h' v' \<noteq> DocumentNode
     \<and> (apart d S h \<longrightarrow> apart d S h')"
  using new
proof
  let ?n = "\<lparr>nkind = SequenceNode, ntag = ''!!seq'', nvalue = [], ncontent = [v]\<rparr>"
  assume "(v', h') = createSequenceNode path (Some v) h"
  then have eq: "v' = length h" "h' = h @ [?n]" by (auto simp: createSequenceNode_def alloc_def)
  have "evolves S h h'" unfolding eq using s v by (intro evolves_alloc) auto
  then show ?thesis
    using eq apart_alloc [OF _ s(1)] sep_fresh [OF s(1)] by (auto simp: node_at_alloc)
next
  let ?k = "key_node (getChildName path)"
  let ?n = "\<lparr>nkind = MappingNode, ntag = ''!!map'', nvalue = [], ncontent = [length h, v]\<rparr>"
  assume "(v', h') = createMappingNode path (Some v) h"
  then have eq: "v' = Suc (length h)" "h' = (h @ [?k]) @ [?n]"
    by (auto simp: createMappingNode_def alloc_def)
  have k: "evolves S h (h @ [?k])" using s by (intro evolves_alloc) (auto simp: key_node_def)
  have n: "evolves S (h @ [?k]) h'"
    unfolding eq using evolvesD [OF k] v sep_fresh [OF s(1)]
    by (intro evolves_alloc) (auto simp: node_at_alloc key_node_def)
  have "v' \<in> S" using sep_fresh [of S "h @ [?k]"] evolvesD [OF k] eq by simp
  moreover have "apart d S h \<longrightarrow> apart d S h'"
    unfolding eq using s(1) evolvesD [OF k] apart_alloc by blast
  ultimately show ?thesis using evolves_trans [OF k n] eq by (auto simp: node_at_def nth_append)
qed

lemma yields_unpack_document:
  assumes "sep S h" "inner h" "v \<in> S" "v < length h"
  shows "yields (\<lambda>w. w \<in> S \<and> w < length h \<and> kind_at h w \<noteq> DocumentNode) (unpack_document h v)"
proof (cases "kind_at h v = DocumentNode")
  case True
  have "yields (\<lambda>w. w \<in> S \<and> w < length h \<and> kind_at h w \<noteq> DocumentNode) (first_child h v)"
    by (rule yields_mono [OF yields_first_child])
      (use sep_closed [OF assms(1,3)] innerD [OF assms(2), of _ v]
        content_range [OF sep_wf [OF assms(1)], of _ v] in blast)
  with True show ?thesis by (simp add: unpack_document_def)
qed (use assms in \<open>simp add: unpack_document_def yields_Inr\<close>)

lemma yields_createPath:
  "sep S h \<Longrightarrow> inner h \<Longrightarrow> apart d S h \<Longrightarrow> v \<in> S \<Longrightarrow> v < length h \<Longrightarrow> lawful E \<Longrightarrow>
     yields (evolves S h) (createPath E d path v h)"
proof (induction E d path v h rule: createPath.induct)
  case (1 E d path v h)
  note s = "1.prems"
  show ?case
    unfolding createPath.simps [of E d path v h]
  proof (rule yields_bind [OF yields_unpack_document [OF s(1,2,4,5)]])
    fix w assume u: "unpack_document h v = Inr w" and w: "w \<in> S \<and> w < length h \<and> kind_at h w \<noteq> DocumentNode"
    have par: "yields (\<lambda>ms. match_list h d ms) (getParents E h d path)"
      by (rule yields_mono [OF yields_getParents [OF sep_wf [OF s(1)]]])
        (erule getParents_match_list [OF s(2,6)])
    have wrapped: "yields (evolves S h) (createPath E d (getParentPath path) v' h')"
      if "getParents E h d path = Inr []"
        and n: "\<not> (path = getParentPath path \<or> getParentPath path = [] \<or> path = [])"
        and new: "(v', h') = (if isSequenceChild path then createSequenceNode path (Some w) h
                   else createMappingNode path (Some w) h)" for v' h'
    proof -
      have "(v', h') = createSequenceNode path (Some w) h \<or> (v', h') = createMappingNode path (Some w) h"
        using new by (auto split: if_splits)
      from createNode_evolves [OF s(1,2) _ _ _ this, of d] w
      have e: "evolves S h h'" "v' \<in> S" "v' < length h'" "apart d S h'" using s(3) by auto
      have "yields (evolves S h') (createPath E d (getParentPath path) v' h')"
        using "1.IH" [OF that(1) refl n refl new] evolvesD [OF e(1)] e s(6) by blast
      then show ?thesis by (rule yields_mono) (rule evolves_trans [OF e(1)])
    qed
    have attached: "yields (evolves S h) (fold_result (attach_child d path w) ms h)"
      if "getParents E h d path = Inr ms" for ms
    proof (rule yields_match_loop [OF s(1,2) yields_result [OF par that] s(3)])
      fix m h' assume e: "evolves S h h'" and m: "open_match S h' m"
      have "w < length h' \<and> kind_at h' w \<noteq> DocumentNode" using e w by (auto simp: evolves_def grows_def)
      then show "yields (evolves S h') (attach_child d path w m h')"
        using evolvesD [OF e] m w by (intro yields_attach_child) auto
    qed
    show "yields (evolves S h) (case getParents E h d path of
         Inl (Panic p) \<Rightarrow> panic p
       | Inl (Err e) \<Rightarrow> fail (''could not replace using path: '' @ path)
       | Inr [] \<Rightarrow>
           if path = getParentPath path \<or> getParentPath path = [] \<or> path = [] then Inr h
           else
             let (v', h') = (if isSequenceChild path then createSequenceNode path (Some w) h
                             else createMappingNode path (Some w) h)
             in createPath E d (getParentPath path) v' h'
       | Inr (m # ms) \<Rightarrow> fold_result (attach_child d path w) (m # ms) h)"
    proof (cases "getParents E h d path")
      case (Inl e)
      with par show ?thesis by (cases e) (auto simp: yields_def)
    next
      case (Inr ms)
      obtain v' h' where new: "(if isSequenceChild path then createSequenceNode path (Some w) h
          else createMappingNode path (Some w) h) = (v', h')" by fastforce
      show ?thesis
        using wrapped [OF _ _ new [symmetric]] attached [OF Inr] Inr new evolves_refl [OF s(1,2)]
        by (cases ms) (auto simp: yields_Inr)
    qed
  qed
qed

section \<open>Fresh values\<close>

lemma reach_extends: "reach h a b \<Longrightarrow> wf_heap h \<Longrightarrow> extends h h' \<Longrightarrow> reach h' a b"
  unfolding reach_def
proof (induction rule: rtrancl_induct)
  case (step b c)
  then have "c \<in> set (content h' b)"
    using content_in_range [of c h b] by (auto simp: child_rel_def extends_node_at)
  with step show ?case by (blast intro: rtrancl_into_rtrancl)
qed simp

lemma match_list_block:
  assumes "match_list h d ms" "block h as h'" "wf_heap h" "d < length h"
  shows "match_list h' d ms"
proof -
  have "m < length h \<and> reach h' d m" if "m \<in> set ms" for m
    using that assms reach_in_range [of h d m] reach_extends [of h d m h']
    by (auto simp: match_list_def block_def wf_heap_def)
  then show ?thesis
    using assms(1) content_block_old [OF assms(2)] by (auto simp: match_list_def)
qed

definition fresh_node :: "heap \<Rightarrow> addr \<times> heap \<Rightarrow> bool" where
  "fresh_node h = (\<lambda>(v, h'). block h {v} h' \<and> grows h h' \<and> v \<in> {length h ..} \<and> v < length h')"

lemma yields_node_from_text:
  assumes "lawful E" "sound h"
  shows "yields (fresh_node h) (node_from_text E doc h)"
proof (cases "yaml_Unmarshal_node E doc")
  case (Inr t)
  obtain v h' where v: "alloc_tree t h = (v, h')" by fastforce
  have "doc_tree t" using assms(1) Inr by (auto simp: lawful_def decodes_documents_def)
  then have "sound h'" "v < length h'" using alloc_doc_tree [OF v _ assms(2)] by auto
  moreover have b: "block h {v} h'" using v by (rule block_alloc_tree)
  ultimately have "fresh_node h (v, h')"
    using block_length [OF b] content_block_old [OF b]
    by (auto simp: fresh_node_def grows_def block_def)
  with Inr v show ?thesis by (simp add: node_from_text_def yields_Inr)
qed (simp add: node_from_text_def yields_Err)

lemma yields_NewNode:
  assumes "lawful E" "sound h"
  shows "yields (fresh_node h) (NewNode E raw h)" "yields (fresh_node h) (NewJSONNode E raw h)"
  using yields_node_from_text [OF assms]
  by (auto simp: NewNode_def NewJSONNode_def yields_Err split: sum.splits)

lemma fresh_node_sep:
  assumes "fresh_node h (v, h')" "sound h" "d < length h"
  shows "sep {length h ..} h' \<and> inner h' \<and> v \<in> {length h ..} \<and> v < length h' \<and> apart d {length h ..} h'"
  using assms sep_block [of h "{v}" h'] apart_block [of h "{v}" h' d]
  by (auto simp: fresh_node_def grows_def sound_def)

lemma yields_grows: "grows h h' \<Longrightarrow> yields (evolves S h') m \<Longrightarrow> yields (grows h) m"
  by (erule yields_mono) (auto simp: evolves_def intro: grows_trans)

lemma sound_Nil: "sound []"
  by (simp add: sound_def inner_def wf_heap_descending)

lemma soundD: "sound h \<Longrightarrow> wf_heap h \<and> inner h"
  by (simp add: sound_def)

section \<open>Replace, Add and Remove\<close>

lemma yields_matches:
  assumes "lawful E" "sound h"
  shows "yields (match_list h d) (wrap msg (FindMatches E h d path))"
  using assms soundD [OF assms(2)] FindMatches_match_list [of h E d path]
  by (auto intro!: yields_wrap yields_mono [OF yields_FindMatches])

lemma yields_Replace:
  assumes "lawful E" "sound h" "d < length h"
  shows "yields (grows h) (Replace E d p h)"
  unfolding Replace_def
proof (rule yields_bind [OF yields_matches [OF assms(1,2)]],
    rule yields_bind [OF yields_wrap [OF yields_NewNode(1) [OF assms(1,2)]]], clarify)
  fix ms v h' assume ms: "match_list h d ms" and n: "fresh_node h (v, h')"
  note sep = fresh_node_sep [OF n assms(2,3)]
  have "match_list h' d ms"
    using n ms assms(3) soundD [OF assms(2)] by (auto simp: fresh_node_def intro: match_list_block)
  then have "yields (evolves {length h ..} h')
      (fold_result (\<lambda>m. if_validated E d (Some m) p (ReplaceNode d m v)) ms h')"
    using sep by (intro yields_match_loop yields_if_validated yields_ReplaceNode)
      (auto simp: open_match_def dest: evolvesD)
  then show "yields (grows h) (fold_result (\<lambda>m. if_validated E d (Some m) p (ReplaceNode d m v)) ms h')"
    using n by (auto simp: fresh_node_def intro: yields_grows)
qed

lemma yields_Add:
  assumes "lawful E" "sound h" "d < length h"
  shows "yields (grows h) (Add E d p h)"
  unfolding Add_def
proof (rule yields_bind [OF yields_matches [OF assms(1,2)]],
    rule yields_bind [OF yields_wrap [OF yields_NewNode(1) [OF assms(1,2)]]], clarify)
  fix ms v h' assume ms: "match_list h d ms" and n: "fresh_node h (v, h')"
  note sep = fresh_node_sep [OF n assms(2,3)]
  have ml: "match_list h' d ms"
    using n ms assms(3) soundD [OF assms(2)] by (auto simp: fresh_node_def intro: match_list_block)
  have "yields (evolves {length h ..} h') (if_validated E d None p (createPath E d (Path p) v) h')"
    using sep assms(1) by (intro yields_if_validated yields_createPath) auto
  moreover have "yields (evolves {length h ..} h')
      (fold_result (\<lambda>m. if_validated E d (Some m) p (AddNode d m v)) ms h')"
    using sep ml by (intro yields_match_loop yields_if_validated yields_AddNode)
      (auto dest: evolvesD)
  ultimately show "yields (grows h) (if ms = [] then if_validated E d None p (createPath E d (Path p) v) h'
      else fold_result (\<lambda>m. if_validated E d (Some m) p (AddNode d m v)) ms h')"
    using n by (auto simp: fresh_node_def intro: yields_grows)
qed

lemma yields_if_validated_grows:
  assumes "sound h" "yields (grows h) (body h)"
  shows "yields (grows h) (if_validated E d m p body h)"
  unfolding if_validated_def
  by (rule yields_bind [OF yields_wrap [OF yields_ValidateAllConditions]])
    (use assms soundD in \<open>auto intro: yields_Inr grows_refl\<close>)

lemma yields_Remove:
  assumes "lawful E" "sound h"
  shows "yields (grows h) (Remove E d p h)"
  unfolding Remove_def
proof (rule yields_bind [OF yields_matches [OF assms]])
  fix ms
  show "yields (grows h) (fold_result (\<lambda>m. if_validated E d (Some m) p (Remove_match d m)) ms h)"
  proof (rule yields_fold)
    fix m h' assume g: "grows h h'"
    have "yields (grows h') (if_validated E d (Some m) p (Remove_match d m) h')"
      using grows_sound [OF g] by (intro yields_if_validated_grows yields_Remove_match)
    then show "yields (grows h) (if_validated E d (Some m) p (Remove_match d m) h')"
      by (rule yields_mono) (rule grows_trans [OF g])
  qed (rule grows_refl [OF assms(2)])
qed

section \<open>CopyFromObject\<close>

text \<open>
  A copy inserts a node of the second document itself, not a copy of it. It is safe as long as the
  two documents share no node.
\<close>

definition disjoint_docs :: "heap \<Rightarrow> addr \<Rightarrow> addr \<Rightarrow> bool" where
  "disjoint_docs h d e \<longleftrightarrow> (\<forall>x. reach h d x \<longrightarrow> \<not> reach h e x)"

definition below :: "heap \<Rightarrow> addr \<Rightarrow> addr set" where
  "below h e = {x. reach h e x} \<union> {length h ..}"

lemma below_sep: "wf_heap h \<Longrightarrow> sep (below h e) h"
  by (auto simp: sep_def closed_set_def below_def intro: reach_step)

lemma below_apart: "disjoint_docs h d e \<Longrightarrow> wf_heap h \<Longrightarrow> d < length h \<Longrightarrow> apart d (below h e) h"
  using reach_in_range [of h d] by (fastforce simp: apart_def below_def disjoint_docs_def wf_heap_def)

lemma source_no_document:
  assumes "lawful E" "inner h" "FindMatches E h e path = Inr ms" "m \<in> set ms" "path \<noteq> []"
  shows "kind_at h m \<noteq> DocumentNode"
proof -
  obtain p where p: "compile_path E path = Inr p" "path_find (eval_filter E) h e p e = Inr ms"
    using assms(3) by (auto simp: FindMatches_def path_Find_def result_simps)
  with assms(1,5) obtain q where "p = PRoot q"
    unfolding lawful_def compiles_rooted_def by (meson)
  with p(2) show ?thesis using path_find_root_inner [OF assms(2) _ assms(4)] by blast
qed

lemma yields_Copy_replace:
  assumes "sep S h" "inner h" "m \<notin> S" "v \<in> S" "v < length h" "kind_at h v \<noteq> DocumentNode"
  shows "yields (evolves S h) (Copy_replace d m v h)"
proof -
  let ?n = "\<lparr>nkind = DocumentNode, ntag = [], nvalue = [], ncontent = [v]\<rparr>"
  have e: "evolves S h (h @ [?n])" using assms by (intro evolves_alloc) auto
  have "yields (evolves S (h @ [?n])) (ReplaceNode d m (length h) (h @ [?n]))"
    using evolvesD [OF e] assms sep_fresh [OF assms(1)] by (intro yields_ReplaceNode) auto
  then have "yields (evolves S h) (ReplaceNode d m (length h) (h @ [?n]))"
    by (rule yields_mono) (rule evolves_trans [OF e])
  then show ?thesis by (simp add: Copy_replace_def alloc_def)
qed

lemma yields_Copy_missing: "sep S h \<Longrightarrow> inner h \<Longrightarrow> yields (evolves S h) (Copy_missing d m h)"
  unfolding Copy_missing_def
  by (rule yields_bind [OF yields_Find [OF sep_wf]])
    (auto split: option.splits intro: yields_intro evolves_refl)

lemma yields_CopyFromObject:
  assumes "lawful E" "sound h" "d < length h" "e < length h" "disjoint_docs h d e"
    and "FromPath p \<noteq> []"
  shows "yields (grows h) (CopyFromObject E d (Some e) p h)"
proof -
  let ?S = "below h e"
  have wf: "wf_heap h" and inn: "inner h" using soundD [OF assms(2)] by auto
  have s: "sep ?S h" using wf by (rule below_sep)
  have ap: "apart d ?S h" using below_apart [OF assms(5) wf assms(3)] .
  have from_ok: "v \<in> ?S \<and> v < length h \<and> kind_at h v \<noteq> DocumentNode"
    if "FindMatches E h e (FromPath p) = Inr fs" "v \<in> set fs" for fs v
    using FindMatches_reach [OF that] source_no_document [OF assms(1) inn that assms(6)] wf assms(4)
      reach_in_range [of h e v] by (auto simp: below_def wf_heap_def)
  have one: "yields (evolves ?S h) (if_validated E d None p (createPath E d (Path p) v) h)"
    if "v \<in> ?S \<and> v < length h" for v
    using that assms(1) s inn ap by (intro yields_if_validated yields_createPath) auto
  have loop: "yields (evolves ?S h) (fold_result (\<lambda>m. if_validated E d (Some m) p
      (if length fs = 1 then Copy_replace d m (hd fs) else Copy_missing d m)) ms h)"
    if ms: "match_list h d ms" and fs: "FindMatches E h e (FromPath p) = Inr fs" for ms fs
  proof (rule yields_match_loop [OF s inn ms ap])
    fix m h' assume ev: "evolves ?S h h'" and m: "open_match ?S h' m"
    have "hd fs \<in> ?S \<and> hd fs < length h' \<and> kind_at h' (hd fs) \<noteq> DocumentNode" if "length fs = 1"
      using that from_ok [OF fs, of "hd fs"] ev by (cases fs) (auto simp: evolves_def grows_def)
    then have "yields (evolves ?S h')
        ((if length fs = 1 then Copy_replace d m (hd fs) else Copy_missing d m) h')"
      using evolvesD [OF ev] m yields_Copy_replace yields_Copy_missing by (auto simp: open_match_def)
    then show "yields (evolves ?S h') (if_validated E d (Some m) p
        (if length fs = 1 then Copy_replace d m (hd fs) else Copy_missing d m) h')"
      using evolvesD [OF ev] by (intro yields_if_validated) auto
  qed
  have "yields (evolves ?S h) (CopyFromObject E d (Some e) p h)"
    unfolding CopyFromObject_def option.case Let_def
  proof (rule yields_bind [OF yields_matches [OF assms(1,2)]],
      rule yields_bind [OF yields_wrap [OF yields_mono [OF yields_FindMatches [OF wf]]]])
    fix ms fs assume ms: "match_list h d ms"
      and fs: "wrap ''find from matches'' (FindMatches E h e
        (if FromPath p = [] then Path p else FromPath p)) = Inr fs"
    have fs': "FindMatches E h e (FromPath p) = Inr fs" using fs assms(6) by simp
    have "hd fs \<in> ?S \<and> hd fs < length h" if "length fs = 1"
      using that from_ok [OF fs', of "hd fs"] by (cases fs) auto
    with one loop [OF ms fs'] show "yields (evolves ?S h) (if 1 < length fs
        then fail (''more than 1 match found for path '' @ (if FromPath p = [] then Path p else FromPath p))
        else if length fs = 1 \<and> ms = [] then if_validated E d None p (createPath E d (Path p) (hd fs)) h
        else fold_result (\<lambda>m. if_validated E d (Some m) p
          (if length fs = 1 then Copy_replace d m (hd fs) else Copy_missing d m)) ms h)"
      by (auto intro: yields_Err)
  qed simp
  then show ?thesis by (rule yields_mono) (simp add: evolves_def)
qed

section \<open>The contract of a name resolver\<close>

text \<open>A resolver call returns, and keeps the invariant of the resolver's state.\<close>

definition keeps :: "('r \<Rightarrow> bool) \<Rightarrow> ('r \<Rightarrow> ('a \<times> 'r) result) \<Rightarrow> bool" where
  "keeps I f \<longleftrightarrow> (\<forall>r. I r \<longrightarrow> yields (\<lambda>(x, r'). I r') (f r))"

lemma keepsD: "keeps I f \<Longrightarrow> I r \<Longrightarrow> yields (\<lambda>(x, r'). I r') (f r)"
  by (simp add: keeps_def)

locale safe_resolver =
  fixes resolver :: "'r NameResolver" and I :: "'r \<Rightarrow> bool"
  assumes name: "keeps I (TranslateName resolver n re path)"
    and label_key: "keeps I (TranslateLabelKey resolver k)"
    and label_expressions: "keeps I (TranslateLabelExpressionsSelector resolver sel)"
    and label_selector: "keeps I (TranslateLabelSelector resolver labels)"
    and name_namespace: "keeps I (TranslateNameWithNamespace resolver n ns re path)"
    and namespace_ref: "keeps I (TranslateNamespaceRef resolver ns)"
begin

text \<open>The state of a rewrite: a store grown from the first one, and a resolver state in \<open>I\<close>.\<close>

definition good :: "heap \<Rightarrow> heap \<times> 'r \<Rightarrow> bool" where
  "good h0 s \<longleftrightarrow> grows h0 (fst s) \<and> I (snd s)"

lemma good_refl: "sound (fst s) \<Longrightarrow> I (snd s) \<Longrightarrow> good (fst s) s"
  by (simp add: good_def grows_refl)

lemma good_trans: "good h0 s \<Longrightarrow> good (fst s) s' \<Longrightarrow> good h0 s'"
  by (auto simp: good_def intro: grows_trans)

lemma goodD: "good h0 s \<Longrightarrow> sound (fst s) \<and> I (snd s) \<and> length h0 \<le> length (fst s)"
  by (auto simp: good_def grows_def)

lemma yields_good: "good h0 s \<Longrightarrow> yields (good (fst s)) m \<Longrightarrow> yields (good h0) m"
  by (erule yields_mono) (rule good_trans)

lemma yields_new_and_replace:
  assumes "lawful E" "sound h" "I r" "m < length h" "yields (fresh_node h) mk"
  shows "yields (good h) (bind_result (wrap msg mk) (\<lambda>(newNode, h').
     bind_result (ReplaceNode obj m newNode h') (\<lambda>h''. Inr (h'', r))))"
proof (rule yields_bind [OF yields_wrap [OF assms(5)]], clarify)
  fix v h' assume n: "fresh_node h (v, h')"
  note sep = fresh_node_sep [OF n assms(2,4)]
  have "yields (evolves {length h ..} h') (ReplaceNode obj m v h')"
    using sep assms(4) by (intro yields_ReplaceNode) auto
  then have "yields (grows h) (ReplaceNode obj m v h')"
    using n by (auto simp: fresh_node_def intro: yields_grows)
  then show "yields (good h) (bind_result (ReplaceNode obj m v h') (\<lambda>h''. Inr (h'', r)))"
    by (rule yields_bind) (simp add: yields_Inr good_def assms(3))
qed

lemma yields_replace_with_value:
  assumes "lawful E" "sound h" "I r" "m < length h"
  shows "yields (good h) (replace_with_value E obj m v r h)"
  unfolding replace_with_value_def
  using assms yields_NewNode(1) by (intro yields_new_and_replace) auto

lemma yields_call:
  assumes "keeps I f" "I r" "\<And>x r'. I r' \<Longrightarrow> yields Q (g x r')"
  shows "yields Q (bind_result (f r) (\<lambda>(x, r'). g x r'))"
  by (rule yields_bind [OF keepsD [OF assms(1,2)]]) (auto intro: assms(3))

lemma yields_validated:
  assumes "sound (fst s)" "I (snd s)" "yields (good (fst s)) m"
  shows "yields (good (fst s)) (bind_result (wrap msg (ValidateAllConditions E (fst s) obj match cs))
     (\<lambda>validated. if \<not> validated then Inr s else m))"
  by (rule yields_bind [OF yields_wrap [OF yields_ValidateAllConditions]])
    (use assms soundD in \<open>auto intro: yields_Inr good_refl\<close>)

lemma yields_ValidateAndTranslateName:
  assumes "lawful E" "sound (fst s)" "I (snd s)" "m < length (fst s)"
  shows "yields (good (fst s)) (ValidateAndTranslateName E obj m patch resolver ns s)"
proof -
  obtain h r where s: "s = (h, r)" by fastforce
  have call: "keeps I (\<lambda>r. if ns \<noteq> []
      then TranslateNameWithNamespace resolver (value_at h m) ns (ParsedRegex patch) (FromPath patch) r
      else TranslateName resolver (value_at h m) (ParsedRegex patch) (FromPath patch) r)"
    using name name_namespace by (auto simp: keeps_def)
  have "yields (good (fst s)) (bind_result
      (if ns \<noteq> []
       then TranslateNameWithNamespace resolver (value_at h m) ns (ParsedRegex patch) (FromPath patch) r
       else TranslateName resolver (value_at h m) (ParsedRegex patch) (FromPath patch) r)
      (\<lambda>(t, r'). replace_with_value E obj m (VStr t) r' h))"
    using assms s by (intro yields_call [OF call]) (auto intro: yields_replace_with_value)
  from yields_validated [OF assms(2,3) this, of "''validate conditions''" E obj "Some m" "Conditions patch"]
  show ?thesis unfolding ValidateAndTranslateName_def s by (simp only: prod.case fst_conv)
qed

lemma yields_ValidateAndTranslateNamespace:
  assumes "lawful E" "sound (fst s)" "I (snd s)" "m < length (fst s)"
  shows "yields (good (fst s)) (ValidateAndTranslateNamespace E obj m patch resolver s)"
proof -
  obtain h r where s: "s = (h, r)" by fastforce
  have "yields (good (fst s)) (bind_result (TranslateNamespaceRef resolver (value_at h m) r)
      (\<lambda>(t, r'). replace_with_value E obj m (VStr t) r' h))"
    using assms s by (intro yields_call [OF namespace_ref]) (auto intro: yields_replace_with_value)
  from yields_validated [OF assms(2,3) this, of "''validate conditions''" E obj "Some m" "Conditions patch"]
  show ?thesis unfolding ValidateAndTranslateNamespace_def s by (simp only: prod.case fst_conv)
qed

text \<open>The loops over nodes of the first store: each iteration starts from a grown store.\<close>

lemma yields_node_loop:
  assumes s: "good h0 s" and ms: "\<forall>m \<in> set ms. m < length h0"
    and body: "\<And>m s'. good h0 s' \<Longrightarrow> m < length (fst s') \<Longrightarrow> yields (good (fst s')) (f m s')"
  shows "yields (good h0) (fold_result f ms s)"
proof (rule yields_fold [where P = "good h0", OF s])
  fix m s' assume m: "m \<in> set ms" and g: "good h0 s'"
  then have "m < length (fst s')" using ms goodD [OF g] by auto
  from yields_good [OF g body [OF g this]] show "yields (good h0) (f m s')" .
qed

lemma yields_matches_in_range:
  assumes "sound h" "d < length h"
  shows "yields (\<lambda>ms. \<forall>m \<in> set ms. m < length h) (wrap msg (FindMatches E h d path))"
  by (rule yields_wrap, rule yields_mono [OF yields_FindMatches])
    (use assms soundD [OF assms(1)] reach_in_range in \<open>auto simp: wf_heap_def\<close>)

text \<open>\<open>safe_op f\<close>: the operation returns from every sound store, and its result is good.\<close>

definition safe_op :: "heap \<Rightarrow> (heap \<times> 'r \<Rightarrow> (heap \<times> 'r) result) \<Rightarrow> bool" where
  "safe_op h0 f \<longleftrightarrow> (\<forall>s. good h0 s \<longrightarrow> yields (good h0) (f s))"

lemma safe_opD: "safe_op h0 f \<Longrightarrow> good h0 s \<Longrightarrow> yields (good h0) (f s)"
  unfolding safe_op_def by blast

lemma safe_op_loop: "(\<And>x. x \<in> set xs \<Longrightarrow> safe_op h0 (f x)) \<Longrightarrow> safe_op h0 (fold_result f xs)"
  unfolding safe_op_def
  by (intro allI impI yields_fold [where P = "good h0"]) auto

lemma safe_op_wrap: "safe_op h0 f \<Longrightarrow> safe_op h0 (\<lambda>s. wrap msg (f s))"
  unfolding safe_op_def by (intro allI impI yields_wrap) blast

lemma safe_op_grown:
  "(\<And>s. sound (fst s) \<Longrightarrow> I (snd s) \<Longrightarrow> length h0 \<le> length (fst s) \<Longrightarrow> yields (good (fst s)) (f s))
    \<Longrightarrow> safe_op h0 f"
  unfolding safe_op_def using goodD yields_good by meson

lemma safe_for_scalars:
  "(\<And>m. m \<in> set ms \<Longrightarrow> safe_op h0 (body m)) \<Longrightarrow> safe_op h0 (for_scalars body ms)"
  unfolding for_scalars_def by (rule safe_op_loop) (auto simp: safe_op_def yields_Inr)

lemma safe_matches:
  assumes "d < length h0" "good h0 s"
    and "\<And>ms. \<forall>m \<in> set ms. m < length (fst s) \<Longrightarrow> yields (good h0) (g ms)"
  shows "yields (good h0) (bind_result (wrap msg (FindMatches E (fst s) d path)) g)"
  using assms goodD [OF assms(2)]
  by (intro yields_bind [OF yields_matches_in_range]) auto

lemma yields_patch_GetNamespace: "wf_heap h \<Longrightarrow> yields (\<lambda>_. True) (patch_GetNamespace E obj patch h)"
  unfolding patch_GetNamespace_def
  by (rule yields_bind [OF yields_wrap [OF yields_FindMatches]]) (auto intro: yields_intro)

lemma safe_translate:
  assumes "lawful E" "m < length h0"
  shows "safe_op h0 (ValidateAndTranslateName E obj m patch resolver ns)"
    and "safe_op h0 (ValidateAndTranslateNamespace E obj m patch resolver)"
  using assms by (auto intro!: safe_op_grown yields_ValidateAndTranslateName
      yields_ValidateAndTranslateNamespace)

lemma yields_scalars:
  assumes "good h0 s" "\<forall>m \<in> set ms. m < length (fst s)"
    and "\<And>m h. m < length h \<Longrightarrow> safe_op h (body m)"
  shows "yields (good h0) (for_scalars body ms s)"
  using assms goodD [OF assms(1)]
  by (intro yields_good [OF assms(1)] safe_opD [OF safe_for_scalars])
    (auto simp: good_refl)

lemma safe_ProcessRewrite:
  assumes "lawful E" "obj < length h0"
  shows "safe_op h0 (ProcessRewrite E obj patch resolver)"
  unfolding safe_op_def
proof (intro allI impI)
  fix s assume g: "good h0 s"
  have ns: "yields (\<lambda>_. True) (if NamespacePath patch \<noteq> [] then patch_GetNamespace E obj patch (fst s) else Inr [])"
    using goodD [OF g] soundD by (auto intro: yields_patch_GetNamespace yields_Inr)
  show "yields (good h0) (ProcessRewrite E obj patch resolver s)"
    unfolding ProcessRewrite_def
  proof (rule yields_bind [OF ns], rule safe_matches [OF assms(2) g])
    fix ns ms assume ms: "\<forall>m \<in> set ms. m < length (fst s)"
    show "yields (good h0) (bind_result
        (for_scalars (\<lambda>m. ValidateAndTranslateName E obj m patch resolver ns) ms s)
        (\<lambda>s'. if ns = [] then Inr s' else bind_result (wrap ''find namespace matches''
            (FindMatches E (fst s') obj (NamespacePath patch)))
          (\<lambda>ms. for_scalars (\<lambda>m. ValidateAndTranslateNamespace E obj m patch resolver) ms s')))"
    proof (rule yields_bind [OF yields_scalars [OF g ms safe_translate(1) [OF assms(1)]]])
      fix s' assume g': "good h0 s'"
      show "yields (good h0) (if ns = [] then Inr s' else bind_result (wrap ''find namespace matches''
            (FindMatches E (fst s') obj (NamespacePath patch)))
          (\<lambda>ms. for_scalars (\<lambda>m. ValidateAndTranslateNamespace E obj m patch resolver) ms s'))"
        using yields_scalars [OF g' _ safe_translate(2) [OF assms(1)]]
        by (auto simp: yields_Inr g' intro!: safe_matches [OF assms(2) g'])
    qed simp
  qed
qed

lemma safe_RewriteName:
  assumes "lawful E" "d < length h0"
  shows "safe_op h0 (RewriteName E d patch resolver)"
  unfolding safe_op_def RewriteName_def
proof (intro allI impI, rule safe_matches [OF assms(2)])
  fix s ms assume g: "good h0 s" and ms: "\<forall>m \<in> set ms. m < length (fst s)"
  have "yields (good (fst s)) (fold_result (RewriteName_match E d patch resolver) ms s)"
  proof (rule safe_opD [OF safe_op_loop])
    fix m assume "m \<in> set ms"
    then have m: "m < length (fst s)" using ms by blast
    show "safe_op (fst s) (RewriteName_match E d patch resolver m)"
    proof (rule safe_op_grown)
      fix t :: "heap \<times> 'r" assume t: "sound (fst t)" "I (snd t)" "length (fst s) \<le> length (fst t)"
      have "c < length (fst t)" if "c \<in> set (content (fst t) m)" for c
        using content_range [OF _ that] soundD [OF t(1)] by simp
      then have seq: "yields (good (fst t))
          (fold_result (\<lambda>subNode. ProcessRewrite E subNode patch resolver) (content (fst t) m) t)"
        using good_refl [OF t(1,2)] assms(1)
        by (intro safe_opD [OF safe_op_loop]) (auto intro: safe_ProcessRewrite)
      show "yields (good (fst t)) (RewriteName_match E d patch resolver m t)"
        unfolding RewriteName_match_def
        using seq safe_opD [OF safe_ProcessRewrite [OF assms(1), of m "fst t"] good_refl [OF t(1,2)]]
          yields_ValidateAndTranslateName [OF assms(1) t(1,2)] m t good_refl [OF t(1,2)]
        by (auto split: node_kind.splits intro: yields_Inr)
    qed
  qed (use goodD [OF g] good_refl in blast)
  then show "yields (good h0) (fold_result (RewriteName_match E d patch resolver) ms s)"
    by (rule yields_good [OF g])
qed

lemma safe_rewrite_match:
  assumes "m < length h0"
    and "\<And>h r. sound h \<Longrightarrow> I r \<Longrightarrow> m < length h \<Longrightarrow> yields (good h) (body m (h, r))"
  shows "safe_op h0 (rewrite_match E d patch k body m)"
proof (rule safe_op_grown)
  fix s :: "heap \<times> 'r" assume s: "sound (fst s)" "I (snd s)" "length h0 \<le> length (fst s)"
  have "yields (good (fst s)) (body m s)" using assms(2) [OF s(1,2)] assms(1) s(3) by simp
  from yields_validated [OF s(1,2) this, of "''validate conditions''" E d "Some m" "Conditions patch"]
  show "yields (good (fst s)) (rewrite_match E d patch k body m s)"
    unfolding rewrite_match_def using good_refl [OF s(1,2)]
    by (cases "kind_at (fst s) m = k") (simp_all only: simp_thms if_True if_False yields_Inr)
qed

lemma safe_rewrite_loop:
  assumes "d < length h0"
    and "\<And>m h r. sound h \<Longrightarrow> I r \<Longrightarrow> m < length h \<Longrightarrow> yields (good h) (body m (h, r))"
  shows "safe_op h0 (\<lambda>s. bind_result (wrap ''find matches'' (FindMatches E (fst s) d (Path patch)))
    (\<lambda>matches. fold_result (rewrite_match E d patch k body) matches s))"
  unfolding safe_op_def
proof (intro allI impI, rule safe_matches [OF assms(1)])
  fix s ms assume g: "good h0 s" and ms: "\<forall>m \<in> set ms. m < length (fst s)"
  have "yields (good (fst s)) (fold_result (rewrite_match E d patch k body) ms s)"
    using ms goodD [OF g] assms(2)
    by (intro safe_opD [OF safe_op_loop]) (auto intro!: safe_rewrite_match good_refl)
  then show "yields (good h0) (fold_result (rewrite_match E d patch k body) ms s)"
    by (rule yields_good [OF g])
qed

lemma safe_RewriteLabelKey:
  assumes "lawful E" "d < length h0"
  shows "safe_op h0 (RewriteLabelKey E d patch resolver)"
  unfolding RewriteLabelKey_def
proof (rule safe_rewrite_loop [OF assms(2)])
  fix m h r assume a: "sound h" "I r" "m < length h"
  have "yields (good h) (bind_result (TranslateLabelKey resolver (value_at h m) r)
      (\<lambda>(labelKey, r'). replace_with_value E d m (VStr labelKey) r' h))"
    using a assms(1) by (intro yields_call [OF label_key]) (auto intro: yields_replace_with_value)
  then show "yields (good h) (case (h, r) of (h, r) \<Rightarrow> if value_at h m = [] then Inr (h, r)
      else bind_result (TranslateLabelKey resolver (value_at h m) r)
        (\<lambda>(labelKey, r'). replace_with_value E d m (VStr labelKey) r' h))"
    using good_refl [of "(h, r)"] a by (simp add: yields_Inr)
qed

lemma safe_RewriteLabelSelector:
  assumes "lawful E" "d < length h0"
  shows "safe_op h0 (RewriteLabelSelector E d patch resolver)"
  unfolding RewriteLabelSelector_def
proof (rule safe_rewrite_loop [OF assms(2)], unfold prod.case)
  fix m h r assume a: "sound h" "I r" "m < length h"
  show "yields (good h) (bind_result (wrap ''marshal label selector'' (marshal_node E h m)) (\<lambda>y.
      bind_result (wrap ''unmarshal label selector'' (lift_error (UnmarshalStrict_string_map E y)))
      (\<lambda>sel. bind_result (TranslateLabelSelector resolver (Some sel) r) (\<lambda>(sel', r').
        replace_with_value E d m
          (string_map_value (case sel' of None \<Rightarrow> [] | Some l \<Rightarrow> l)) r' h))))"
    using a assms(1) soundD [OF a(1)]
    by (intro yields_bind [OF yields_wrap [OF yields_marshal_node]]
        yields_bind [OF yields_wrap [OF yields_lift_error]] yields_call [OF label_selector]
        yields_replace_with_value) auto
qed

lemma safe_RewriteLabelExpressionsSelector:
  assumes "lawful E" "d < length h0"
  shows "safe_op h0 (RewriteLabelExpressionsSelector E d patch resolver)"
  unfolding RewriteLabelExpressionsSelector_def
proof (rule safe_rewrite_loop [OF assms(2)], unfold prod.case)
  fix m h r assume a: "sound h" "I r" "m < length h"
  show "yields (good h) (bind_result (wrap ''marshal label selector'' (marshal_node E h m)) (\<lambda>y.
      bind_result (wrap ''unmarshal label selector'' (lift_error (k8syaml_Unmarshal_selector E y)))
      (\<lambda>sel. bind_result (TranslateLabelExpressionsSelector resolver (Some sel) r) (\<lambda>(sel', r').
        bind_result (wrap ''create node'' (NewJSONNode E (selector_value sel') h)) (\<lambda>(newNode, h').
        bind_result (ReplaceNode d m newNode h') (\<lambda>h''. Inr (h'', r')))))))"
    using a assms(1) soundD [OF a(1)]
    by (intro yields_bind [OF yields_wrap [OF yields_marshal_node]]
        yields_bind [OF yields_wrap [OF yields_lift_error]] yields_call [OF label_expressions]
        yields_new_and_replace yields_NewNode) auto
qed

section \<open>Lists of patches\<close>

lemma safe_on_heap:
  assumes "\<And>h. sound h \<Longrightarrow> length h0 \<le> length h \<Longrightarrow> yields (grows h) (f h)"
  shows "safe_op h0 (on_heap f)"
proof (rule safe_op_grown)
  fix s :: "heap \<times> 'r" assume "sound (fst s)" "I (snd s)" "length h0 \<le> length (fst s)"
  then show "yields (good (fst s)) (on_heap f s)"
    unfolding on_heap_def using assms by (intro yields_bind yields_Inr) (auto simp: good_def)
qed

lemma safe_fault: "f = (\<lambda>s. Inl (Err e)) \<Longrightarrow> safe_op h0 f"
  by (simp add: safe_op_def yields_Err)

lemma safe_applyPatch:
  assumes "lawful E" "d < length h0"
    and "\<forall>p. patch = Some p \<longrightarrow> Operation p \<noteq> PatchTypeCopyFromObject"
  shows "safe_op h0 (applyPatch E d obj2 resolver patch)"
proof (cases patch)
  case None
  then show ?thesis by (simp add: applyPatch_def safe_op_def yields_Panic)
next
  case (Some p)
  have "safe_op h0 (RewriteName E d p resolver)" "safe_op h0 (RewriteLabelKey E d p resolver)"
    "safe_op h0 (RewriteLabelExpressionsSelector E d p resolver)"
    "safe_op h0 (RewriteLabelSelector E d p resolver)"
    "safe_op h0 (on_heap (Replace E d p))" "safe_op h0 (on_heap (Remove E d p))"
    "safe_op h0 (on_heap (Add E d p))"
    using assms(1,2)
    by (auto intro!: safe_RewriteName safe_RewriteLabelKey safe_RewriteLabelSelector
        safe_RewriteLabelExpressionsSelector safe_on_heap yields_Replace yields_Remove yields_Add)
  then show ?thesis
    using Some assms(3) by (simp add: applyPatch_def safe_op_def yields_Err)
qed

lemma safe_ignorePatch:
  assumes "lawful E" "d < length h0"
  shows "safe_op h0 (ignorePatch E d obj2 resolver patch)"
proof (cases patch)
  case None
  then show ?thesis by (simp add: ignorePatch_def safe_op_def yields_Panic)
next
  case (Some p)
  let ?q = "emptyPatch\<lparr>Operation := PatchTypeRemove, Path := Path p\<rparr>"
  have "safe_op h0 (applyPatch E d obj2 resolver (Some ?q))"
    using assms by (intro safe_applyPatch) (auto simp: emptyPatch_def)
  then show ?thesis
    using Some by (simp add: ignorePatch_def safe_op_def yields_Inr yields_wrap)
qed

lemma safe_patch_nodes:
  assumes "lawful E" "d < length h0"
    and "\<forall>p. Some p \<in> set patches \<longrightarrow> Operation p \<noteq> PatchTypeCopyFromObject"
  shows "safe_op h0 (patch_nodes E d obj2 patches reversePatches resolver)"
proof -
  have "safe_op h0 (fold_result (\<lambda>p s. wrap ''apply patch'' (applyPatch E d obj2 resolver p s)) patches)"
    using assms by (intro safe_op_loop safe_op_wrap safe_applyPatch) auto
  moreover have "safe_op h0 (fold_result (ignorePatch E d obj2 resolver) reversePatches)"
    using assms by (intro safe_op_loop safe_ignorePatch)
  ultimately show ?thesis
    unfolding patch_nodes_def safe_op_def
    by (intro allI impI yields_bind [where Q = "good h0"]) blast+
qed

lemma safe_ApplyPatches:
  assumes "lawful E" "I r"
    and "\<forall>p. Some p \<in> set patches \<longrightarrow> Operation p \<noteq> PatchTypeCopyFromObject"
  shows "yields (\<lambda>(obj, r'). I r') (ApplyPatches E obj1 obj2 patches reversePatches resolver r)"
  unfolding ApplyPatches_def
proof (rule yields_bind [OF yields_wrap [OF yields_NewNode(2) [OF assms(1) sound_Nil]]], clarify)
  fix node1 h1 assume n1: "fresh_node [] (node1, h1)"
  let ?Q = "\<lambda>(node2 :: addr option, h2). sound h2 \<and> length h1 \<le> length h2"
  have h1: "sound h1" "node1 < length h1" using n1 by (auto simp: fresh_node_def grows_def)
  have second: "yields ?Q (case obj2 of None \<Rightarrow> Inr (None, h1)
      | Some o2 \<Rightarrow> bind_result (wrap ''new json yaml node'' (NewJSONNode E o2 h1))
          (\<lambda>(node2, h2). Inr (Some node2, h2)))"
    using h1(1) by (auto split: option.splits intro!: yields_Inr
        yields_bind [OF yields_wrap [OF yields_NewNode(2) [OF assms(1) h1(1)]]]
        simp: fresh_node_def grows_def)
  have rest: "yields (\<lambda>(obj, r'). I r')
      (bind_result (patch_nodes E node1 node2 patches reversePatches resolver (h2, r)) (\<lambda>(h3, r').
       bind_result (wrap ''marshal yaml'' (marshal_node E h3 node1)) (\<lambda>objYaml.
       bind_result (wrap ''convert object'' (lift_error (jsonyaml_Unmarshal_object E objYaml)))
         (\<lambda>obj1'. Inr (obj1', r')))))" if h2: "sound h2" "length h1 \<le> length h2" for node2 h2
  proof -
    have "good h2 (h2, r)" using good_refl [of "(h2, r)"] h2(1) assms(2) by simp
    moreover have "node1 < length h2" using h1(2) h2(2) by simp
    ultimately have "yields (good h2) (patch_nodes E node1 node2 patches reversePatches resolver (h2, r))"
      using safe_opD [OF safe_patch_nodes [OF assms(1) _ assms(3)]] by blast
    then show ?thesis
    proof (rule yields_bind, clarify)
    fix h3 r' assume g: "good h2 (h3, r')"
    show "yields (\<lambda>(obj, r'). I r') (bind_result (wrap ''marshal yaml'' (marshal_node E h3 node1)) (\<lambda>objYaml.
       bind_result (wrap ''convert object'' (lift_error (jsonyaml_Unmarshal_object E objYaml)))
         (\<lambda>obj1'. Inr (obj1', r'))))"
      using goodD [OF g] soundD
      by (intro yields_bind [OF yields_wrap [OF yields_marshal_node]]
          yields_bind [OF yields_wrap [OF yields_lift_error]] yields_Inr) auto
    qed
  qed
  show "yields (\<lambda>(obj, r'). I r') (bind_result (case obj2 of None \<Rightarrow> Inr (None, h1)
      | Some o2 \<Rightarrow> bind_result (wrap ''new json yaml node'' (NewJSONNode E o2 h1))
          (\<lambda>(node2, h2). Inr (Some node2, h2)))
      (\<lambda>(node2, h2). bind_result (patch_nodes E node1 node2 patches reversePatches resolver (h2, r)) (\<lambda>(h3, r').
       bind_result (wrap ''marshal yaml'' (marshal_node E h3 node1)) (\<lambda>objYaml.
       bind_result (wrap ''convert object'' (lift_error (jsonyaml_Unmarshal_object E objYaml)))
         (\<lambda>obj1'. Inr (obj1', r'))))))"
    by (rule yields_bind [OF second]) (auto intro: rest)
qed

end

end
