(* ===== verification/PatchEffects.thy ===== *)
theory PatchEffects
  imports PatchSafety
begin

text \<open>
  What the patch operations do to a document, for paths of plain field names (\<^verbatim>\<open>$.spec.name\<close>): the
  path is a walk along mapping keys; \<open>Add\<close> makes a missing path lead to the value, \<open>Replace\<close> changes
  the node it leads to, \<open>Remove\<close> makes it lead nowhere. Nodes elsewhere keep their contents.
\<close>

section \<open>The tree below a node\<close>

fun tree_at :: "heap \<Rightarrow> ytree \<Rightarrow> addr \<Rightarrow> bool"
  and trees_at :: "heap \<Rightarrow> ytree list \<Rightarrow> addr list \<Rightarrow> bool" where
  "tree_at h (YNode k tag v ts) a \<longleftrightarrow> a < length h \<and> kind_at h a = k \<and> ntag (node_at h a) = tag
     \<and> value_at h a = v \<and> trees_at h ts (content h a)"
| "trees_at h [] as \<longleftrightarrow> as = []"
| "trees_at h (t # ts) as \<longleftrightarrow> (case as of [] \<Rightarrow> False | a # as' \<Rightarrow> tree_at h t a \<and> trees_at h ts as')"

lemma tree_at_extends:
  "tree_at h t a \<Longrightarrow> extends h h' \<Longrightarrow> tree_at h' t a"
  "trees_at h ts as \<Longrightarrow> extends h h' \<Longrightarrow> trees_at h' ts as"
  by (induction h t a and h ts as rule: tree_at_trees_at.induct)
    (auto simp: extends_node_at dest: extends_length split: list.splits)

lemma alloc_tree_at:
  "alloc_tree t h = (a, h') \<Longrightarrow> tree_at h' t a"
  "alloc_trees ts h = (as, h') \<Longrightarrow> trees_at h' ts as"
proof (induction t h and ts h arbitrary: a h' and as h' rule: alloc_tree_alloc_trees.induct)
  case (1 k tag v ts h)
  obtain cs h1 where cs: "alloc_trees ts h = (cs, h1)" by fastforce
  let ?n = "\<lparr>nkind = k, ntag = tag, nvalue = v, ncontent = cs\<rparr>"
  have r: "a = length h1" "h' = h1 @ [?n]" using "1.prems" cs by (auto simp: alloc_def)
  have "trees_at (h1 @ [?n]) ts cs"
    using tree_at_extends(2) [OF "1.IH" [OF cs], of "h1 @ [?n]"] by (auto simp: extends_def)
  then show ?case by (simp add: r node_at_alloc)
next
  case (3 t ts h)
  obtain c h1 where c: "alloc_tree t h = (c, h1)" by fastforce
  obtain cs h2 where cs: "alloc_trees ts h1 = (cs, h2)" by fastforce
  have "extends h1 h2" using block_alloc_tree(2) [OF cs] by (simp add: block_def)
  then show ?case
    using "3.prems" "3.IH"(1) [OF c] "3.IH"(2) [OF c [symmetric] refl cs] c cs tree_at_extends(1) by auto
qed auto

text \<open>Reading follows the tree, when it does not run out of fuel.\<close>

lemma tree_at_read:
  "tree_at h t a \<Longrightarrow> read_tree_fuel n h a = Inr t \<or> read_tree_fuel n h a = panic Diverge"
  "trees_at h ts as \<Longrightarrow> read_trees_fuel n h as = Inr ts \<or> read_trees_fuel n h as = panic Diverge"
proof (induction h t a and h ts as arbitrary: n and n rule: tree_at_trees_at.induct)
  case (1 h k tag v ts a)
  then show ?case by (cases n) (auto, metis bind_result_simps)
next
  case (3 h t ts as)
  then obtain a as' where as: "as = a # as'" "tree_at h t a" "trees_at h ts as'"
    by (auto split: list.splits)
  with "3.IH"(1) [OF as(1,2), of n] "3.IH"(2) [OF as(1,3), of n] show ?case by auto
qed auto

lemma read_tree_at: "tree_at h t a \<Longrightarrow> wf_heap h \<Longrightarrow> read_tree h a = Inr t"
  using tree_at_read(1) [of h t a "Suc (length h)"] read_tree_total [of h a] by (auto simp: read_tree_def)

text \<open>Changes outside a closed set do not touch the trees inside it.\<close>

lemma tree_at_frame:
  assumes "closed_set S h" "\<And>x. x \<in> S \<Longrightarrow> node_at h' x = node_at h x" "length h \<le> length h'"
  shows "tree_at h t a \<Longrightarrow> a \<in> S \<Longrightarrow> tree_at h' t a"
    and "trees_at h ts as \<Longrightarrow> set as \<subseteq> S \<Longrightarrow> trees_at h' ts as"
  using assms
  by (induction h t a and h ts as rule: tree_at_trees_at.induct)
    (auto simp: closed_set_def split: list.splits)

section \<open>Walking along field names\<close>

fun walk :: "heap \<Rightarrow> addr \<Rightarrow> string list \<Rightarrow> addr option" where
  "walk h a [] = Some a"
| "walk h a (n # ns) =
     (if kind_at h a \<noteq> MappingNode then None
      else case find_key h n (content h a) of
          Inr (Some v) \<Rightarrow> walk h v ns
        | _ \<Rightarrow> None)"

definition field_chain :: "string list \<Rightarrow> ypath" where
  "field_chain names = foldr PChild names PIdentity"

definition dotted :: "string list \<Rightarrow> string" where
  "dotted names = ''$'' @ concat (map (\<lambda>n. ''.'' @ n) names)"

text \<open>A field name without the separators of the path language, and that is no array index.\<close>

definition plain_name :: "string \<Rightarrow> bool" where
  "plain_name n \<longleftrightarrow> n \<noteq> [] \<and> set n \<inter> {CHR ''.'', CHR ''$'', CHR '']''} = {} \<and> strconv_Atoi n = None"

text \<open>What the path library documents for such paths: a dollar sign and children, each by its name.\<close>

definition compiles_fields :: "external \<Rightarrow> bool" where
  "compiles_fields E \<longleftrightarrow> (\<forall>names. list_all plain_name names \<longrightarrow>
     compile_path E (dotted names) = Inr (PRoot (field_chain names)))"

text \<open>The stores of decoded documents: well-formed, keys and values in pairs, no node without a kind.\<close>

definition paired :: "heap \<Rightarrow> bool" where
  "paired h \<longleftrightarrow> wf_heap h \<and> (\<forall>a < length h. kind_at h a \<noteq> ZeroKind
     \<and> (kind_at h a = MappingNode \<longrightarrow> even (length (content h a))))"

definition doc_root :: "heap \<Rightarrow> addr \<Rightarrow> addr \<Rightarrow> bool" where
  "doc_root h d r \<longleftrightarrow> d < length h \<and> r < length h \<and> kind_at h d = DocumentNode \<and> content h d = [r]"

lemma find_key_even: "even (length cs) \<Longrightarrow> \<exists>r. find_key h n cs = Inr r"
  by (induction h n cs rule: find_key.induct) auto

lemma walk_append:
  "walk h a (ms @ ns) = (case walk h a ms of None \<Rightarrow> None | Some b \<Rightarrow> walk h b ns)"
  by (induction h a ms rule: walk.induct) (auto split: sum.splits option.splits)

lemma walk_step:
  "walk h a (n # ns) = Some b \<longleftrightarrow>
     kind_at h a = MappingNode \<and> (\<exists>v. find_key h n (content h a) = Inr (Some v) \<and> walk h v ns = Some b)"
  by (auto split: sum.splits option.splits)

lemma walk_reach: "walk h a ns = Some b \<Longrightarrow> reach h a b"
proof (induction ns arbitrary: a)
  case (Cons n ns)
  then show ?case unfolding walk_step using find_key_mem reach_step2 by blast
qed auto

lemma walk_in_range: "walk h a ns = Some b \<Longrightarrow> paired h \<Longrightarrow> a < length h \<Longrightarrow> b < length h"
  by (meson paired_def reach_in_range walk_reach wf_heap_def)

lemma path_find_walk:
  "paired h \<Longrightarrow> a < length h \<Longrightarrow>
     path_find F h root (field_chain ns) a = Inr (case walk h a ns of None \<Rightarrow> [] | Some b \<Rightarrow> [b])"
proof (induction ns arbitrary: a)
  case Nil
  then show ?case by (simp add: field_chain_def paired_def)
next
  case (Cons n ns)
  show ?case
  proof (cases "kind_at h a = MappingNode")
    case True
    obtain r where r: "find_key h n (content h a) = Inr r"
      using find_key_even [of "content h a" h n] Cons.prems True by (auto simp: paired_def)
    have "v < length h" if "r = Some v" for v
      using find_key_mem [of h n "content h a" v] content_range [of h v a] r that Cons.prems
      by (simp add: paired_def)
    with r True Cons show ?thesis by (cases r) (simp_all add: field_chain_def)
  qed (simp add: field_chain_def)
qed

lemma FindMatches_walk:
  assumes "compiles_fields E" "list_all plain_name ns" "paired h" "doc_root h d r"
  shows "FindMatches E h d (dotted ns) = Inr (case walk h r ns of None \<Rightarrow> [] | Some b \<Rightarrow> [b])"
  using assms path_find_walk [OF assms(3), of r "eval_filter E" d ns]
  by (simp add: FindMatches_def path_Find_def compiles_fields_def doc_root_def)

section \<open>Path strings\<close>

lemma dotted_snoc: "dotted (ns @ [n]) = dotted ns @ ''.'' @ n"
  by (simp add: dotted_def)

lemma dotted_parts:
  assumes "plain_name n"
  shows "getParentPath (dotted (ns @ [n])) = dotted ns" "getChildName (dotted (ns @ [n])) = n"
  using assms getParentPath_dot [of n "dotted ns"] getChildName_dot [of n "dotted ns"]
  by (auto simp: dotted_snoc plain_name_def)

lemma dotted_distinct: "dotted ns \<noteq> []" "dotted (ns @ [n]) \<noteq> dotted ns"
  by (simp_all add: dotted_def)

lemma dotted_no_sequence: "plain_name n \<Longrightarrow> \<not> isSequenceChild (dotted (ns @ [n]))"
  by (simp add: isSequenceChild_def dotted_parts plain_name_def)

lemma getParents_walk:
  assumes "compiles_fields E" "list_all plain_name (ns @ [n])" "paired h" "doc_root h d r"
  shows "getParents E h d (dotted (ns @ [n])) = Inr (case walk h r ns of None \<Rightarrow> [] | Some b \<Rightarrow> [b])"
  using assms path_find_walk [OF assms(3), of r "eval_filter E" d ns]
  by (simp add: getParents_def path_Find_def compiles_fields_def doc_root_def dotted_parts)

section \<open>Appending a field\<close>

text \<open>New keys behind the old ones leave every walk that succeeded before as it was.\<close>

lemma find_key_append:
  "even (length cs) \<Longrightarrow> find_key h n cs = Inr (Some v) \<Longrightarrow> find_key h n (cs @ ds) = Inr (Some v)"
  "even (length cs) \<Longrightarrow> find_key h n cs = Inr None \<Longrightarrow> find_key h n (cs @ ds) = find_key h n ds"
  by (induction h n cs rule: find_key.induct) (auto split: if_splits)

lemma find_key_cong:
  "(\<And>c. c \<in> set cs \<Longrightarrow> value_at h' c = value_at h c) \<Longrightarrow> find_key h' n cs = find_key h n cs"
  by (induction h n cs rule: find_key.induct) auto

text \<open>\<open>appends h h' p ext\<close>: \<open>h'\<close> has more nodes, and more content at \<open>p\<close> only.\<close>

definition appends :: "heap \<Rightarrow> heap \<Rightarrow> addr \<Rightarrow> addr list \<Rightarrow> bool" where
  "appends h h' p ext \<longleftrightarrow> length h \<le> length h' \<and> (\<forall>a < length h. kind_at h' a = kind_at h a
     \<and> ntag (node_at h' a) = ntag (node_at h a) \<and> value_at h' a = value_at h a
     \<and> content h' a = (if a = p then content h a @ ext else content h a))"

lemma appends_step:
  assumes "appends h h' p ext" "paired h" "a < length h" "kind_at h a = MappingNode"
    and "find_key h n (content h a) = Inr (Some v)"
  shows "find_key h' n (content h' a) = Inr (Some v)"
proof -
  have e: "even (length (content h a))" using assms by (simp add: paired_def)
  have "find_key h' n (content h a) = Inr (Some v)"
    using assms content_range by (subst find_key_cong [of _ h' h]) (auto simp: appends_def paired_def)
  with e find_key_append(1) [OF e] assms(1,3) show ?thesis by (auto simp: appends_def)
qed

lemma appends_walk:
  "appends h h' p ext \<Longrightarrow> paired h \<Longrightarrow> a < length h \<Longrightarrow> walk h a ns = Some b \<Longrightarrow> walk h' a ns = Some b"
proof (induction ns arbitrary: a)
  case (Cons n ns)
  then obtain v where v: "kind_at h a = MappingNode" "find_key h n (content h a) = Inr (Some v)" "walk h v ns = Some b"
    unfolding walk_step by blast
  have "v < length h" using find_key_mem [OF v(2)] content_range [of h v a] Cons.prems by (simp add: paired_def)
  with Cons v appends_step [OF Cons.prems(1-3) v(1,2)] show ?case unfolding walk_step by (auto simp: appends_def)
qed simp

section \<open>createPath leads to the value\<close>

lemma find_key_pair: "value_at h k = n \<Longrightarrow> find_key h n [k, v] = Inr (Some v)"
  by simp

text \<open>One wrapping of a value into a mapping with one key.\<close>

definition wrapped :: "string \<Rightarrow> addr \<Rightarrow> heap \<Rightarrow> heap" where
  "wrapped x v h = (h @ [key_node x]) @
     [\<lparr>nkind = MappingNode, ntag = ''!!map'', nvalue = [], ncontent = [length h, v]\<rparr>]"

lemma createMappingNode_wrapped:
  "plain_name x \<Longrightarrow> createMappingNode (dotted (ns @ [x])) (Some v) h = (Suc (length h), wrapped x v h)"
  by (simp add: createMappingNode_def alloc_def dotted_parts wrapped_def)

lemma node_at_wrapped:
  "a < length h \<Longrightarrow> node_at (wrapped x v h) a = node_at h a"
  "node_at (wrapped x v h) (length h) = key_node x"
  "node_at (wrapped x v h) (Suc (length h)) =
     \<lparr>nkind = MappingNode, ntag = ''!!map'', nvalue = [], ncontent = [length h, v]\<rparr>"
  "length (wrapped x v h) = Suc (Suc (length h))"
  by (auto simp: wrapped_def node_at_def nth_append)

lemma wrapped_paired:
  assumes "paired h" "v < length h"
  shows "paired (wrapped x v h)"
proof -
  have w: "wf_heap (h @ [key_node x])" using assms by (intro wf_alloc) (auto simp: paired_def key_node_def)
  have "wf_heap (wrapped x v h)"
    unfolding wrapped_def by (rule wf_alloc [OF w]) (use assms in auto)
  moreover have "kind_at (wrapped x v h) a \<noteq> ZeroKind
      \<and> (kind_at (wrapped x v h) a = MappingNode \<longrightarrow> even (length (content (wrapped x v h) a)))"
    if a: "a < length (wrapped x v h)" for a
  proof -
    consider "a < length h" | "a = length h" | "a = Suc (length h)"
      using a by (auto simp: node_at_wrapped less_Suc_eq)
    then show ?thesis using assms by cases (auto simp: node_at_wrapped key_node_def paired_def)
  qed
  ultimately show ?thesis by (simp add: paired_def)
qed

lemma wrapped_appends: "appends h (wrapped x v h) p []"
  by (simp add: appends_def node_at_wrapped)

lemma appends_trans: "appends h h1 p [] \<Longrightarrow> appends h1 h2 p ext \<Longrightarrow> appends h h2 p ext"
  by (auto simp: appends_def)

lemma wrapped_walk: "walk (wrapped x v h) (Suc (length h)) (x # ns) = walk (wrapped x v h) v ns"
  by (simp add: node_at_wrapped key_node_def)

definition extended :: "heap \<Rightarrow> addr \<Rightarrow> string \<Rightarrow> addr \<Rightarrow> heap" where
  "extended h p k v = set_content (h @ [key_node k]) p (content h p @ [length h, v])"

lemma attach_child_field:
  assumes "paired h" "p < length h" "kind_at h p = MappingNode" "plain_name k"
  shows "attach_child d (dotted (ns @ [k])) v p h = Inr (extended h p k v)"
  using assms Find_total [of h d "ContainsChild h p"]
  by (auto simp: attach_child_def dotted_parts alloc_def append_content_def extended_def node_at_alloc paired_def)

lemma extended_appends: "p < length h \<Longrightarrow> appends h (extended h p k v) p [length h, v]"
  by (auto simp: appends_def extended_def node_at_set_content node_at_alloc)

lemma extended_kinded:
  assumes "paired h" "p < length h" "a < length (extended h p k v)"
  shows "kind_at (extended h p k v) a \<noteq> ZeroKind
    \<and> (kind_at (extended h p k v) a = MappingNode \<longrightarrow> even (length (content (extended h p k v) a)))"
  using assms by (auto simp: extended_def node_at_set_content node_at_alloc paired_def key_node_def less_Suc_eq)

lemma extended_walk:
  assumes h: "paired h" "r < length h" and p: "walk h r pre = Some p" "kind_at h p = MappingNode"
    and k: "find_key h k (content h p) = Inr None"
  shows "walk (extended h p k v) r (pre @ [k]) = Some v"
proof -
  let ?h = "extended h p k v"
  have pl: "p < length h" using walk_in_range [OF p(1) h] .
  note app = extended_appends [OF pl, of k v]
  have e: "even (length (content h p))" using h(1) p(2) pl by (simp add: paired_def)
  have "find_key ?h k (content h p) = Inr None"
    using k app content_range [of h _ p] h(1) by (subst find_key_cong [of _ ?h h]) (auto simp: appends_def paired_def)
  moreover have "value_at ?h (length h) = k"
    using pl by (simp add: extended_def node_at_set_content node_at_alloc key_node_def)
  ultimately have "find_key ?h k (content ?h p) = Inr (Some v)"
    using find_key_append(2) [OF e, of ?h k "[length h, v]"] app pl by (simp add: appends_def)
  then show ?thesis
    using appends_walk [OF app h p(1)] app pl p(2) by (simp add: walk_append appends_def)
qed

lemma walk_missing_prefix:
  "walk h a (ns @ [n]) = None \<Longrightarrow> walk h a (ns @ n # ms) = None"
  by (simp add: walk_append split: option.splits sum.splits if_splits)

lemma createPath_fields:
  assumes E: "compiles_fields E"
  shows "list_all plain_name (pre @ k # post) \<Longrightarrow> paired h \<Longrightarrow> doc_root h d r \<Longrightarrow>
     walk h r pre = Some p \<Longrightarrow> kind_at h p = MappingNode \<Longrightarrow> find_key h k (content h p) = Inr None \<Longrightarrow>
     v < length h \<Longrightarrow> kind_at h v \<noteq> DocumentNode \<Longrightarrow>
     \<exists>h' ext. createPath E d (dotted (pre @ k # post)) v h = Inr h' \<and> appends h h' p ext
       \<and> walk h' r (pre @ k # post) = Some v
       \<and> (\<forall>a < length h'. kind_at h' a \<noteq> ZeroKind \<and> (kind_at h' a = MappingNode \<longrightarrow> even (length (content h' a))))"
proof (induction post arbitrary: v h rule: rev_induct)
  case Nil
  have p: "p < length h" using walk_in_range [OF Nil(4,2)] Nil(3) by (simp add: doc_root_def)
  have "createPath E d (dotted (pre @ [k])) v h = Inr (extended h p k v)"
    using Nil p attach_child_field [OF Nil(2) p Nil(5), of k d pre v] getParents_walk [OF E, of pre k h d r]
    by (subst createPath.simps) (simp add: unpack_document_def)
  then show ?case
    using extended_appends [OF p] extended_kinded [OF Nil(2) p] extended_walk [OF Nil(2) _ Nil(4-6)] Nil(3)
    by (auto simp: doc_root_def)
next
  case (snoc x post)
  note IH = snoc.IH and prems = snoc.prems
  let ?h = "wrapped x v h" and ?v = "Suc (length h)"
  have x: "plain_name x" and path: "list_all plain_name (pre @ k # post)" using prems(1) by auto
  have r: "r < length h" using prems(3) by (simp add: doc_root_def)
  have p: "p < length h" using walk_in_range [OF prems(4,2) r] .
  have none: "walk h r (pre @ k # post) = None"
    by (rule walk_missing_prefix) (use prems in \<open>simp add: walk_append\<close>)
  have "createPath E d (dotted (pre @ k # post @ [x])) v h = createPath E d (dotted (pre @ k # post)) ?v ?h"
    using prems(7,8) getParents_walk [OF E, of "pre @ k # post" x h d r] prems(1-3) none
      dotted_parts [OF x, of "pre @ k # post"] dotted_no_sequence [OF x, of "pre @ k # post"]
      createMappingNode_wrapped [OF x, of "pre @ k # post" v h] dotted_distinct(1)
      dotted_distinct(2) [of "pre @ k # post" x]
    by (subst createPath.simps) (simp add: unpack_document_def)
  moreover have "\<exists>h' ext. createPath E d (dotted (pre @ k # post)) ?v ?h = Inr h' \<and> appends ?h h' p ext
       \<and> walk h' r (pre @ k # post) = Some ?v
       \<and> (\<forall>a < length h'. kind_at h' a \<noteq> ZeroKind \<and> (kind_at h' a = MappingNode \<longrightarrow> even (length (content h' a))))"
  proof (rule IH [OF path wrapped_paired [OF prems(2,7)]])
    show "doc_root ?h d r" using prems(3) by (simp add: doc_root_def node_at_wrapped)
    show "walk ?h r pre = Some p" using appends_walk [OF wrapped_appends prems(2) r prems(4)] .
    show "kind_at ?h p = MappingNode" using prems(5) p by (simp add: node_at_wrapped)
    show "find_key ?h k (content ?h p) = Inr None"
      using prems(6) p content_range [of h _ p] prems(2)
      by (simp add: node_at_wrapped) (subst find_key_cong [of _ ?h h], auto simp: node_at_wrapped paired_def)
  qed (simp_all add: node_at_wrapped)
  ultimately obtain h' ext where h': "createPath E d (dotted (pre @ k # post @ [x])) v h = Inr h'"
    "appends ?h h' p ext" "walk h' r (pre @ k # post) = Some ?v"
    "\<forall>a < length h'. kind_at h' a \<noteq> ZeroKind \<and> (kind_at h' a = MappingNode \<longrightarrow> even (length (content h' a)))"
    by auto
  have "walk h' ?v [x] = Some v"
    by (rule appends_walk [OF h'(2) wrapped_paired [OF prems(2,7)]])
      (simp_all add: node_at_wrapped key_node_def)
  then have "walk h' r (pre @ k # post @ [x]) = Some v"
    using h'(3) walk_append [of h' r "pre @ k # post" "[x]"] by simp
  then show ?case using h' appends_trans [OF wrapped_appends h'(2)] by auto
qed

section \<open>A value becomes a tree\<close>

fun tree_paired :: "ytree \<Rightarrow> bool"
  and trees_paired :: "ytree list \<Rightarrow> bool" where
  "tree_paired (YNode k tag v ts) \<longleftrightarrow> k \<noteq> ZeroKind \<and> (k = MappingNode \<longrightarrow> even (length ts)) \<and> trees_paired ts"
| "trees_paired [] \<longleftrightarrow> True"
| "trees_paired (t # ts) \<longleftrightarrow> tree_paired t \<and> trees_paired ts"

text \<open>The decoder makes mappings of pairs, and no node without a kind.\<close>

definition decodes_paired :: "external \<Rightarrow> bool" where
  "decodes_paired E \<longleftrightarrow> (\<forall>s t. yaml_Unmarshal_node E s = Inr t \<longrightarrow> tree_paired t)"

text \<open>The tree that stands for a value: what the decoder reads from the encoded value.\<close>

definition value_tree :: "external \<Rightarrow> goval \<Rightarrow> ytree \<Rightarrow> bool" where
  "value_tree E v t \<longleftrightarrow> (\<exists>doc tag s. yaml_Marshal E v = Inr doc
     \<and> yaml_Unmarshal_node E doc = Inr (YNode DocumentNode tag s [t]))"

definition kinded :: "heap \<Rightarrow> bool" where
  "kinded h \<longleftrightarrow> (\<forall>a < length h. kind_at h a \<noteq> ZeroKind
     \<and> (kind_at h a = MappingNode \<longrightarrow> even (length (content h a))))"

lemma paired_kinded: "paired h \<longleftrightarrow> wf_heap h \<and> kinded h"
  by (simp add: paired_def kinded_def)

lemma alloc_trees_length: "alloc_trees ts h = (as, h') \<Longrightarrow> length as = length ts"
  by (induction ts arbitrary: h as h') (auto split: prod.splits)

lemma alloc_tree_kinded:
  "alloc_tree t h = (a, h') \<Longrightarrow> tree_paired t \<Longrightarrow> kinded h \<Longrightarrow> kinded h'"
  "alloc_trees ts h = (as, h') \<Longrightarrow> trees_paired ts \<Longrightarrow> kinded h \<Longrightarrow> kinded h'"
proof (induction t h and ts h arbitrary: a h' and as h' rule: alloc_tree_alloc_trees.induct)
  case (1 k tag v ts h)
  obtain cs h1 where cs: "alloc_trees ts h = (cs, h1)" by fastforce
  have "kinded h1" using "1.IH" [OF cs] "1.prems" by simp
  then show ?case
    using "1.prems" cs alloc_trees_length [OF cs]
    by (auto simp: alloc_def kinded_def node_at_alloc less_Suc_eq)
qed (auto split: prod.splits)

lemma NewNode_tree:
  assumes E: "lawful E" "decodes_paired E" and h: "paired h" and v: "value_tree E v t"
  obtains vd h1 w where "NewNode E v h = Inr (vd, h1)" "extends h h1" "paired h1"
    "kind_at h1 vd = DocumentNode" "content h1 vd = [w]" "w < length h1" "length h \<le> w"
    "kind_at h1 w \<noteq> DocumentNode" "tree_at h1 t w" "closed_set {length h ..< length h1} h1"
    "length h \<le> vd" "vd < length h1"
proof -
  obtain doc tag s where d: "yaml_Marshal E v = Inr doc"
    "yaml_Unmarshal_node E doc = Inr (YNode DocumentNode tag s [t])" using v by (auto simp: value_tree_def)
  let ?D = "YNode DocumentNode tag s [t]"
  obtain vd h1 where al: "alloc_tree ?D h = (vd, h1)" by fastforce
  have n: "NewNode E v h = Inr (vd, h1)" using d al by (simp add: NewNode_def node_from_text_def)
  have b: "block h {vd} h1" using block_alloc_tree(1) [OF al] .
  have ta: "tree_at h1 ?D vd" using alloc_tree_at(1) [OF al] .
  then obtain w where w: "content h1 vd = [w]" "tree_at h1 t w" by (auto split: list.splits)
  have "tree_paired ?D" using E(2) d(2) unfolding decodes_paired_def by blast
  then have "kinded h1" using alloc_tree_kinded(1) [OF al] h unfolding paired_kinded by blast
  then have p: "paired h1" using block_wf [OF b] h by (simp add: paired_kinded)
  have "doc_tree ?D" using E(1) d(2) by (auto simp: lawful_def decodes_documents_def)
  then have "nodoc t" by (auto simp: doc_tree_def)
  then have k: "kind_at h1 w \<noteq> DocumentNode" using w(2) by (cases t) auto
  have wl: "w < length h1" "length h \<le> w" using w(1) b content_range [of h1 w vd] p by (auto simp: block_def paired_def)
  have cl: "closed_set {length h ..< length h1} h1"
    using b unfolding closed_set_def block_def by fastforce
  show thesis
    by (rule that [OF n _ p _ w(1) wl k w(2) cl]) (use b ta in \<open>auto simp: block_def\<close>)
qed

section \<open>Add creates what is missing\<close>

lemma createPath_unpacks:
  assumes "kind_at h vd = DocumentNode" "content h vd = [w]" "kind_at h w \<noteq> DocumentNode"
  shows "createPath E d path vd h = createPath E d path w h"
  using assms by (simp add: createPath.simps unpack_document_def first_child_def)

text \<open>A path whose first missing field would be a field of an existing mapping.\<close>

definition addable :: "heap \<Rightarrow> addr \<Rightarrow> string list \<Rightarrow> bool" where
  "addable h r names \<longleftrightarrow> (\<exists>pre k post q. names = pre @ k # post \<and> walk h r pre = Some q
     \<and> kind_at h q = MappingNode \<and> find_key h k (content h q) = Inr None)"

lemma paired_extends_walk:
  assumes "paired h" "extends h h1" "a < length h" "walk h a ns = Some b"
  shows "walk h1 a ns = Some b"
proof -
  have "appends h h1 (length h) []"
    using assms(2) extends_length by (auto simp: appends_def extends_node_at)
  from appends_walk [OF this assms(1,3,4)] show ?thesis .
qed


end
