(* ===== verification/PatchFields.thy ===== *)
theory PatchFields
  imports PatchEffects
begin

text \<open>
  \<open>Replace\<close> and \<open>Remove\<close> of a field, as a set and an unset at a path: the path leads to the new value
  (nowhere), and every path that does not run through the field leads where it led before. The
  documents are trees, as decoded ones are (\<open>tree_shaped\<close>); the laws fail on a graph with shared
  nodes, where \<^verbatim>\<open>Find\<close> may return another parent than the one on the path.
\<close>

section \<open>Trees\<close>

definition tree_shaped :: "heap \<Rightarrow> bool" where
  "tree_shaped h \<longleftrightarrow> (\<forall>a. distinct (content h a))
     \<and> (\<forall>p q c. c \<in> set (content h p) \<longrightarrow> c \<in> set (content h q) \<longrightarrow> p = q)"

lemma tree_shapedD:
  "tree_shaped h \<Longrightarrow> distinct (content h a)"
  "tree_shaped h \<Longrightarrow> c \<in> set (content h p) \<Longrightarrow> c \<in> set (content h q) \<Longrightarrow> p = q"
  by (auto simp: tree_shaped_def)

lemma tree_shaped_Nil: "tree_shaped []"
  by (simp add: tree_shaped_def)

text \<open>Decoding builds trees: the new roots are nobody's children.\<close>

lemma content_extends:
  assumes "extends h h'" "closed_heap h"
  shows "c < length h \<Longrightarrow> block h as h' \<Longrightarrow> c \<in> set (content h' p) \<Longrightarrow> c \<in> set (content h p)"
  by (metis assms(1) block_def extends_node_at leD leI)

lemma alloc_tree_shaped:
  "alloc_tree t h = (a, h') \<Longrightarrow> tree_shaped h \<Longrightarrow> closed_heap h \<Longrightarrow>
     tree_shaped h' \<and> (\<forall>p. a \<notin> set (content h' p))"
  "alloc_trees ts h = (as, h') \<Longrightarrow> tree_shaped h \<Longrightarrow> closed_heap h \<Longrightarrow>
     tree_shaped h' \<and> distinct as \<and> (\<forall>p. set as \<inter> set (content h' p) = {})"
proof (induction t h and ts h arbitrary: a h' and as h' rule: alloc_tree_alloc_trees.induct)
  case (1 k tag v ts h)
  obtain cs h1 where cs: "alloc_trees ts h = (cs, h1)" by fastforce
  let ?n = "\<lparr>nkind = k, ntag = tag, nvalue = v, ncontent = cs\<rparr>"
  have r: "a = length h1" "h' = h1 @ [?n]" using "1.prems" cs by (auto simp: alloc_def)
  have b: "block h (set cs) h1" using block_alloc_tree(2) [OF cs] .
  have cl: "closed_heap h1" using block_closed [OF b "1.prems"(3)] .
  have ih: "tree_shaped h1" "distinct cs" "\<And>p. set cs \<inter> set (content h1 p) = {}"
    using "1.IH" [OF cs "1.prems"(2,3)] by auto
  have "tree_shaped h'"
    using ih by (auto simp: r tree_shaped_def node_at_alloc)
  moreover have "a \<notin> set (content h' p)" for p
    using closed_heapD [OF cl, of a p] b by (auto simp: r node_at_alloc block_def)
  ultimately show ?case by blast
next
  case (3 t ts h)
  obtain c h1 where c: "alloc_tree t h = (c, h1)" by fastforce
  obtain cs h2 where cs: "alloc_trees ts h1 = (cs, h2)" by fastforce
  note b = block_alloc_tree(1) [OF c] block_alloc_tree(2) [OF cs]
  have cl: "closed_heap h1" using block_closed [OF b(1) "3.prems"(3)] .
  have ih1: "tree_shaped h1" "\<And>p. c \<notin> set (content h1 p)"
    using "3.IH"(1) [OF c "3.prems"(2,3)] by auto
  have ih2: "tree_shaped h2" "distinct cs" "\<And>p. set cs \<inter> set (content h2 p) = {}"
    using "3.IH"(2) [OF c [symmetric] refl cs ih1(1) cl] by auto
  have c1: "c < length h1" using b(1) by (auto simp: block_def)
  have "c \<notin> set (content h2 p)" for p
    using content_extends [of h1 h2 c "set cs" p] b(2) cl c1 ih1(2) by (auto simp: block_def)
  moreover have "c \<notin> set cs" using c1 b(2) by (auto simp: block_def)
  moreover have "as = c # cs" "h' = h2" using "3.prems"(1) c cs by simp_all
  ultimately show ?case using ih2 by simp
qed simp

section \<open>Paths in a tree\<close>

lemma find_key_split:
  "find_key h k cs = Inr (Some m) \<Longrightarrow> \<exists>pre key post. cs = pre @ key # m # post \<and> even (length pre)
     \<and> value_at h key = k \<and> find_key h k pre = Inr None"
proof (induction h k cs rule: find_key.induct)
  case (3 h name k v rest)
  show ?case
  proof (cases "value_at h k = name")
    case True
    with "3.prems" show ?thesis by (intro exI [of _ "[]"]) auto
  next
    case False
    with 3 obtain pre key post where "rest = pre @ key # m # post" "even (length pre)" "value_at h key = name"
      "find_key h name pre = Inr None" by auto
    with False show ?thesis by (intro exI [of _ "k # v # pre"]) auto
  qed
qed (auto split: if_splits)

lemma find_key_at:
  "even (length pre) \<Longrightarrow> find_key h n (pre @ cs) =
     (case find_key h n pre of Inr None \<Rightarrow> find_key h n cs | r \<Rightarrow> r)"
  using find_key_append [of pre h n] find_key_even [of pre h n] by (auto split: option.splits)

lemma find_key_inj:
  assumes "distinct cs" "find_key h k cs = Inr (Some m)" "find_key h n cs = Inr (Some m)"
  shows "k = n"
proof -
  obtain pre key post where a: "cs = pre @ key # m # post" "value_at h key = k" "even (length pre)"
    using find_key_split [OF assms(2)] by blast
  obtain pre' key' post' where b: "cs = pre' @ key' # m # post'" "value_at h key' = n"
    using find_key_split [OF assms(3)] by blast
  have "(pre @ [key]) @ m # post = (pre' @ [key']) @ m # post'" using a b by simp
  then have "pre @ [key] = pre' @ [key']"
    using assms(1) a b by (subst (asm) append_Cons_eq_iff) auto
  with a b show ?thesis by simp
qed

lemma walk_snoc:
  "walk h a (ns @ [n]) = Some b \<longleftrightarrow> (\<exists>p. walk h a ns = Some p \<and> kind_at h p = MappingNode
     \<and> find_key h n (content h p) = Inr (Some b))"
  unfolding walk_append by (auto split: option.splits sum.splits if_splits)

lemma child_not_reached: "wf_heap h \<Longrightarrow> a \<in> set (content h p) \<Longrightarrow> \<not> reach h a p"
  by (auto simp: wf_heap_def acyclic_def reach_def child_rel_def dest: rtrancl_into_trancl1)

text \<open>In a tree only one path leads to a node.\<close>

lemma walk_unique:
  assumes "tree_shaped h" "wf_heap h" "doc_root h d r"
  shows "walk h r ns = Some b \<Longrightarrow> walk h r ms = Some b \<Longrightarrow> ns = ms"
proof (induction ns arbitrary: b ms rule: rev_induct)
  case Nil
  show ?case
  proof (cases ms rule: rev_cases)
    case (snoc ms' m)
    then obtain p where "walk h r ms' = Some p" "find_key h m (content h p) = Inr (Some r)"
      using Nil walk_snoc [of h r ms' m] by auto
    then show ?thesis
      using walk_reach find_key_mem child_not_reached [OF assms(2)] by blast
  qed simp
next
  case (snoc n ns)
  obtain p where p: "walk h r ns = Some p" "find_key h n (content h p) = Inr (Some b)"
    using snoc.prems(1) by (auto simp: walk_snoc)
  show ?case
  proof (cases ms rule: rev_cases)
    case Nil
    then show ?thesis
      using p snoc.prems walk_reach find_key_mem child_not_reached [OF assms(2)] by fastforce
  next
    case [simp]: (snoc ms' m)
    obtain q where q: "walk h r ms' = Some q" "find_key h m (content h q) = Inr (Some b)"
      using snoc.prems(2) by (auto simp: walk_snoc)
    have "p = q" using tree_shapedD(2) [OF assms(1)] p(2) q(2) find_key_mem by blast
    then show ?thesis
      using snoc.IH [OF p(1)] p q find_key_inj [OF tree_shapedD(1) [OF assms(1)]] by auto
  qed
qed

section \<open>Changing one field\<close>

text \<open>\<open>edits h h' q k\<close>: only the content of \<open>q\<close> differs, and there only the value of the key \<open>k\<close>.\<close>

definition edits :: "heap \<Rightarrow> heap \<Rightarrow> addr \<Rightarrow> string \<Rightarrow> bool" where
  "edits h h' q k \<longleftrightarrow> (\<forall>a < length h. kind_at h' a = kind_at h a \<and> value_at h' a = value_at h a
       \<and> (a \<noteq> q \<longrightarrow> content h' a = content h a))
     \<and> (\<forall>n v. n \<noteq> k \<longrightarrow> find_key h n (content h q) = Inr (Some v) \<longrightarrow>
         find_key h' n (content h' q) = Inr (Some v))"

lemma edits_walk:
  assumes e: "edits h h' q k" and h: "tree_shaped h" "paired h" "doc_root h d r" and q: "walk h r pre = Some q"
  shows "walk h r ns = Some b \<Longrightarrow> (\<nexists>rest. ns = pre @ k # rest) \<Longrightarrow> walk h' r ns = Some b"
proof (induction ns arbitrary: b rule: rev_induct)
  case (snoc n ns)
  obtain p where p: "walk h r ns = Some p" "kind_at h p = MappingNode" "find_key h n (content h p) = Inr (Some b)"
    using snoc.prems(1) by (auto simp: walk_snoc)
  have "\<nexists>rest. ns = pre @ k # rest" using snoc.prems(2) by auto
  with snoc.IH [OF p(1)] have w: "walk h' r ns = Some p" by blast
  have wf: "wf_heap h" using h(2) by (simp add: paired_def)
  have pl: "p < length h" using walk_in_range [OF p(1) h(2)] h(3) by (simp add: doc_root_def)
  have "find_key h' n (content h' p) = Inr (Some b)"
  proof (cases "p = q")
    case True
    with walk_unique [OF h(1) wf h(3) p(1)] q have "ns = pre" by simp
    with snoc.prems(2) have "n \<noteq> k" by auto
    with e p(3) True show ?thesis by (simp add: edits_def)
  next
    case False
    have "find_key h' n (content h p) = find_key h n (content h p)"
      using e content_range [OF wf] by (intro find_key_cong) (auto simp: edits_def)
    with e False pl p(3) show ?thesis by (simp add: edits_def)
  qed
  with w e pl p(2) show ?case by (auto simp: walk_snoc edits_def)
qed simp

lemma edits_walk_field:
  assumes e: "edits h h' q k" and h: "tree_shaped h" "paired h" "doc_root h d r"
    and q: "walk h r pre = Some q" "kind_at h q = MappingNode" and m: "find_key h' k (content h' q) = Inr v"
  shows "walk h' r (pre @ [k]) = v"
proof -
  have "q < length h" using walk_in_range [OF q(1) h(2)] h(3) by (simp add: doc_root_def)
  then have "kind_at h' q = MappingNode" using e q(2) by (simp add: edits_def)
  moreover have "walk h' r pre = Some q" using edits_walk [OF e h q(1) q(1)] by simp
  ultimately show ?thesis using m by (simp add: walk_append split: option.splits)
qed

text \<open>The parent \<^verbatim>\<open>Find\<close> returns is the one on the path.\<close>

lemma Find_parent:
  assumes "tree_shaped h" "wf_heap h" "reach h d q" "m \<in> set (content h q)"
  shows "Find h d (ContainsChild h m) = Inr (Some q)"
proof -
  obtain p where p: "Find h d (ContainsChild h m) = Inr p" using Find_total [OF assms(2)] by blast
  then obtain p' where "p = Some p'"
    using Find_None [OF _ assms(3), of "ContainsChild h m"] assms(4) by (cases p) (auto simp: ContainsChild_def)
  moreover from this have "p' = q"
    using Find_sound [of h d] p assms(4) tree_shapedD(2) [OF assms(1)] by (fastforce simp: ContainsChild_def)
  ultimately show ?thesis using p by simp
qed

lemma ChildIndex_at: "m \<notin> set pre \<Longrightarrow> ChildIndex (pre @ m # post) m = int (length pre)"
proof -
  have "index_of (pre @ m # post) m i = Some (i + length pre)" if "m \<notin> set pre" for i
    using that by (induction pre arbitrary: i) auto
  then show "m \<notin> set pre \<Longrightarrow> ?thesis" by (simp add: ChildIndex_def)
qed

lemma replaceChildAtIndex_at:
  assumes "content h p = pre @ m # post" "m \<notin> set pre"
  shows "replaceChildAtIndex h p m v = Inr (pre @ content h v @ post)"
  using assms ChildIndex_at [OF assms(2), of post]
  by (simp add: replaceChildAtIndex_def slice_def nat_add_distrib)

lemma removeProperty_at:
  assumes "content h p = pre @ key # m # post" "m \<notin> set pre" "key \<noteq> m"
  shows "removeProperty h p m = Inr (pre @ post)"
  using assms ChildIndex_at [of m "pre @ [key]" post]
  by (simp add: removeProperty_def slice_def nat_add_distrib)

text \<open>The field of a mapping of a tree: where its value is, and what the two rewritings leave there.\<close>

lemma field_replaced:
  assumes h: "tree_shaped h" "paired h" "q < length h" "kind_at h q = MappingNode"
    and m: "find_key h k (content h q) = Inr (Some m)" and v: "content h v = [w]"
  shows "\<exists>cs. replaceChildAtIndex h q m v = Inr cs \<and> edits h (set_content h q cs) q k
    \<and> find_key (set_content h q cs) k cs = Inr (Some w)"
proof -
  let ?h = "\<lambda>cs. set_content h q cs"
  obtain pre key post where c: "content h q = pre @ key # m # post" "even (length pre)" "value_at h key = k"
    "find_key h k pre = Inr None" using find_key_split [OF m] by blast
  have "m \<notin> set (pre @ [key])" using tree_shapedD(1) [OF h(1), of q] c(1) by auto
  then have r: "replaceChildAtIndex h q m v = Inr (pre @ key # w # post)"
    using replaceChildAtIndex_at [of h q "pre @ [key]" m post v] c(1) v by simp
  have k: "find_key (?h cs) n xs = find_key h n xs" for cs n xs
    using h(3) by (intro find_key_cong) (simp add: node_at_set_content)
  have "edits h (?h (pre @ key # w # post)) q k"
    using c h(3) by (auto simp: edits_def node_at_set_content k find_key_at split: option.splits sum.splits)
  moreover have "find_key (?h (pre @ key # w # post)) k (pre @ key # w # post) = Inr (Some w)"
    using c by (simp add: k find_key_at)
  ultimately show ?thesis using r by blast
qed

text \<open>Keys of a mapping are unique in decoded documents.\<close>

definition unique_keys :: "heap \<Rightarrow> addr \<Rightarrow> bool" where
  "unique_keys h q \<longleftrightarrow> distinct (map (value_at h) (mapping_keys (content h q)))"

lemma find_key_None: "even (length cs) \<Longrightarrow> k \<notin> value_at h ` set (mapping_keys cs) \<Longrightarrow> find_key h k cs = Inr None"
  by (induction h k cs rule: find_key.induct) auto

lemma mapping_keys_append: "even (length xs) \<Longrightarrow> mapping_keys (xs @ ys) = mapping_keys xs @ mapping_keys ys"
  by (induction xs rule: mapping_keys.induct) auto

lemma field_removed:
  assumes h: "tree_shaped h" "paired h" "q < length h" "kind_at h q = MappingNode" "unique_keys h q"
    and m: "find_key h k (content h q) = Inr (Some m)"
  shows "\<exists>cs. removeProperty h q m = Inr cs \<and> edits h (set_content h q cs) q k
    \<and> find_key (set_content h q cs) k cs = Inr None"
proof -
  let ?h = "\<lambda>cs. set_content h q cs"
  obtain pre key post where c: "content h q = pre @ key # m # post" "even (length pre)" "value_at h key = k"
    "find_key h k pre = Inr None" using find_key_split [OF m] by blast
  have "m \<notin> set pre" "key \<noteq> m" using tree_shapedD(1) [OF h(1), of q] c(1) by auto
  then have r: "removeProperty h q m = Inr (pre @ post)" using removeProperty_at c(1) by blast
  have k: "find_key (?h cs) n xs = find_key h n xs" for cs n xs
    using h(3) by (intro find_key_cong) (simp add: node_at_set_content)
  have "even (length (content h q))" using h(2-4) by (simp add: paired_def)
  then have "even (length post)" using c(1,2) by simp
  moreover have "k \<notin> value_at h ` set (mapping_keys post)"
    using h(5) c by (auto simp: unique_keys_def mapping_keys_append)
  ultimately have "find_key h k post = Inr None" by (rule find_key_None)
  then have "find_key (?h (pre @ post)) k (pre @ post) = Inr None" using c by (simp add: k find_key_at)
  moreover have "edits h (?h (pre @ post)) q k"
    using c h(3) by (auto simp: edits_def node_at_set_content k find_key_at split: option.splits sum.splits)
  ultimately show ?thesis using r by blast
qed


section \<open>Replace and Remove\<close>

lemma NewNode_shaped:
  assumes "NewNode E v h = Inr (vd, h1)" "tree_shaped h" "closed_heap h"
  shows "tree_shaped h1"
  using assms alloc_tree_shaped(1) by (auto simp: NewNode_def node_from_text_def split: sum.splits)

lemma walk_last:
  assumes "walk h r names = Some m" "names \<noteq> []"
  obtains pre k q where "names = pre @ [k]" "walk h r pre = Some q" "kind_at h q = MappingNode"
    "find_key h k (content h q) = Inr (Some m)"
  using assms by (metis rev_exhaust walk_snoc)

text \<open>The paths outside a field.\<close>

definition keeps_walks :: "heap \<Rightarrow> heap \<Rightarrow> addr \<Rightarrow> string list \<Rightarrow> bool" where
  "keeps_walks h h' r names \<longleftrightarrow> (\<forall>ns b. walk h r ns = Some b \<longrightarrow> (\<nexists>rest. ns = names @ rest) \<longrightarrow> walk h' r ns = Some b)"

lemma edits_keeps_walks:
  assumes "edits h h' q k" "tree_shaped h" "paired h" "doc_root h d r" "walk h r pre = Some q"
  shows "keeps_walks h h' r (pre @ [k])"
  using edits_walk [OF assms] by (simp add: keeps_walks_def)

lemma kinded_doc_root:
  "doc_root h d r \<Longrightarrow> q < length h \<Longrightarrow> kind_at h q = MappingNode \<Longrightarrow> doc_root (set_content h q cs) d r"
  by (auto simp: doc_root_def node_at_set_content)

lemma kinded_set_content:
  "kinded h \<Longrightarrow> even (length cs) \<Longrightarrow> kinded (set_content h q cs)"
  by (auto simp: kinded_def node_at_set_content)

text \<open>Replacing the node at the end of a path by the node of a new document.\<close>

lemma ReplaceNode_fields:
  assumes E: "lawful E" "decodes_paired E"
    and h: "sound h" "paired h" "tree_shaped h" "doc_root h d r"
    and p: "names \<noteq> []" "walk h r names = Some m"
    and v: "value_tree E v t"
  obtains vd h1 h' w where "NewNode E v h = Inr (vd, h1)" "ReplaceNode d m vd h1 = Inr h'"
    "walk h' r names = Some w" "read_tree h' w = Inr t" "keeps_walks h h' r names"
proof -
  obtain vd h1 w where n: "NewNode E v h = Inr (vd, h1)" "extends h h1" "paired h1"
    "content h1 vd = [w]" "w < length h1" "length h \<le> w" "tree_at h1 t w" "closed_set {length h ..< length h1} h1"
    using NewNode_tree [OF E h(2) v] by metis
  have cl: "closed_heap h" using h(2) by (simp add: paired_def wf_heap_def)
  have s1: "tree_shaped h1" using NewNode_shaped [OF n(1) h(3) cl] .
  have r: "r < length h" and d: "d < length h" using h(4) by (auto simp: doc_root_def)
  have old: "walk h1 r ns = Some b" if "walk h r ns = Some b" for ns b
    using paired_extends_walk [OF h(2) n(2) r that] .
  have d1: "doc_root h1 d r"
    using h(4) extends_node_at [OF n(2)] extends_length [OF n(2)] by (auto simp: doc_root_def)
  obtain pre k q where q: "names = pre @ [k]" "walk h1 r pre = Some q" "kind_at h1 q = MappingNode"
    "find_key h1 k (content h1 q) = Inr (Some m)" and qw: "walk h r pre = Some q"
  proof (rule walk_last [OF p(2,1)])
    fix pre k q assume a: "names = pre @ [k]" "walk h r pre = Some q"
    from old [OF p(2)] old [OF a(2)] a(1) show thesis by (intro that [OF a(1) _ _ _ a(2)]) (auto simp: walk_snoc)
  qed
  have ql: "q < length h" using walk_in_range [OF qw h(2) r] .
  then have q1: "q < length h1" using extends_length [OF n(2)] by simp
  obtain cs where c: "replaceChildAtIndex h1 q m vd = Inr cs" "edits h1 (set_content h1 q cs) q k"
    "find_key (set_content h1 q cs) k cs = Inr (Some w)"
    using field_replaced [OF s1 n(3) q1 q(3,4) n(4)] by blast
  let ?h = "set_content h1 q cs"
  have dq: "reach h1 d q"
    using walk_reach [OF q(2)] d1 reach_step2 [of r h1 d q] by (auto simp: doc_root_def)
  have "Find h1 d (ContainsChild h1 m) = Inr (Some q)"
    using Find_parent [OF s1 _ dq find_key_mem [OF q(4)]] n(3) by (simp add: paired_def)
  then have rep: "ReplaceNode d m vd h1 = Inr ?h" using c(1) by (simp add: ReplaceNode_def)
  have "fresh_node h (vd, h1)" using yields_NewNode(1) [OF E(1) h(1), of v] n(1) by (simp add: yields_def)
  note sep = fresh_node_sep [OF this h(1) d]
  have "m < length h" using walk_in_range [OF p(2) h(2) r] .
  then have "yields (evolves {length h ..} h1) (ReplaceNode d m vd h1)"
    using sep by (intro yields_ReplaceNode) auto
  then have wf: "wf_heap ?h" using rep sep_wf by (auto simp: yields_def evolves_def)
  have "tree_at ?h t w"
    by (rule tree_at_frame(1) [OF n(8) _ _ n(7)]) (use ql n(5,6) in \<open>auto simp: node_at_set_content\<close>)
  then have "read_tree ?h w = Inr t" using read_tree_at wf by blast
  moreover have "walk ?h r names = Some w"
    using edits_walk_field [OF c(2) s1 n(3) d1 q(2,3)] c(3) q1 q(1) by (simp add: node_at_set_content)
  moreover have "keeps_walks h ?h r names"
    using edits_keeps_walks [OF c(2) s1 n(3) d1 q(2)] old by (auto simp: keeps_walks_def q(1))
  ultimately show thesis using that n(1) rep by blast
qed




end
