(* ===== verification/Unstructured.thy ===== *)
theory Unstructured
  imports GoStrings "HOL-Library.AList"
begin

text \<open>
  Kubernetes objects as the controllers hold them: \<^verbatim>\<open>unstructured.Unstructured\<close>, a JSON value with
  accessors for the metadata (\<^verbatim>\<open>helpers.go\<close> and \<^verbatim>\<open>unstructured.go\<close> of \<^verbatim>\<open>k8s.io/apimachinery\<close>), and the
  comparison \<^verbatim>\<open>equality.Semantic.DeepEqual\<close>. A Go map is an association list with distinct keys.
\<close>

section \<open>Nested fs\<close>

fun NestedFieldNoCopy :: "goval \<Rightarrow> string list \<Rightarrow> goval option result" where
  "NestedFieldNoCopy val [] = Inr (Some val)"
| "NestedFieldNoCopy VNil (field # fs) = Inr None"
| "NestedFieldNoCopy (VMap m) (field # fs) =
     (case map_of m field of None \<Rightarrow> Inr None | Some v \<Rightarrow> NestedFieldNoCopy v fs)"
| "NestedFieldNoCopy _ (field # fs) = fail (''accessor error: '' @ field)"

definition nested :: "goval \<Rightarrow> string list \<Rightarrow> goval option" where
  "nested obj fs = (case NestedFieldNoCopy obj fs of Inl e \<Rightarrow> None | Inr v \<Rightarrow> v)"

definition getNestedString :: "goval \<Rightarrow> string list \<Rightarrow> string" where
  "getNestedString obj fs = (case nested obj fs of Some (VStr s) \<Rightarrow> s | _ \<Rightarrow> [])"

fun string_entries :: "(string \<times> goval) list \<Rightarrow> (string \<times> string) list option" where
  "string_entries [] = Some []"
| "string_entries ((k, v) # es) =
     (case v of
        VStr s \<Rightarrow> map_option (\<lambda>r. (k, s) # r) (string_entries es)
      | _ \<Rightarrow> None)"

text \<open>A missing map, or one with a value that is no string, is nil.\<close>

definition NestedStringMap :: "goval \<Rightarrow> string list \<Rightarrow> (string \<times> string) list option" where
  "NestedStringMap obj fs =
     (case nested obj fs of Some (VMap m) \<Rightarrow> string_entries m | _ \<Rightarrow> None)"

fun SetNestedField :: "goval \<Rightarrow> string list \<Rightarrow> goval \<Rightarrow> goval" where
  "SetNestedField v [field] (VMap m) = VMap (AList.update field v m)"
| "SetNestedField v (field # f # fs) (VMap m) =
     (case map_of m field of
        None \<Rightarrow> VMap (AList.update field (SetNestedField v (f # fs) (VMap [])) m)
      | Some (VMap m') \<Rightarrow> VMap (AList.update field (SetNestedField v (f # fs) (VMap m')) m)
      | Some _ \<Rightarrow> VMap m)"
| "SetNestedField v fs obj = obj"

fun RemoveNestedField :: "string list \<Rightarrow> goval \<Rightarrow> goval" where
  "RemoveNestedField [field] (VMap m) = VMap (AList.delete field m)"
| "RemoveNestedField (field # f # fs) (VMap m) =
     (case map_of m field of
        Some (VMap m') \<Rightarrow> VMap (AList.update field (RemoveNestedField (f # fs) (VMap m')) m)
      | _ \<Rightarrow> VMap m)"
| "RemoveNestedField fs obj = obj"

section \<open>Metadata\<close>

abbreviation meta_field :: "string \<Rightarrow> string list" where
  "meta_field f \<equiv> [''metadata'', f]"

definition GetName :: "goval \<Rightarrow> string" where
  "GetName obj = getNestedString obj (meta_field ''name'')"

definition GetNamespace :: "goval \<Rightarrow> string" where
  "GetNamespace obj = getNestedString obj (meta_field ''namespace'')"

definition set_or_remove :: "string \<Rightarrow> string \<Rightarrow> goval \<Rightarrow> goval" where
  "set_or_remove f s obj =
     (if s = [] then RemoveNestedField (meta_field f) obj else SetNestedField (VStr s) (meta_field f) obj)"

definition SetName :: "string \<Rightarrow> goval \<Rightarrow> goval" where
  "SetName = set_or_remove ''name''"

definition SetNamespace :: "string \<Rightarrow> goval \<Rightarrow> goval" where
  "SetNamespace = set_or_remove ''namespace''"

definition GetLabels :: "goval \<Rightarrow> (string \<times> string) list option" where
  "GetLabels obj = NestedStringMap obj (meta_field ''labels'')"

definition GetAnnotations :: "goval \<Rightarrow> (string \<times> string) list option" where
  "GetAnnotations obj = NestedStringMap obj (meta_field ''annotations'')"

definition set_string_map :: "string \<Rightarrow> (string \<times> string) list option \<Rightarrow> goval \<Rightarrow> goval" where
  "set_string_map f m obj = (case m of
     None \<Rightarrow> RemoveNestedField (meta_field f) obj
   | Some es \<Rightarrow> SetNestedField (VMap (map (\<lambda>(k, v). (k, VStr v)) es)) (meta_field f) obj)"

definition SetLabels :: "(string \<times> string) list option \<Rightarrow> goval \<Rightarrow> goval" where
  "SetLabels = set_string_map ''labels''"

definition SetAnnotations :: "(string \<times> string) list option \<Rightarrow> goval \<Rightarrow> goval" where
  "SetAnnotations = set_string_map ''annotations''"

text \<open>Reading a key of a string map: a missing key, or a nil map, yields the empty string.\<close>

definition str_at :: "(string \<times> string) list option \<Rightarrow> string \<Rightarrow> string" where
  "str_at m k = (case m of None \<Rightarrow> [] | Some es \<Rightarrow> (case map_of es k of None \<Rightarrow> [] | Some v \<Rightarrow> v))"

text \<open>\<^verbatim>\<open>SetGenerateName("")\<close> up to \<^verbatim>\<open>SetManagedFields(nil)\<close>: every setter removes its field.\<close>

definition ResetObjectMetadata :: "goval \<Rightarrow> goval" where
  "ResetObjectMetadata obj = fold (\<lambda>f. RemoveNestedField (meta_field f))
     [''generateName'', ''selfLink'', ''uid'', ''resourceVersion'', ''generation'',
      ''creationTimestamp'', ''deletionTimestamp'', ''deletionGracePeriodSeconds'',
      ''ownerReferences'', ''finalizers'', ''managedFields''] obj"

section \<open>Equality\<close>

text \<open>Two values are equal up to the order of map entries.\<close>

function deep_equal :: "goval \<Rightarrow> goval \<Rightarrow> bool" where
  "deep_equal VNil b \<longleftrightarrow> b = VNil"
| "deep_equal (VBool x) b \<longleftrightarrow> b = VBool x"
| "deep_equal (VInt x) b \<longleftrightarrow> b = VInt x"
| "deep_equal (VFloat x) b \<longleftrightarrow> b = VFloat x"
| "deep_equal (VStr x) b \<longleftrightarrow> b = VStr x"
| "deep_equal (VSeq xs) b \<longleftrightarrow> (case b of
     VSeq ys \<Rightarrow> length xs = length ys \<and> list_all (\<lambda>(x, y). deep_equal x y) (zip xs ys)
   | _ \<Rightarrow> False)"
| "deep_equal (VMap m) b \<longleftrightarrow> (case b of
     VMap m' \<Rightarrow> length m = length m' \<and>
       list_all (\<lambda>(k, v). case map_of m' k of None \<Rightarrow> False | Some v' \<Rightarrow> deep_equal v v') m
   | _ \<Rightarrow> False)"
  by pat_completeness auto
termination
proof (relation "measure (\<lambda>(a, b). size a)", goal_cases)
  case (2 xs b ys z x y)
  then have "x \<in> set xs" by (auto dest: set_zip_leftD)
  then have "size x \<le> size_list size xs" by (rule size_list_estimation') simp
  then show ?case using 2(3) [symmetric] by simp
next
  case (3 m b m' z k v a)
  then have "size v \<le> size_list (size_prod (\<lambda>_. 0) size) m"
    by (intro size_list_estimation' [of "(k, v)"]) auto
  with 3 show ?case by simp
qed simp

section \<open>Laws of the accessors\<close>

text \<open>The shape every object of the API has: a map, whose metadata is a map if present.\<close>

definition obj_ok :: "goval \<Rightarrow> bool" where
  "obj_ok obj = (case obj of
     VMap m \<Rightarrow> (case map_of m ''metadata'' of None \<Rightarrow> True | Some (VMap m') \<Rightarrow> True | Some _ \<Rightarrow> False)
   | _ \<Rightarrow> False)"

lemma obj_ok_iff: "obj_ok obj \<longleftrightarrow> (\<exists>m. obj = VMap m \<and>
     (map_of m ''metadata'' = None \<or> (\<exists>m'. map_of m ''metadata'' = Some (VMap m'))))"
  by (auto simp: obj_ok_def split: goval.splits option.splits)

definition meta :: "goval \<Rightarrow> string \<Rightarrow> goval option" where
  "meta obj f = nested obj (meta_field f)"

lemma string_entries_map [simp]: "string_entries (map (\<lambda>(k, v). (k, VStr v)) es) = Some es"
  by (induction es) auto

lemma obj_okE:
  assumes "obj_ok obj"
  obtains m where "obj = VMap m" "map_of m ''metadata'' = None"
  | m m' where "obj = VMap m" "map_of m ''metadata'' = Some (VMap m')"
  using assms by (auto simp: obj_ok_iff)

lemma meta_set:
  assumes "obj_ok obj"
  shows "obj_ok (SetNestedField v (meta_field f) obj)"
    and "meta (SetNestedField v (meta_field f) obj) g = (if g = f then Some v else meta obj g)"
  using assms
  by (cases rule: obj_okE; auto simp: obj_ok_iff meta_def nested_def update_conv' split: option.splits)+

lemma meta_remove:
  assumes "obj_ok obj"
  shows "obj_ok (RemoveNestedField (meta_field f) obj)"
    and "meta (RemoveNestedField (meta_field f) obj) g = (if g = f then None else meta obj g)"
  using assms
  by (cases rule: obj_okE; auto simp: obj_ok_iff meta_def nested_def update_conv' delete_conv' split: option.splits)+

lemma set_or_remove_meta:
  assumes "obj_ok obj"
  shows "obj_ok (set_or_remove f s obj)"
    and "meta (set_or_remove f s obj) g =
      (if g = f then (if s = [] then None else Some (VStr s)) else meta obj g)"
  using assms by (auto simp: set_or_remove_def meta_set meta_remove)

lemma set_string_map_meta:
  assumes "obj_ok obj"
  shows "obj_ok (set_string_map f es obj)"
    and "meta (set_string_map f es obj) g =
      (if g = f then map_option (\<lambda>es. VMap (map (\<lambda>(k, v). (k, VStr v)) es)) es else meta obj g)"
  using assms by (auto simp: set_string_map_def meta_set meta_remove split: option.splits)

lemma Reset_meta:
  assumes "obj_ok obj"
  shows "obj_ok (ResetObjectMetadata obj)"
    and "meta (ResetObjectMetadata obj) g =
      (if g \<in> {''generateName'', ''selfLink'', ''uid'', ''resourceVersion'', ''generation'',
         ''creationTimestamp'', ''deletionTimestamp'', ''deletionGracePeriodSeconds'',
         ''ownerReferences'', ''finalizers'', ''managedFields''} then None else meta obj g)"
proof -
  have "obj_ok (fold (\<lambda>f. RemoveNestedField (meta_field f)) fs obj) \<and>
      meta (fold (\<lambda>f. RemoveNestedField (meta_field f)) fs obj) g = (if g \<in> set fs then None else meta obj g)" for fs
    using assms
  proof (induction fs arbitrary: obj)
    case (Cons f fs)
    then show ?case using Cons.IH [OF meta_remove(1) [OF Cons.prems, of f]] meta_remove(2) [OF Cons.prems] by auto
  qed simp
  from this [of "[''generateName'', ''selfLink'', ''uid'', ''resourceVersion'', ''generation'',
      ''creationTimestamp'', ''deletionTimestamp'', ''deletionGracePeriodSeconds'',
      ''ownerReferences'', ''finalizers'', ''managedFields'']"]
  show "obj_ok (ResetObjectMetadata obj)"
    and "meta (ResetObjectMetadata obj) g =
      (if g \<in> {''generateName'', ''selfLink'', ''uid'', ''resourceVersion'', ''generation'',
         ''creationTimestamp'', ''deletionTimestamp'', ''deletionGracePeriodSeconds'',
         ''ownerReferences'', ''finalizers'', ''managedFields''} then None else meta obj g)"
    by (simp_all only: ResetObjectMetadata_def list.set)
qed

lemmas obj_ok_rules = set_or_remove_meta(1) set_string_map_meta(1) Reset_meta(1)
lemmas meta_rules = set_or_remove_meta(2) set_string_map_meta(2) Reset_meta(2)

lemma accessors_meta:
  "GetName obj = (case meta obj ''name'' of Some (VStr s) \<Rightarrow> s | _ \<Rightarrow> [])"
  "GetNamespace obj = (case meta obj ''namespace'' of Some (VStr s) \<Rightarrow> s | _ \<Rightarrow> [])"
  "GetLabels obj = (case meta obj ''labels'' of Some (VMap m) \<Rightarrow> string_entries m | _ \<Rightarrow> None)"
  "GetAnnotations obj = (case meta obj ''annotations'' of Some (VMap m) \<Rightarrow> string_entries m | _ \<Rightarrow> None)"
  by (simp_all add: GetName_def GetNamespace_def GetLabels_def GetAnnotations_def meta_def
      getNestedString_def NestedStringMap_def)

lemma str_at_update: "str_at (Some (AList.update k v es)) k' = (if k' = k then v else str_at (Some es) k')"
  by (simp add: str_at_def update_conv')

lemma str_at_delete: "str_at (Some (AList.delete k es)) k' = (if k' = k then [] else str_at (Some es) k')"
  by (simp add: str_at_def delete_conv')

end
