(* ===== verification/Io.thy ===== *)
theory Io
  imports Unstructured
begin

text \<open>
  Controllers act on the two clusters. A step that talks to an API server maps the outside world to a
  result and a new world; unlike a fault of a pure function, an error leaves the effects so far in
  place. The API servers and the work queues are the parameter \<open>'w\<close>; a \<open>Client\<close> is what
  controller-runtime's \<^verbatim>\<open>client.Client\<close> offers of them.
\<close>

type_synonym ('w, 'a) io = "'w \<Rightarrow> 'a result \<times> 'w"

definition return_io :: "'a \<Rightarrow> ('w, 'a) io" where
  "return_io x w = (Inr x, w)"

definition lift_io :: "'a result \<Rightarrow> ('w, 'a) io" where
  "lift_io m w = (m, w)"

definition bind_io :: "('w, 'a) io \<Rightarrow> ('a \<Rightarrow> ('w, 'b) io) \<Rightarrow> ('w, 'b) io" where
  "bind_io m f w = (case m w of (Inl e, w') \<Rightarrow> (Inl e, w') | (Inr x, w') \<Rightarrow> f x w')"

definition wrap_io :: "string \<Rightarrow> ('w, 'a) io \<Rightarrow> ('w, 'a) io" where
  "wrap_io msg m w = (case m w of (r, w') \<Rightarrow> (wrap msg r, w'))"

text \<open>\<^verbatim>\<open>if err != nil { ... }\<close>: an error is handled, a panic is not.\<close>

definition catch_io :: "('w, 'a) io \<Rightarrow> (go_error \<Rightarrow> ('w, 'a) io) \<Rightarrow> ('w, 'a) io" where
  "catch_io m h w = (case m w of (Inl (Err e), w') \<Rightarrow> h e w' | r \<Rightarrow> r)"

text \<open>The error as a value: \<^verbatim>\<open>err := ...\<close> that the code inspects itself.\<close>

definition attempt :: "('w, 'a) io \<Rightarrow> ('w, go_error + 'a) io" where
  "attempt m w = (case m w of
     (Inr x, w') \<Rightarrow> (Inr (Inr x), w')
   | (Inl (Err e), w') \<Rightarrow> (Inr (Inl e), w')
   | (Inl (Panic p), w') \<Rightarrow> (Inl (Panic p), w'))"

definition throw_io :: "go_error \<Rightarrow> ('w, 'a) io" where
  "throw_io e w = (Inl (Err e), w)"

definition IsNotFound :: "go_error \<Rightarrow> bool" where
  "IsNotFound e \<longleftrightarrow> reason_for e = Some NotFound"

definition IsInvalid :: "go_error \<Rightarrow> bool" where
  "IsInvalid e \<longleftrightarrow> reason_for e = Some Invalid"

text \<open>
  The operations of a client. \<open>ApplyPatch\<close> is \<^verbatim>\<open>Patch\<close> with server-side apply, \<open>MergePatch\<close> is \<^verbatim>\<open>Patch\<close>
  with \<^verbatim>\<open>client.MergeFrom\<close> of the first object, which yields the object the server answers with and whose \<^verbatim>\<open>Data\<close> is \<open>MergeData\<close>; \<open>ListByIndex\<close> lists
  the objects with a value of a registered field index.
\<close>

record 'w Client =
  Get :: "NamespacedName \<Rightarrow> ('w, goval) io"
  ApplyPatch :: "goval \<Rightarrow> ('w, unit) io"
  MergePatch :: "goval \<Rightarrow> goval \<Rightarrow> ('w, goval) io"
  MergeData :: "goval \<Rightarrow> goval \<Rightarrow> go_error + string"
  Update :: "goval \<Rightarrow> ('w, unit) io"
  Delete :: "goval \<Rightarrow> ('w, unit) io"
  StatusApply :: "goval \<Rightarrow> ('w, unit) io"
  StatusUpdate :: "goval \<Rightarrow> ('w, unit) io"
  ListByIndex :: "string \<Rightarrow> ('w, goval list) io"

record ctrl_result =
  Requeue :: bool

abbreviation done_result :: ctrl_result where
  "done_result \<equiv> \<lparr>Requeue = False\<rparr>"

text \<open>\<^verbatim>\<open>Get\<close>, where a missing object is not an error.\<close>

definition get_optional :: "'w Client \<Rightarrow> NamespacedName \<Rightarrow> ('w, goval option) io" where
  "get_optional c nn =
     bind_io (attempt (Get c nn)) (\<lambda>r. case r of
         Inl e \<Rightarrow> if IsNotFound e then return_io None else throw_io e
       | Inr obj \<Rightarrow> return_io (Some obj))"

named_theorems io_simps \<open>running a sequence of client calls\<close>

lemma io_simps_basic [io_simps]:
  "return_io x w = (Inr x, w)" "lift_io m w = (m, w)" "throw_io e w = (Inl (Err e), w)"
  by (simp_all add: return_io_def lift_io_def throw_io_def)

lemma bind_io_simps [io_simps]:
  "m w = (Inr x, w') \<Longrightarrow> bind_io m f w = f x w'"
  "m w = (Inl e, w') \<Longrightarrow> bind_io m f w = (Inl e, w')"
  by (simp_all add: bind_io_def)

lemma catch_io_simps [io_simps]:
  "m w = (Inr x, w') \<Longrightarrow> catch_io m h w = (Inr x, w')"
  "m w = (Inl (Err e), w') \<Longrightarrow> catch_io m h w = h e w'"
  "m w = (Inl (Panic p), w') \<Longrightarrow> catch_io m h w = (Inl (Panic p), w')"
  by (simp_all add: catch_io_def)

lemma attempt_simps [io_simps]:
  "m w = (Inr x, w') \<Longrightarrow> attempt m w = (Inr (Inr x), w')"
  "m w = (Inl (Err e), w') \<Longrightarrow> attempt m w = (Inr (Inl e), w')"
  "m w = (Inl (Panic p), w') \<Longrightarrow> attempt m w = (Inl (Panic p), w')"
  by (simp_all add: attempt_def)

lemma wrap_io_simps [io_simps]:
  "m w = (r, w') \<Longrightarrow> wrap_io msg m w = (wrap msg r, w')"
  by (simp add: wrap_io_def)

text \<open>A program that succeeds has succeeded at each of its parts.\<close>

lemma bind_io_Inr: "bind_io m f w = (Inr y, w') \<longleftrightarrow> (\<exists>x w1. m w = (Inr x, w1) \<and> f x w1 = (Inr y, w'))"
  by (auto simp: bind_io_def split: prod.splits sum.splits)

text \<open>The laws of the monad, as equations between programs.\<close>

lemma io_laws [simp]:
  "bind_io (return_io x) f = f x"
  "bind_io (lift_io (Inr x)) f = f x"
  "bind_io (lift_io (Inl e)) f = lift_io (Inl e)"
  "bind_io (throw_io err) f = throw_io err"
  "lift_io (Inr x) = return_io x"
  "catch_io (return_io x) h = return_io x"
  "catch_io (lift_io (Inl (Err err))) h = h err"
  "catch_io (lift_io (Inl (Panic p))) h = lift_io (Inl (Panic p))"
  by (simp_all add: fun_eq_iff bind_io_def return_io_def lift_io_def throw_io_def catch_io_def)

lemma bind_io_assoc: "bind_io (bind_io m f) g = bind_io m (\<lambda>x. bind_io (f x) g)"
  by (auto simp: fun_eq_iff bind_io_def split: prod.splits sum.splits)

lemma bind_io_if: "bind_io (if b then m else m') f = (if b then bind_io m f else bind_io m' f)"
  by simp

end
