(* ===== verification/NameCache.thy ===== *)
theory NameCache
  imports Config
begin

text \<open>
  The name cache (\<^verbatim>\<open>pkg/namecache/namecache.go\<close>): for every kind of virtual object, an index from
  host names (and host name with field path) to the virtual name they came from, the mappings each
  object contributed, and the hooks that run when an index entry changes. All operations run under
  the mutex of the cache, so each is one atomic step on its state.
\<close>

section \<open>State\<close>

abbreviation MetadataFieldPath :: string where "MetadataFieldPath \<equiv> ''metadata.name''"
abbreviation IndexPhysicalToVirtualName :: string where
  "IndexPhysicalToVirtualName \<equiv> ''indexphysicaltovirtualname''"
abbreviation IndexPhysicalToVirtualNamePath :: string where
  "IndexPhysicalToVirtualNamePath \<equiv> ''indexphysicaltovirtualnamepath''"

record Object =
  ObjName :: string
  ObjValue :: string

text \<open>
  A Go map that is ranged over is a list of entries with distinct keys, in the order of the
  iteration; a Go map that is only looked up and updated is a HOL map.
\<close>

type_synonym key_values = "(string \<times> string) list"

record IndexMappings =
  IMName :: string
  IMMappings :: "(string \<times> key_values) list"

text \<open>A hook acts on the outside world \<open>'w\<close> (the work queues the controllers attach).\<close>

type_synonym 'w HookFunc = "string \<Rightarrow> string \<Rightarrow> string \<Rightarrow> 'w \<Rightarrow> 'w"

record 'w nameCache =
  indices :: "GroupVersionKind \<rightharpoonup> (string \<rightharpoonup> (string \<rightharpoonup> Object list))"
  objects :: "GroupVersionKind \<rightharpoonup> (string \<rightharpoonup> IndexMappings)"
  hooks :: "GroupVersionKind \<rightharpoonup> (string \<rightharpoonup> 'w HookFunc list)"

text \<open>The cache \<^verbatim>\<open>NewNameCache\<close> starts from.\<close>

definition emptyNameCache :: "'w nameCache" where
  "emptyNameCache = \<lparr>indices = Map.empty, objects = Map.empty, hooks = Map.empty\<rparr>"

text \<open>Reading a missing key of a Go map, or any key of a nil map, yields the zero value.\<close>

definition sub_map :: "('a \<rightharpoonup> ('b \<rightharpoonup> 'c)) \<Rightarrow> 'a \<Rightarrow> ('b \<rightharpoonup> 'c)" where
  "sub_map m k = (case m k of None \<Rightarrow> Map.empty | Some m' \<Rightarrow> m')"

section \<open>Lookup\<close>

definition StringToNamespacedName :: "string \<Rightarrow> NamespacedName" where
  "StringToNamespacedName n = (case strings_Split n (CHR ''/'') of
     [namespace, name] \<Rightarrow> \<lparr>Namespace = namespace, Name = name\<rparr>
   | _ \<Rightarrow> emptyNN)"

definition GetByIndex :: "'w nameCache \<Rightarrow> GroupVersionKind \<Rightarrow> string \<Rightarrow> string \<Rightarrow> Object list" where
  "GetByIndex n gvk index key = (case indices n gvk of
     None \<Rightarrow> []
   | Some indicesMap \<Rightarrow>
       (case indicesMap index of
          None \<Rightarrow> []
        | Some keysMap \<Rightarrow> (case keysMap key of None \<Rightarrow> [] | Some os \<Rightarrow> os)))"

definition GetFirstByIndex :: "'w nameCache \<Rightarrow> GroupVersionKind \<Rightarrow> string \<Rightarrow> string \<Rightarrow> string" where
  "GetFirstByIndex n gvk index key =
     (case GetByIndex n gvk index key of [] \<Rightarrow> [] | obj # _ \<Rightarrow> ObjValue obj)"

definition ResolveName :: "'w nameCache \<Rightarrow> GroupVersionKind \<Rightarrow> string \<Rightarrow> NamespacedName" where
  "ResolveName n gvk hostName =
     (let value = GetFirstByIndex n gvk IndexPhysicalToVirtualName hostName
      in if value = [] then emptyNN else StringToNamespacedName value)"

definition ResolveNamePath ::
  "'w nameCache \<Rightarrow> GroupVersionKind \<Rightarrow> string \<Rightarrow> string \<Rightarrow> NamespacedName" where
  "ResolveNamePath n gvk hostName fieldPath =
     (let value = GetFirstByIndex n gvk IndexPhysicalToVirtualNamePath (hostName @ ''/'' @ fieldPath)
      in if value = [] then emptyNN else StringToNamespacedName value)"

section \<open>Hooks\<close>

definition executeHooks ::
  "'w nameCache \<Rightarrow> GroupVersionKind \<Rightarrow> string \<Rightarrow> string \<Rightarrow> string \<Rightarrow> string \<Rightarrow> 'w \<Rightarrow> 'w" where
  "executeHooks n gvk index name key value w = (case hooks n gvk of
     None \<Rightarrow> w
   | Some gvkHooks \<Rightarrow>
       (case gvkHooks index of
          None \<Rightarrow> w
        | Some hs \<Rightarrow> fold (\<lambda>hook. hook name key value) hs w))"

definition AddChangeHook ::
  "GroupVersionKind \<Rightarrow> string \<Rightarrow> 'w HookFunc \<Rightarrow> 'w nameCache \<Rightarrow> 'w nameCache" where
  "AddChangeHook gvk index hookFunc n =
     (let gvkHooks = sub_map (hooks n) gvk;
          hs = (case gvkHooks index of None \<Rightarrow> [] | Some hs \<Rightarrow> hs)
      in n\<lparr>hooks := (hooks n)(gvk \<mapsto> gvkHooks(index \<mapsto> hs @ [hookFunc]))\<rparr>)"

section \<open>Update\<close>

definition set_index ::
  "GroupVersionKind \<Rightarrow> string \<Rightarrow> string \<Rightarrow> Object list option \<Rightarrow> 'w nameCache \<Rightarrow> 'w nameCache" where
  "set_index gvk index key v n =
     n\<lparr>indices := (indices n)(gvk \<mapsto> (sub_map (indices n) gvk)(index \<mapsto>
         (sub_map (sub_map (indices n) gvk) index)(key := v)))\<rparr>"

text \<open>
  The body of the inner loop of \<^verbatim>\<open>removeMapping\<close>. The deletion of the key is undone by the assignment
  that follows it, as in the source: an empty list stays behind.
\<close>

definition remove_key ::
  "GroupVersionKind \<Rightarrow> string \<Rightarrow> string \<Rightarrow> string \<times> string
     \<Rightarrow> 'w nameCache \<times> 'w \<Rightarrow> 'w nameCache \<times> 'w" where
  "remove_key gvk name index kv st = (case (kv, st) of ((mappingKey, mappingValue), (n, w)) \<Rightarrow>
     case indices n gvk of None \<Rightarrow> (n, w) | Some indexMappings \<Rightarrow>
     (case indexMappings index of None \<Rightarrow> (n, w) | Some keyValueMappings \<Rightarrow>
     (case keyValueMappings mappingKey of None \<Rightarrow> (n, w) | Some objectMappings \<Rightarrow>
        if objectMappings = [] then (n, w)
        else
          let n1 = (if length objectMappings = 1 then set_index gvk index mappingKey None n else n);
              otherMappings = filter (\<lambda>o'. ObjName o' \<noteq> name) objectMappings;
              n2 = set_index gvk index mappingKey (Some otherMappings) n1
          in (n2, executeHooks n2 gvk index name mappingKey mappingValue w))))"

definition removeMapping ::
  "GroupVersionKind \<Rightarrow> string \<Rightarrow> 'w nameCache \<times> 'w \<Rightarrow> 'w nameCache \<times> 'w" where
  "removeMapping gvk name st = (case st of (n, w) \<Rightarrow>
     case objects n gvk of None \<Rightarrow> (n, w) | Some objectsMap \<Rightarrow>
     (case objectsMap name of None \<Rightarrow> (n, w) | Some mappings \<Rightarrow>
        fold (\<lambda>(index, kvs). fold (remove_key gvk name index) kvs) (IMMappings mappings)
          (n\<lparr>objects := (objects n)(gvk \<mapsto> objectsMap(name := None))\<rparr>, w)))"

definition RemoveMapping ::
  "GroupVersionKind \<Rightarrow> string \<Rightarrow> 'w nameCache \<times> 'w \<Rightarrow> 'w nameCache \<times> 'w" where
  "RemoveMapping = removeMapping"

definition add_key ::
  "GroupVersionKind \<Rightarrow> string \<Rightarrow> string \<Rightarrow> string \<times> string
     \<Rightarrow> 'w nameCache \<times> 'w \<Rightarrow> 'w nameCache \<times> 'w" where
  "add_key gvk name index kv st = (case (kv, st) of ((key, value), (n, w)) \<Rightarrow>
     let values = (case sub_map (sub_map (indices n) gvk) index key of None \<Rightarrow> [] | Some os \<Rightarrow> os);
         n1 = set_index gvk index key (Some (values @ [\<lparr>ObjName = name, ObjValue = value\<rparr>])) n
     in (n1, executeHooks n1 gvk index name key value w))"

text \<open>\<^verbatim>\<open>equality.Semantic.DeepEqual\<close> on two mappings objects: equality of names and of maps.\<close>

definition map_equal :: "('v \<Rightarrow> 'v \<Rightarrow> bool) \<Rightarrow> (string \<times> 'v) list \<Rightarrow> (string \<times> 'v) list \<Rightarrow> bool" where
  "map_equal eq m m' \<longleftrightarrow> length m = length m' \<and>
     list_all (\<lambda>(k, v). case map_of m' k of None \<Rightarrow> False | Some v' \<Rightarrow> eq v v') m"

definition mappings_equal :: "IndexMappings \<Rightarrow> IndexMappings \<Rightarrow> bool" where
  "mappings_equal a b \<longleftrightarrow> IMName a = IMName b
     \<and> map_equal (map_equal (=)) (IMMappings a) (IMMappings b)"

definition ExchangeMapping ::
  "GroupVersionKind \<Rightarrow> IndexMappings \<Rightarrow> 'w nameCache \<times> 'w \<Rightarrow> 'w nameCache \<times> 'w" where
  "ExchangeMapping gvk object st = (case st of (n, w) \<Rightarrow>
     let n0 = (if objects n gvk = None then n\<lparr>objects := (objects n)(gvk \<mapsto> Map.empty)\<rparr> else n);
         oldObject = sub_map (objects n0) gvk (IMName object)
     in if (case oldObject of None \<Rightarrow> False | Some old \<Rightarrow> mappings_equal object old) then (n0, w)
        else
          let (n1, w1) = (if oldObject \<noteq> None then removeMapping gvk (IMName object) (n0, w) else (n0, w));
              n2 = (if IMMappings object \<noteq> []
                    then n1\<lparr>objects := (objects n1)(gvk \<mapsto> (sub_map (objects n1) gvk)(IMName object \<mapsto> object))\<rparr>
                    else n1);
              n3 = (if indices n2 gvk = None then n2\<lparr>indices := (indices n2)(gvk \<mapsto> Map.empty)\<rparr> else n2)
          in fold (\<lambda>(index, kvs). fold (add_key gvk (IMName object) index) kvs)
               (IMMappings object) (n3, w1))"

end
