(* ===== verification/NameIndex.thy ===== *)
theory NameIndex
  imports NameCache
begin

text \<open>
  What the name cache promises its clients. The locale \<open>name_index\<close> is the contract: each object
  provides the entries of the mappings it was last exchanged with, and a lookup returns an entry some
  object provides. The cache of \<^verbatim>\<open>namecache.go\<close> meets it (\<open>cache\<close> below): the index always holds exactly
  the entries of the stored mappings, and hooks run for exactly the entries that are removed or added.
\<close>

section \<open>Mappings as finite functions\<close>

definition im_lookup :: "IndexMappings \<Rightarrow> string \<Rightarrow> string \<Rightarrow> string option" where
  "im_lookup im index key =
     (case map_of (IMMappings im) index of None \<Rightarrow> None | Some kvs \<Rightarrow> map_of kvs key)"

definition wf_mappings :: "IndexMappings \<Rightarrow> bool" where
  "wf_mappings im \<longleftrightarrow> distinct (map fst (IMMappings im))
     \<and> (\<forall>(index, kvs) \<in> set (IMMappings im). distinct (map fst kvs))"

text \<open>The entries in the order of the two nested loops.\<close>

definition im_pairs :: "(string \<times> key_values) list \<Rightarrow> (string \<times> string \<times> string) list" where
  "im_pairs ms = concat (map (\<lambda>(index, kvs). map (\<lambda>kv. (index, kv)) kvs) ms)"

abbreviation pair_key :: "string \<times> string \<times> string \<Rightarrow> string \<times> string" where
  "pair_key \<equiv> \<lambda>(i, k, v). (i, k)"

lemma fold_im_pairs:
  "fold (\<lambda>(index, kvs). fold (f index) kvs) ms st = fold (\<lambda>(index, kv). f index kv) (im_pairs ms) st"
proof (induction ms arbitrary: st)
  case (Cons m ms)
  have "fold (f i) kvs s = fold (\<lambda>(index, kv). f index kv) (map (\<lambda>kv. (i, kv)) kvs) s" for i kvs s
    by (induction kvs arbitrary: s) auto
  with Cons show ?case by (cases m) (simp add: im_pairs_def)
qed (simp add: im_pairs_def)

lemma im_pairs_keys: "pair_key ` set (im_pairs ms) \<subseteq> {(i, k). i \<in> fst ` set ms}"
  unfolding im_pairs_def by (force split: prod.splits)

lemma im_pairs_distinct: "wf_mappings im \<Longrightarrow> distinct (map pair_key (im_pairs (IMMappings im)))"
proof -
  have "distinct (map fst ms) \<Longrightarrow> (\<forall>(i, kvs) \<in> set ms. distinct (map fst kvs)) \<Longrightarrow>
      distinct (map pair_key (im_pairs ms))" for ms
  proof (induction ms)
    case (Cons m ms)
    obtain i kvs where m: "m = (i, kvs)" by fastforce
    have "map pair_key (im_pairs (m # ms))
        = map (\<lambda>k. (i, k)) (map fst kvs) @ map pair_key (im_pairs ms)"
      by (simp add: im_pairs_def m comp_def case_prod_beta)
    moreover have "distinct (map (\<lambda>k. (i, k)) (map fst kvs))"
      using Cons.prems(2) m by (simp add: distinct_map inj_on_def)
    moreover have "set (map (\<lambda>k. (i, k)) (map fst kvs)) \<inter> set (map pair_key (im_pairs ms)) = {}"
      using im_pairs_keys [of ms] Cons.prems(1) m by auto
    moreover have "distinct (map pair_key (im_pairs ms))" using Cons by simp
    ultimately show ?case by (simp only: distinct_append)
  qed (simp add: im_pairs_def)
  then show "wf_mappings im \<Longrightarrow> distinct (map pair_key (im_pairs (IMMappings im)))"
    by (simp add: wf_mappings_def)
qed

lemma im_lookup_pairs:
  assumes "wf_mappings im"
  shows "im_lookup im i k = Some v \<longleftrightarrow> (i, k, v) \<in> set (im_pairs (IMMappings im))"
proof -
  have "(i, k, v) \<in> set (im_pairs (IMMappings im)) \<longleftrightarrow>
      (\<exists>kvs. (i, kvs) \<in> set (IMMappings im) \<and> (k, v) \<in> set kvs)"
    by (auto simp: im_pairs_def)
  also have "\<dots> \<longleftrightarrow> im_lookup im i k = Some v"
    using assms by (fastforce simp: im_lookup_def wf_mappings_def split: option.splits)
  finally show ?thesis ..
qed

lemma map_equal_lookup:
  assumes "map_equal eq m m'" "distinct (map fst m)" "distinct (map fst m')"
  shows "rel_option eq (map_of m k) (map_of m' k)"
proof -
  have all: "\<exists>v'. map_of m' k = Some v' \<and> eq v v'" if "(k, v) \<in> set m" for k v
    using assms(1) that by (auto simp: map_equal_def list_all_iff split: option.splits)
  then have "fst ` set m \<subseteq> fst ` set m'" by (force dest: map_of_SomeD)
  moreover have "card (fst ` set m) = card (fst ` set m')"
    using assms by (metis distinct_card length_map list.set_map map_equal_def)
  ultimately have "fst ` set m = fst ` set m'" by (simp add: card_subset_eq)
  then have none: "map_of m k = None \<longleftrightarrow> map_of m' k = None" by (simp add: map_of_eq_None_iff)
  show ?thesis
  proof (cases "map_of m k")
    case (Some v)
    with all [OF map_of_SomeD [OF Some]] show ?thesis by auto
  qed (use none in simp)
qed

lemma mappings_equal_lookup:
  assumes "mappings_equal a b" "wf_mappings a" "wf_mappings b"
  shows "im_lookup a i k = im_lookup b i k"
proof -
  have r: "rel_option (map_equal (=)) (map_of (IMMappings a) i) (map_of (IMMappings b) i)"
    using assms by (intro map_equal_lookup) (auto simp: mappings_equal_def wf_mappings_def)
  show ?thesis
  proof (cases "map_of (IMMappings a) i")
    case (Some kvs)
    with r obtain kvs' where b: "map_of (IMMappings b) i = Some kvs'" "map_equal (=) kvs kvs'"
      by (cases "map_of (IMMappings b) i") auto
    have "distinct (map fst kvs)" "distinct (map fst kvs')"
      using assms(2,3) Some b(1) by (auto simp: wf_mappings_def dest!: map_of_SomeD)
    then have "rel_option (=) (map_of kvs k) (map_of kvs' k)" by (rule map_equal_lookup [OF b(2)])
    with Some b show ?thesis by (simp add: im_lookup_def option.rel_eq)
  qed (use r in \<open>cases "map_of (IMMappings b) i"; simp add: im_lookup_def\<close>)
qed

section \<open>The contract\<close>

locale name_index =
  fixes inv :: "'c \<Rightarrow> bool"
    and empty :: "'c \<Rightarrow> bool"
    and provides :: "'c \<Rightarrow> GroupVersionKind \<Rightarrow> string \<Rightarrow> string \<Rightarrow> string \<Rightarrow> string option"
    and first :: "'c \<Rightarrow> GroupVersionKind \<Rightarrow> string \<Rightarrow> string \<Rightarrow> string"
    and exchange :: "GroupVersionKind \<Rightarrow> IndexMappings \<Rightarrow> 'c \<Rightarrow> 'c"
    and remove :: "GroupVersionKind \<Rightarrow> string \<Rightarrow> 'c \<Rightarrow> 'c"
  assumes inv_empty: "empty c \<Longrightarrow> inv c"
    and inv_exchange: "inv c \<Longrightarrow> wf_mappings im \<Longrightarrow> inv (exchange gvk im c)"
    and inv_remove: "inv c \<Longrightarrow> inv (remove gvk name c)"
    and provides_empty: "empty c \<Longrightarrow> provides c gvk name i k = None"
    and provides_exchange: "inv c \<Longrightarrow> wf_mappings im \<Longrightarrow>
      provides (exchange gvk im c) gvk' name i k =
        (if gvk' = gvk \<and> name = IMName im then im_lookup im i k else provides c gvk' name i k)"
    and provides_remove: "inv c \<Longrightarrow>
      provides (remove gvk name c) gvk' name' i k =
        (if gvk' = gvk \<and> name' = name then None else provides c gvk' name' i k)"
    and first_provided: "inv c \<Longrightarrow>
      (\<exists>name. provides c gvk name i k = Some (first c gvk i k))
      \<or> (first c gvk i k = [] \<and> (\<forall>name. provides c gvk name i k = None))"
begin

lemma first_unique:
  assumes "inv c" "provides c gvk name i k = Some v"
    and "\<And>name'. name' \<noteq> name \<Longrightarrow> provides c gvk name' i k = None"
  shows "first c gvk i k = v"
  using first_provided [OF assms(1), of gvk i k] assms(2,3) by (metis option.distinct(1) option.inject)

lemma first_none:
  assumes "inv c" "\<And>name. provides c gvk name i k = None"
  shows "first c gvk i k = []"
  using first_provided [OF assms(1), of gvk i k] assms(2) by auto

end

text \<open>The events the cache receives, and the mapping each object had last.\<close>

datatype cache_event = Exchanged GroupVersionKind IndexMappings | Removed GroupVersionKind string

primrec event_ok :: "cache_event \<Rightarrow> bool" where
  "event_ok (Exchanged gvk im) \<longleftrightarrow> wf_mappings im"
| "event_ok (Removed gvk name) \<longleftrightarrow> True"

text \<open>The last event of an object decides; the list has the newest event first.\<close>

fun last_lookup :: "cache_event list \<Rightarrow> GroupVersionKind \<Rightarrow> string \<Rightarrow> string \<Rightarrow> string \<Rightarrow> string option" where
  "last_lookup [] gvk name i k = None"
| "last_lookup (Exchanged gvk' im # es) gvk name i k =
     (if gvk = gvk' \<and> name = IMName im then im_lookup im i k else last_lookup es gvk name i k)"
| "last_lookup (Removed gvk' name' # es) gvk name i k =
     (if gvk = gvk' \<and> name = name' then None else last_lookup es gvk name i k)"

context name_index
begin

fun run :: "cache_event list \<Rightarrow> 'c \<Rightarrow> 'c" where
  "run [] c = c"
| "run (Exchanged gvk im # es) c = exchange gvk im (run es c)"
| "run (Removed gvk name # es) c = remove gvk name (run es c)"

lemma run_inv: "list_all event_ok es \<Longrightarrow> empty c \<Longrightarrow> inv (run es c)"
  by (induction es c rule: run.induct) (auto simp: inv_empty inv_exchange inv_remove)

lemma run_provides:
  "list_all event_ok es \<Longrightarrow> empty c \<Longrightarrow>
     provides (run es c) gvk name i k = last_lookup es gvk name i k"
  by (induction es gvk name i k rule: last_lookup.induct)
    (auto simp: provides_empty provides_exchange provides_remove run_inv)

text \<open>After any history, a lookup returns what the last mapping of some object says.\<close>

lemma run_first:
  assumes "list_all event_ok es" "empty c"
  shows "(\<exists>name. last_lookup es gvk name i k = Some (first (run es c) gvk i k))
    \<or> (first (run es c) gvk i k = [] \<and> (\<forall>name. last_lookup es gvk name i k = None))"
  using first_provided [OF run_inv [OF assms], of gvk i k] by (simp add: run_provides [OF assms])

end

section \<open>The index of the cache\<close>

definition contrib :: "'w nameCache \<Rightarrow> GroupVersionKind \<Rightarrow> string \<Rightarrow> string \<Rightarrow> string \<Rightarrow> string option" where
  "contrib n gvk name index key = (case sub_map (objects n) gvk name of
     None \<Rightarrow> None
   | Some im \<Rightarrow> im_lookup im index key)"

definition stored_ok :: "'w nameCache \<Rightarrow> bool" where
  "stored_ok n \<longleftrightarrow> (\<forall>gvk name im. sub_map (objects n) gvk name = Some im \<longrightarrow>
     wf_mappings im \<and> IMName im = name)"

definition indexed :: "'w nameCache \<Rightarrow> bool" where
  "indexed n \<longleftrightarrow> (\<forall>gvk i k. distinct (map ObjName (GetByIndex n gvk i k))
     \<and> (\<forall>obj. obj \<in> set (GetByIndex n gvk i k) \<longleftrightarrow>
          contrib n gvk (ObjName obj) i k = Some (ObjValue obj)))"

definition cache_inv :: "'w nameCache \<times> 'w \<Rightarrow> bool" where
  "cache_inv st \<longleftrightarrow> stored_ok (fst st) \<and> indexed (fst st)"

lemma GetByIndex_sub_map:
  "GetByIndex n gvk i k = (case sub_map (sub_map (indices n) gvk) i k of None \<Rightarrow> [] | Some os \<Rightarrow> os)"
  by (auto simp: GetByIndex_def sub_map_def split: option.splits)

lemma GetByIndex_set_index:
  "GetByIndex (set_index gvk i k v n) gvk' i' k' =
     (if gvk' = gvk \<and> i' = i \<and> k' = k then (case v of None \<Rightarrow> [] | Some os \<Rightarrow> os)
      else GetByIndex n gvk' i' k')"
  by (auto simp: GetByIndex_sub_map set_index_def sub_map_def split: option.splits)

lemma set_index_frame [simp]:
  "objects (set_index gvk i k v n) = objects n" "hooks (set_index gvk i k v n) = hooks n"
  by (simp_all add: set_index_def)

lemma executeHooks_cong: "hooks n = hooks n' \<Longrightarrow> executeHooks n = executeHooks n'"
  by (intro ext) (simp add: executeHooks_def)

lemma remove_key_index:
  "GetByIndex (fst (remove_key gvk name i (k, v) (n, w))) gvk' i' k' =
     (if gvk' = gvk \<and> i' = i \<and> k' = k then filter (\<lambda>o'. ObjName o' \<noteq> name) (GetByIndex n gvk i k)
      else GetByIndex n gvk' i' k')"
proof -
  have g: "GetByIndex n gvk i k = xs" if "indices n gvk = Some a" "a i = Some b" "b k = Some xs" for a b xs
    using that by (simp add: GetByIndex_def)
  show ?thesis
    by (auto simp: remove_key_def Let_def GetByIndex_set_index GetByIndex_def [of n gvk i k] split: option.splits)
qed

lemma remove_key_frame [simp]:
  "objects (fst (remove_key gvk name i kv (n, w))) = objects n"
  "hooks (fst (remove_key gvk name i kv (n, w))) = hooks n"
  by (auto simp: remove_key_def Let_def split: option.splits prod.splits)

lemma remove_key_hooks:
  "GetByIndex n gvk i k \<noteq> [] \<Longrightarrow>
     snd (remove_key gvk name i (k, v) (n, w)) = executeHooks n gvk i name k v w"
  by (auto simp: remove_key_def Let_def GetByIndex_def split: option.splits
      cong: executeHooks_cong intro!: fun_cong [OF executeHooks_cong, THEN fun_cong])

lemma add_key_index:
  "GetByIndex (fst (add_key gvk name i (k, v) (n, w))) gvk' i' k' =
     (if gvk' = gvk \<and> i' = i \<and> k' = k
      then GetByIndex n gvk i k @ [\<lparr>ObjName = name, ObjValue = v\<rparr>]
      else GetByIndex n gvk' i' k')"
  by (auto simp: add_key_def Let_def GetByIndex_set_index) (auto simp: GetByIndex_sub_map)

lemma add_key_frame [simp]:
  "objects (fst (add_key gvk name i kv (n, w))) = objects n"
  "hooks (fst (add_key gvk name i kv (n, w))) = hooks n"
  by (auto simp: add_key_def Let_def split: prod.splits)

lemma add_key_hooks: "snd (add_key gvk name i (k, v) (n, w)) = executeHooks n gvk i name k v w"
  by (simp add: add_key_def Let_def executeHooks_def)

text \<open>The hook calls of a list of entries.\<close>

definition notify ::
  "'w nameCache \<Rightarrow> GroupVersionKind \<Rightarrow> string \<Rightarrow> (string \<times> string \<times> string) list \<Rightarrow> 'w \<Rightarrow> 'w" where
  "notify n gvk name ps w = fold (\<lambda>(i, k, v). executeHooks n gvk i name k v) ps w"

lemma notify_cong: "hooks n = hooks n' \<Longrightarrow> notify n = notify n'"
  by (intro ext) (simp add: notify_def executeHooks_cong [of n n'])

lemma remove_fold:
  assumes "distinct (map pair_key ps)"
    and "\<And>i k v. (i, k, v) \<in> set ps \<Longrightarrow> GetByIndex n gvk i k \<noteq> []"
  shows "(\<forall>gvk' i k. GetByIndex (fst (fold (\<lambda>(i, kv). remove_key gvk name i kv) ps (n, w))) gvk' i k =
       (if gvk' = gvk \<and> (i, k) \<in> pair_key ` set ps
        then filter (\<lambda>o'. ObjName o' \<noteq> name) (GetByIndex n gvk i k) else GetByIndex n gvk' i k))
     \<and> objects (fst (fold (\<lambda>(i, kv). remove_key gvk name i kv) ps (n, w))) = objects n
     \<and> hooks (fst (fold (\<lambda>(i, kv). remove_key gvk name i kv) ps (n, w))) = hooks n
     \<and> snd (fold (\<lambda>(i, kv). remove_key gvk name i kv) ps (n, w)) = notify n gvk name ps w"
  using assms
proof (induction ps arbitrary: n w)
  case (Cons p ps)
  obtain i k v where p: "p = (i, k, v)" by (cases p) auto
  obtain n1 w1 where st: "remove_key gvk name i (k, v) (n, w) = (n1, w1)" by fastforce
  have n1: "GetByIndex n1 gvk' i' k' = (if gvk' = gvk \<and> i' = i \<and> k' = k
      then filter (\<lambda>o'. ObjName o' \<noteq> name) (GetByIndex n gvk i k) else GetByIndex n gvk' i' k')" for gvk' i' k'
    using remove_key_index [of gvk name i k v n w gvk' i' k'] st by simp
  have fr: "objects n1 = objects n" "hooks n1 = hooks n"
    using remove_key_frame [of gvk name i "(k, v)" n w] st by auto
  have w1: "w1 = executeHooks n gvk i name k v w"
    using remove_key_hooks [of n gvk i k name v w] Cons.prems(2) [of i k v] st p by simp
  have fresh: "(i, k) \<notin> pair_key ` set ps" using Cons.prems(1) p by auto
  have ne: "GetByIndex n1 gvk i' k' \<noteq> []" if "(i', k', v') \<in> set ps" for i' k' v'
  proof -
    have "pair_key (i', k', v') \<in> pair_key ` set ps" using that by (rule imageI)
    then have "(i', k') \<noteq> (i, k)" using fresh by (metis prod.case)
    then show ?thesis using Cons.prems(2) [of i' k' v'] that n1 [of gvk i' k'] by auto
  qed
  have IH: "(\<forall>gvk' i k. GetByIndex (fst (fold (\<lambda>(i, kv). remove_key gvk name i kv) ps (n1, w1))) gvk' i k =
       (if gvk' = gvk \<and> (i, k) \<in> pair_key ` set ps
        then filter (\<lambda>o'. ObjName o' \<noteq> name) (GetByIndex n1 gvk i k) else GetByIndex n1 gvk' i k))
     \<and> objects (fst (fold (\<lambda>(i, kv). remove_key gvk name i kv) ps (n1, w1))) = objects n1
     \<and> hooks (fst (fold (\<lambda>(i, kv). remove_key gvk name i kv) ps (n1, w1))) = hooks n1
     \<and> snd (fold (\<lambda>(i, kv). remove_key gvk name i kv) ps (n1, w1)) = notify n1 gvk name ps w1"
    using Cons.IH [of n1 w1] Cons.prems(1) ne by simp
  have "fold (\<lambda>(i, kv). remove_key gvk name i kv) (p # ps) (n, w)
      = fold (\<lambda>(i, kv). remove_key gvk name i kv) ps (n1, w1)" using p st by simp
  moreover have "notify n1 gvk name ps w1 = notify n gvk name (p # ps) w"
    using w1 p notify_cong [OF fr(2)] by (simp add: notify_def)
  ultimately show ?case using IH n1 fr fresh p by auto
qed (simp add: notify_def)

lemma add_fold:
  assumes "distinct (map pair_key ps)"
  shows "(\<forall>gvk' i k. GetByIndex (fst (fold (\<lambda>(i, kv). add_key gvk name i kv) ps (n, w))) gvk' i k =
       GetByIndex n gvk' i k @ (if gvk' = gvk
        then map (\<lambda>(_, _, v). \<lparr>ObjName = name, ObjValue = v\<rparr>) (filter (\<lambda>p. pair_key p = (i, k)) ps) else []))
     \<and> objects (fst (fold (\<lambda>(i, kv). add_key gvk name i kv) ps (n, w))) = objects n
     \<and> hooks (fst (fold (\<lambda>(i, kv). add_key gvk name i kv) ps (n, w))) = hooks n
     \<and> snd (fold (\<lambda>(i, kv). add_key gvk name i kv) ps (n, w)) = notify n gvk name ps w"
  using assms
proof (induction ps arbitrary: n w)
  case (Cons p ps)
  obtain i k v where p: "p = (i, k, v)" by (cases p) auto
  obtain n1 w1 where st: "add_key gvk name i (k, v) (n, w) = (n1, w1)" by fastforce
  have n1: "GetByIndex n1 gvk' i' k' = (if gvk' = gvk \<and> i' = i \<and> k' = k
      then GetByIndex n gvk i k @ [\<lparr>ObjName = name, ObjValue = v\<rparr>] else GetByIndex n gvk' i' k')" for gvk' i' k'
    using add_key_index [of gvk name i k v n w gvk' i' k'] st by simp
  have fr: "objects n1 = objects n" "hooks n1 = hooks n"
    using add_key_frame [of gvk name i "(k, v)" n w] st by auto
  have w1: "w1 = executeHooks n gvk i name k v w"
    using add_key_hooks [of gvk name i k v n w] st by simp
  have fold1: "fold (\<lambda>(i, kv). add_key gvk name i kv) (p # ps) (n, w)
      = fold (\<lambda>(i, kv). add_key gvk name i kv) ps (n1, w1)" using p st by simp
  have "notify n1 gvk name ps w1 = notify n gvk name (p # ps) w"
    using w1 p notify_cong [OF fr(2)] by (simp add: notify_def)
  then show ?case unfolding fold1 using Cons.IH [of n1 w1] Cons.prems n1 fr p by auto
qed (simp add: notify_def)

section \<open>Removing and exchanging mappings\<close>

lemma entry_contrib:
  "indexed n \<Longrightarrow> obj \<in> set (GetByIndex n gvk i k) \<longleftrightarrow> contrib n gvk (ObjName obj) i k = Some (ObjValue obj)"
  by (simp add: indexed_def)

lemma contrib_entry:
  "indexed n \<Longrightarrow> contrib n gvk name i k = Some v \<Longrightarrow>
     \<lparr>ObjName = name, ObjValue = v\<rparr> \<in> set (GetByIndex n gvk i k)"
  by (simp add: entry_contrib)

lemma no_entry:
  "indexed n \<Longrightarrow> contrib n gvk name i k = None \<Longrightarrow>
     filter (\<lambda>o'. ObjName o' \<noteq> name) (GetByIndex n gvk i k) = GetByIndex n gvk i k"
  by (auto simp: filter_id_conv entry_contrib)

lemma removeMapping_effect:
  assumes "cache_inv (n, w)" and r_def: "r = removeMapping gvk name (n, w)"
  shows "GetByIndex (fst r) g i k = (if g = gvk then filter (\<lambda>o'. ObjName o' \<noteq> name) (GetByIndex n gvk i k)
           else GetByIndex n g i k)"
    and "sub_map (objects (fst r)) g x = (if g = gvk \<and> x = name then None else sub_map (objects n) g x)"
    and "hooks (fst r) = hooks n"
    and "snd r = (case sub_map (objects n) gvk name of None \<Rightarrow> w
           | Some im \<Rightarrow> notify n gvk name (im_pairs (IMMappings im)) w)"
proof -
  have ok: "stored_ok n" and ix: "indexed n" using assms(1) by (auto simp: cache_inv_def)
  have "GetByIndex (fst r) g i k = (if g = gvk then filter (\<lambda>o'. ObjName o' \<noteq> name) (GetByIndex n gvk i k)
           else GetByIndex n g i k)
    \<and> sub_map (objects (fst r)) g x = (if g = gvk \<and> x = name then None else sub_map (objects n) g x)
    \<and> hooks (fst r) = hooks n
    \<and> snd r = (case sub_map (objects n) gvk name of None \<Rightarrow> w
           | Some im \<Rightarrow> notify n gvk name (im_pairs (IMMappings im)) w)"
  proof (cases "sub_map (objects n) gvk name")
    case None
    then have "r = (n, w)" by (auto simp: r_def removeMapping_def sub_map_def split: option.splits)
    moreover have "contrib n gvk name i k = None" using None by (simp add: contrib_def)
    ultimately show ?thesis using None no_entry [OF ix] by auto
  next
    case (Some im)
    then obtain om where om: "objects n gvk = Some om" "om name = Some im"
      by (auto simp: sub_map_def split: option.splits)
    let ?n0 = "n\<lparr>objects := (objects n)(gvk \<mapsto> om(name := None))\<rparr>" and ?ps = "im_pairs (IMMappings im)"
    have wf: "wf_mappings im" using ok Some by (auto simp: stored_ok_def)
    have look: "contrib n gvk name i k = Some v \<longleftrightarrow> (i, k, v) \<in> set ?ps" for i k v
      using im_lookup_pairs [OF wf] Some by (simp add: contrib_def)
    have idx0: "GetByIndex ?n0 = GetByIndex n" by (intro ext) (simp add: GetByIndex_def)
    have r: "r = fold (\<lambda>(i, kv). remove_key gvk name i kv) ?ps (?n0, w)"
      by (simp add: r_def removeMapping_def om fold_im_pairs)
    have ne: "GetByIndex ?n0 gvk i k \<noteq> []" if "(i, k, v) \<in> set ?ps" for i k v
      using contrib_entry [OF ix, of gvk name i k v] look that by (auto simp: idx0)
    have "contrib n gvk name i k = None" if "(i, k) \<notin> pair_key ` set ?ps"
    proof (rule ccontr)
      assume "contrib n gvk name i k \<noteq> None"
      then obtain v where "(i, k, v) \<in> set ?ps" using look by blast
      then have "pair_key (i, k, v) \<in> pair_key ` set ?ps" by (rule imageI)
      with that show False by simp
    qed
    then have out: "filter (\<lambda>o'. ObjName o' \<noteq> name) (GetByIndex n gvk i k) = GetByIndex n gvk i k"
      if "(i, k) \<notin> pair_key ` set ?ps" using that no_entry [OF ix] by blast
    from remove_fold [where name = name and w = w, OF im_pairs_distinct [OF wf] ne] out
    show ?thesis
      unfolding r idx0 using Some om notify_cong [of ?n0 n] by (auto simp: sub_map_def)
  qed
  then show "GetByIndex (fst r) g i k = (if g = gvk then filter (\<lambda>o'. ObjName o' \<noteq> name) (GetByIndex n gvk i k)
           else GetByIndex n g i k)"
    and "sub_map (objects (fst r)) g x = (if g = gvk \<and> x = name then None else sub_map (objects n) g x)"
    and "hooks (fst r) = hooks n"
    and "snd r = (case sub_map (objects n) gvk name of None \<Rightarrow> w
           | Some im \<Rightarrow> notify n gvk name (im_pairs (IMMappings im)) w)" by blast+
qed

lemma removeMapping_inv:
  assumes "cache_inv st"
  shows "cache_inv (removeMapping gvk name st)"
    and "contrib (fst (removeMapping gvk name st)) g x i k =
       (if g = gvk \<and> x = name then None else contrib (fst st) g x i k)"
proof -
  obtain n w where st: "st = (n, w)" by fastforce
  note eff = removeMapping_effect [OF assms [unfolded st] refl, of gvk name]
  show con: "contrib (fst (removeMapping gvk name st)) g x i k =
       (if g = gvk \<and> x = name then None else contrib (fst st) g x i k)" for g x i k
    by (simp add: st contrib_def eff(2))
  show "cache_inv (removeMapping gvk name st)"
    using assms unfolding cache_inv_def indexed_def stored_ok_def con
    by (auto simp: st eff(1,2) distinct_map_filter split: if_splits)
qed

text \<open>Exchanging is removing the old mappings of the object, then storing and indexing the new ones.\<close>

definition ensure_objects :: "GroupVersionKind \<Rightarrow> 'w nameCache \<Rightarrow> 'w nameCache" where
  "ensure_objects gvk n =
     (if objects n gvk = None then n\<lparr>objects := (objects n)(gvk \<mapsto> Map.empty)\<rparr> else n)"

definition store_object :: "GroupVersionKind \<Rightarrow> IndexMappings \<Rightarrow> 'w nameCache \<Rightarrow> 'w nameCache" where
  "store_object gvk im n1 =
     (let n2 = (if IMMappings im \<noteq> []
                then n1\<lparr>objects := (objects n1)(gvk \<mapsto> (sub_map (objects n1) gvk)(IMName im \<mapsto> im))\<rparr>
                else n1)
      in if indices n2 gvk = None then n2\<lparr>indices := (indices n2)(gvk \<mapsto> Map.empty)\<rparr> else n2)"

lemma ensure_objects_same [simp]:
  "sub_map (objects (ensure_objects gvk n)) g = sub_map (objects n) g"
  "GetByIndex (ensure_objects gvk n) g i k = GetByIndex n g i k"
  "hooks (ensure_objects gvk n) = hooks n"
  by (auto simp: ensure_objects_def sub_map_def GetByIndex_def)

lemma ensure_objects_inv: "cache_inv (n, w) \<Longrightarrow> cache_inv (ensure_objects gvk n, w)"
  by (simp add: cache_inv_def stored_ok_def indexed_def contrib_def)

lemma store_object_same [simp]:
  "sub_map (objects (store_object gvk im n)) g x =
     (if g = gvk \<and> x = IMName im \<and> IMMappings im \<noteq> [] then Some im else sub_map (objects n) g x)"
  "GetByIndex (store_object gvk im n) g i k = GetByIndex n g i k"
  "hooks (store_object gvk im n) = hooks n"
  by (auto simp: store_object_def Let_def GetByIndex_def) (auto simp: sub_map_def)

definition unchanged :: "'w nameCache \<Rightarrow> GroupVersionKind \<Rightarrow> IndexMappings \<Rightarrow> bool" where
  "unchanged n gvk im \<longleftrightarrow> (case sub_map (objects n) gvk (IMName im) of
     None \<Rightarrow> False | Some old \<Rightarrow> mappings_equal im old)"

lemma ExchangeMapping_split:
  "ExchangeMapping gvk im (n, w) =
     (if unchanged n gvk im then (ensure_objects gvk n, w)
      else let (n1, w1) = removeMapping gvk (IMName im) (ensure_objects gvk n, w)
           in fold (\<lambda>(i, kv). add_key gvk (IMName im) i kv) (im_pairs (IMMappings im))
                (store_object gvk im n1, w1))"
proof -
  have "removeMapping gvk (IMName im) (ensure_objects gvk n, w) = (ensure_objects gvk n, w)"
    if "sub_map (objects n) gvk (IMName im) = None"
    using that by (auto simp: removeMapping_def ensure_objects_def sub_map_def split: option.splits)
  then show ?thesis
    unfolding ExchangeMapping_def prod.case Let_def ensure_objects_def [symmetric] fold_im_pairs
      ensure_objects_same unchanged_def store_object_def
    by (auto simp: Let_def split: option.splits)
qed

lemma filter_pairs:
  assumes "distinct (map pair_key ps)" "(i, k, v) \<in> set ps"
  shows "filter (\<lambda>p. pair_key p = (i, k)) ps = [(i, k, v)]"
  using assms
proof (induction ps)
  case (Cons p ps)
  have none: "filter (\<lambda>p. pair_key p = (i, k)) ps = []" if "p = (i, k, v)"
    using Cons.prems(1) that by (force simp: filter_empty_conv)
  show ?case
  proof (cases "p = (i, k, v)")
    case False
    then have "(i, k, v) \<in> set ps" using Cons.prems(2) by auto
    then have "pair_key p \<noteq> (i, k)" using Cons.prems(1) by force
    with False Cons show ?thesis by auto
  qed (use none in simp)
qed simp

lemma added_entries:
  assumes "wf_mappings im"
  shows "map (\<lambda>(_, _, v). \<lparr>ObjName = name, ObjValue = v\<rparr>)
      (filter (\<lambda>p. pair_key p = (i, k)) (im_pairs (IMMappings im)))
    = (case im_lookup im i k of None \<Rightarrow> [] | Some v \<Rightarrow> [\<lparr>ObjName = name, ObjValue = v\<rparr>])"
proof (cases "im_lookup im i k")
  case None
  then have "(i, k, v) \<notin> set (im_pairs (IMMappings im))" for v
    using im_lookup_pairs [OF assms, of i k v] by simp
  then have "filter (\<lambda>p. pair_key p = (i, k)) (im_pairs (IMMappings im)) = []"
    by (auto simp: filter_empty_conv)
  with None show ?thesis by simp
next
  case (Some v)
  then show ?thesis
    using filter_pairs [OF im_pairs_distinct [OF assms], of i k v] im_lookup_pairs [OF assms, of i k v] by simp
qed

lemma ExchangeMapping_effect:
  assumes inv: "cache_inv (n, w)" and wf: "wf_mappings im" and ch: "\<not> unchanged n gvk im"
    and r: "r = ExchangeMapping gvk im (n, w)"
  shows "GetByIndex (fst r) g i k = (if g = gvk
      then filter (\<lambda>o'. ObjName o' \<noteq> IMName im) (GetByIndex n gvk i k)
        @ (case im_lookup im i k of None \<Rightarrow> [] | Some v \<Rightarrow> [\<lparr>ObjName = IMName im, ObjValue = v\<rparr>])
      else GetByIndex n g i k)"
    and "sub_map (objects (fst r)) g x = (if g = gvk \<and> x = IMName im
      then (if IMMappings im = [] then None else Some im) else sub_map (objects n) g x)"
    and "hooks (fst r) = hooks n"
    and "snd r = notify n gvk (IMName im) (im_pairs (IMMappings im))
      (case sub_map (objects n) gvk (IMName im) of None \<Rightarrow> w
       | Some old \<Rightarrow> notify n gvk (IMName im) (im_pairs (IMMappings old)) w)"
proof -
  obtain n1 w1 where rm: "removeMapping gvk (IMName im) (ensure_objects gvk n, w) = (n1, w1)" by fastforce
  note rme = removeMapping_effect [OF ensure_objects_inv [OF inv, of gvk] rm [symmetric], simplified]
  have r': "r = fold (\<lambda>(i, kv). add_key gvk (IMName im) i kv) (im_pairs (IMMappings im)) (store_object gvk im n1, w1)"
    using r ch rm by (simp add: ExchangeMapping_split)
  note add = add_fold [OF im_pairs_distinct [OF wf], of gvk "IMName im" "store_object gvk im n1" w1, folded r']
  show "GetByIndex (fst r) g i k = (if g = gvk
      then filter (\<lambda>o'. ObjName o' \<noteq> IMName im) (GetByIndex n gvk i k)
        @ (case im_lookup im i k of None \<Rightarrow> [] | Some v \<Rightarrow> [\<lparr>ObjName = IMName im, ObjValue = v\<rparr>])
      else GetByIndex n g i k)"
    using add by (simp add: added_entries [OF wf] rme(1))
  show "sub_map (objects (fst r)) g x = (if g = gvk \<and> x = IMName im
      then (if IMMappings im = [] then None else Some im) else sub_map (objects n) g x)"
    using add by (simp add: rme(2))
  show "hooks (fst r) = hooks n" using add by (simp add: rme(3))
  have "notify (store_object gvk im n1) = notify n" by (rule notify_cong) (simp add: rme(3))
  moreover have "notify (ensure_objects gvk n) = notify n" by (rule notify_cong) simp
  ultimately show "snd r = notify n gvk (IMName im) (im_pairs (IMMappings im))
      (case sub_map (objects n) gvk (IMName im) of None \<Rightarrow> w
       | Some old \<Rightarrow> notify n gvk (IMName im) (im_pairs (IMMappings old)) w)"
    using add rme(4) by (simp split: option.splits)
qed

lemma ExchangeMapping_inv:
  assumes inv: "cache_inv st" and wf: "wf_mappings im"
  shows "cache_inv (ExchangeMapping gvk im st)"
    and "contrib (fst (ExchangeMapping gvk im st)) g x i k =
      (if g = gvk \<and> x = IMName im then im_lookup im i k else contrib (fst st) g x i k)"
proof -
  obtain n w where st: "st = (n, w)" by fastforce
  have inv': "cache_inv (n, w)" using inv st by simp
  have "cache_inv (ExchangeMapping gvk im (n, w)) \<and>
      contrib (fst (ExchangeMapping gvk im (n, w))) g x i k =
        (if g = gvk \<and> x = IMName im then im_lookup im i k else contrib n g x i k)" for g x i k
  proof (cases "unchanged n gvk im")
    case True
    then obtain old where old: "sub_map (objects n) gvk (IMName im) = Some old" "mappings_equal im old"
      by (auto simp: unchanged_def split: option.splits)
    have "wf_mappings old" using inv' old(1) by (auto simp: cache_inv_def stored_ok_def)
    then have "im_lookup im i k = im_lookup old i k" using mappings_equal_lookup [OF old(2) wf] by blast
    with True old show ?thesis
      by (auto simp: ExchangeMapping_split contrib_def intro: ensure_objects_inv [OF inv'])
  next
    case False
    note eff = ExchangeMapping_effect [OF inv' wf False refl]
    have con: "contrib (fst (ExchangeMapping gvk im (n, w))) g x i k =
        (if g = gvk \<and> x = IMName im then im_lookup im i k else contrib n g x i k)" for g x i k
      by (simp add: contrib_def eff(2)) (simp add: im_lookup_def)
    have "stored_ok (fst (ExchangeMapping gvk im (n, w)))"
      using inv' wf by (auto simp: cache_inv_def stored_ok_def eff(2) split: if_splits)
    moreover have "indexed (fst (ExchangeMapping gvk im (n, w)))"
      unfolding indexed_def con eff(1)
      using inv' by (auto simp: cache_inv_def indexed_def distinct_map_filter split: option.splits)
    ultimately show ?thesis using con by (simp add: cache_inv_def)
  qed
  then show "cache_inv (ExchangeMapping gvk im st)"
    and "contrib (fst (ExchangeMapping gvk im st)) g x i k =
      (if g = gvk \<and> x = IMName im then im_lookup im i k else contrib (fst st) g x i k)"
    by (simp_all add: st)
qed

lemma AddChangeHook_frame:
  "GetByIndex (AddChangeHook gvk i f n) = GetByIndex n"
  "contrib (AddChangeHook gvk i f n) = contrib n"
  "cache_inv (n, w) \<Longrightarrow> cache_inv (AddChangeHook gvk i f n, w)"
  by (auto simp: AddChangeHook_def Let_def GetByIndex_def contrib_def cache_inv_def stored_ok_def
      indexed_def fun_eq_iff)

section \<open>The cache meets its contract\<close>

definition no_objects :: "'w nameCache \<times> 'w \<Rightarrow> bool" where
  "no_objects st \<longleftrightarrow> objects (fst st) = Map.empty \<and> indices (fst st) = Map.empty"

lemma GetFirst_provided:
  assumes "indexed n"
  shows "(\<exists>name. contrib n gvk name i k = Some (GetFirstByIndex n gvk i k))
    \<or> (GetFirstByIndex n gvk i k = [] \<and> (\<forall>name. contrib n gvk name i k = None))"
proof (cases "GetByIndex n gvk i k")
  case Nil
  have "contrib n gvk name i k = None" for name
    using contrib_entry [OF assms, of gvk name i k] Nil by (cases "contrib n gvk name i k") auto
  with Nil show ?thesis by (simp add: GetFirstByIndex_def)
next
  case (Cons obj objs)
  then have "contrib n gvk (ObjName obj) i k = Some (ObjValue obj)"
    using entry_contrib [OF assms, of obj gvk i k] by simp
  with Cons show ?thesis by (auto simp: GetFirstByIndex_def)
qed

interpretation cache: name_index cache_inv no_objects
  "\<lambda>st. contrib (fst st)" "\<lambda>st. GetFirstByIndex (fst st)" ExchangeMapping RemoveMapping
proof unfold_locales
  fix st :: "'w nameCache \<times> 'w" and gvk name i k
  show "no_objects st \<Longrightarrow> cache_inv st"
    by (simp add: no_objects_def cache_inv_def stored_ok_def indexed_def sub_map_def GetByIndex_def contrib_def)
  show "no_objects st \<Longrightarrow> contrib (fst st) gvk name i k = None"
    by (simp add: no_objects_def contrib_def sub_map_def)
  show "cache_inv st \<Longrightarrow> (\<exists>name. contrib (fst st) gvk name i k = Some (GetFirstByIndex (fst st) gvk i k))
      \<or> (GetFirstByIndex (fst st) gvk i k = [] \<and> (\<forall>name. contrib (fst st) gvk name i k = None))"
    by (rule GetFirst_provided) (simp add: cache_inv_def)
qed (simp_all add: RemoveMapping_def removeMapping_inv ExchangeMapping_inv)

end
