(* ===== verification/Sha256.thy ===== *)
theory Sha256
  imports GoStrings "HOL-Library.Word"
begin

text \<open>
  \<^verbatim>\<open>sha256.Sum256\<close> of Go's \<^verbatim>\<open>crypto/sha256\<close> and \<^verbatim>\<open>hex.EncodeToString\<close>, which the name translation
  uses to shorten names: SHA-256 on byte strings with 32-bit words.
\<close>

unbundle bit_operations_syntax

type_synonym w32 = "32 word"

text \<open>A row of eight words, the first in the highest bits.\<close>

definition word_row :: "int \<Rightarrow> w32 list" where
  "word_row n = map (\<lambda>i. word_of_int (drop_bit (32 * i) n)) (rev [0 ..< 8])"

definition sha_K :: "w32 list" where
  "sha_K = concat (map word_row [
     0x428a2f9871374491b5c0fbcfe9b5dba53956c25b59f111f1923f82a4ab1c5ed5,
     0xd807aa9812835b01243185be550c7dc372be5d7480deb1fe9bdc06a7c19bf174,
     0xe49b69c1efbe47860fc19dc6240ca1cc2de92c6f4a7484aa5cb0a9dc76f988da,
     0x983e5152a831c66db00327c8bf597fc7c6e00bf3d5a7914706ca635114292967,
     0x27b70a852e1b21384d2c6dfc53380d13650a7354766a0abb81c2c92e92722c85,
     0xa2bfe8a1a81a664bc24b8b70c76c51a3d192e819d6990624f40e3585106aa070,
     0x19a4c1161e376c082748774c34b0bcb5391c0cb34ed8aa4a5b9cca4f682e6ff3,
     0x748f82ee78a5636f84c878148cc7020890befffaa4506cebbef9a3f7c67178f2])"

definition sha_H0 :: "w32 list" where
  "sha_H0 = word_row
     0x6a09e667bb67ae853c6ef372a54ff53a510e527f9b05688c1f83d9ab5be0cd19"

lemma length_word_row [simp]: "length (word_row n) = 8"
  by (simp add: word_row_def)

definition rotr :: "nat \<Rightarrow> w32 \<Rightarrow> w32" where
  "rotr n x = drop_bit n x OR push_bit (32 - n) x"

section \<open>Padding and message schedule\<close>

definition be_word :: "string \<Rightarrow> w32" where
  "be_word bs = fold (\<lambda>b acc. push_bit 8 acc OR of_nat (of_char b)) bs 0"

fun be_bytes :: "nat \<Rightarrow> nat \<Rightarrow> string" where
  "be_bytes 0 n = []"
| "be_bytes (Suc k) n = be_bytes k (n div 256) @ [char_of (n mod 256)]"

definition sha_pad :: "string \<Rightarrow> string" where
  "sha_pad msg =
     (let l = length msg; z = (119 - l mod 64) mod 64
      in msg @ [char_of (128::nat)] @ replicate z (char_of (0::nat)) @ be_bytes 8 (8 * l))"

function chunks :: "nat \<Rightarrow> 'a list \<Rightarrow> 'a list list" where
  "chunks n xs = (if xs = [] \<or> n = 0 then [] else take n xs # chunks n (drop n xs))"
  by pat_completeness auto
termination
  by (relation "measure (\<lambda>(n, xs). length xs)") auto

declare chunks.simps [simp del]

text \<open>The schedule is kept in reverse: the newest word first.\<close>

definition next_word :: "w32 list \<Rightarrow> w32" where
  "next_word ws =
     (let w2 = ws ! 1; w15 = ws ! 14;
          s0 = rotr 7 w15 XOR rotr 18 w15 XOR drop_bit 3 w15;
          s1 = rotr 17 w2 XOR rotr 19 w2 XOR drop_bit 10 w2
      in ws ! 15 + s0 + ws ! 6 + s1)"

definition schedule :: "w32 list \<Rightarrow> w32 list" where
  "schedule block = rev (((\<lambda>ws. next_word ws # ws) ^^ 48) (rev block))"

section \<open>Compression\<close>

type_synonym sha_state = "w32 \<times> w32 \<times> w32 \<times> w32 \<times> w32 \<times> w32 \<times> w32 \<times> w32"

definition sha_round :: "w32 \<times> w32 \<Rightarrow> sha_state \<Rightarrow> sha_state" where
  "sha_round kw st = (case st of (a, b, c, d, e, f, g, h) \<Rightarrow>
     let S1 = rotr 6 e XOR rotr 11 e XOR rotr 25 e;
         ch = (e AND f) XOR (NOT e AND g);
         t1 = h + S1 + ch + fst kw + snd kw;
         S0 = rotr 2 a XOR rotr 13 a XOR rotr 22 a;
         maj = (a AND b) XOR (a AND c) XOR (b AND c)
     in (t1 + S0 + maj, a, b, c, d + t1, e, f, g))"

definition state_of :: "w32 list \<Rightarrow> sha_state" where
  "state_of hs = (hs ! 0, hs ! 1, hs ! 2, hs ! 3, hs ! 4, hs ! 5, hs ! 6, hs ! 7)"

fun list_of :: "sha_state \<Rightarrow> w32 list" where
  "list_of (a, b, c, d, e, f, g, h) = [a, b, c, d, e, f, g, h]"

definition sha_block :: "string \<Rightarrow> w32 list \<Rightarrow> w32 list" where
  "sha_block block hs =
     (let ws = schedule (map be_word (chunks 4 block))
      in map2 (+) hs (list_of (fold sha_round (zip sha_K ws) (state_of hs))))"

definition sha256_words :: "string \<Rightarrow> w32 list" where
  "sha256_words msg = fold sha_block (chunks 64 (sha_pad msg)) sha_H0"

section \<open>Hexadecimal digest\<close>

definition hex_digit :: "nat \<Rightarrow> char" where
  "hex_digit n = char_of (if n < 10 then 48 + n else 87 + n)"

fun hex_nat :: "nat \<Rightarrow> nat \<Rightarrow> string" where
  "hex_nat 0 n = []"
| "hex_nat (Suc k) n = hex_nat k (n div 16) @ [hex_digit (n mod 16)]"

definition sha256_hex :: "string \<Rightarrow> string" where
  "sha256_hex msg = concat (map (\<lambda>w. hex_nat 8 (unat w)) (sha256_words msg))"

lemma length_hex_nat [simp]: "length (hex_nat k n) = k"
  by (induction k arbitrary: n) auto

lemma length_list_of [simp]: "length (list_of st) = 8"
  by (cases st) auto

lemma length_sha256_words [simp]: "length (sha256_words msg) = 8"
proof -
  have "length hs = 8 \<Longrightarrow> length (fold sha_block bs hs) = 8" for bs hs
    by (induction bs arbitrary: hs) (auto simp: sha_block_def Let_def)
  then show ?thesis by (simp add: sha256_words_def sha_H0_def)
qed

lemma length_sha256_hex [simp]: "length (sha256_hex msg) = 64"
  by (simp add: sha256_hex_def length_concat comp_def sum_list_triv)

definition hex_chars :: "char set" where
  "hex_chars = set ''0123456789abcdef''"

lemma hex_digit_lower: "n < 16 \<Longrightarrow> hex_digit n \<in> hex_chars"
proof -
  have "\<forall>n \<in> set [0..<16]. hex_digit n \<in> set ''0123456789abcdef''" by code_simp
  then show "n < 16 \<Longrightarrow> hex_digit n \<in> hex_chars" by (auto simp only: hex_chars_def set_upt atLeastLessThan_iff)
qed

lemma set_hex_nat: "set (hex_nat k n) \<subseteq> hex_chars"
proof (induction k arbitrary: n)
  case (Suc k)
  have "hex_digit (n mod 16) \<in> hex_chars" by (rule hex_digit_lower) simp
  with Suc show ?case by simp
qed simp

lemma set_sha256_hex: "set (sha256_hex msg) \<subseteq> hex_chars"
  unfolding sha256_hex_def by (auto dest: subsetD [OF set_hex_nat])

end
