(* ===== verification/Translate.thy ===== *)
theory Translate
  imports Sha256
begin

text \<open>
  Names of virtual objects in the host cluster (\<^verbatim>\<open>translate.go\<close> and the label keys of
  \<^verbatim>\<open>namespaced_translator.go\<close> of the vcluster SDK) and the identity of the plugin
  (\<^verbatim>\<open>pkg/plugin/name.go\<close>). The package variable \<^verbatim>\<open>translate.Suffix\<close> is set once, when the plugin
  starts; it is the first argument of the definitions that read it.
\<close>

section \<open>Definitions\<close>

abbreviation NamespaceLabel :: string where "NamespaceLabel \<equiv> ''vcluster.loft.sh/namespace''"
abbreviation MarkerLabel :: string where "MarkerLabel \<equiv> ''vcluster.loft.sh/managed-by''"
abbreviation ControllerLabel :: string where "ControllerLabel \<equiv> ''vcluster.loft.sh/controlled-by''"
abbreviation LabelPrefix :: string where "LabelPrefix \<equiv> ''vcluster.loft.sh/label''"
abbreviation NameAnnotation :: string where "NameAnnotation \<equiv> ''vcluster.loft.sh/object-name''"
abbreviation NamespaceAnnotation :: string where
  "NamespaceAnnotation \<equiv> ''vcluster.loft.sh/object-namespace''"
abbreviation ManagedAnnotationsAnnotation :: string where
  "ManagedAnnotationsAnnotation \<equiv> ''vcluster.loft.sh/managed-annotations''"

text \<open>\<^verbatim>\<open>os.Getenv(plugin.PLUGIN_NAME)\<close>; \<open>env\<close> is the environment, where a missing variable is empty.\<close>

definition GetPluginName :: "(string \<Rightarrow> string) \<Rightarrow> string" where
  "GetPluginName env = env ''VCLUSTER_PLUGIN_NAME''"

definition SafeConcatName :: "string list \<Rightarrow> string" where
  "SafeConcatName name =
     (let fullPath = strings_Join name ''-'' in
      if length fullPath > 63
      then strings_ReplaceAll (take 52 fullPath @ ''-'' @ take 10 (sha256_hex fullPath)) ''.-'' ''-''
      else fullPath)"

definition PhysicalName :: "string \<Rightarrow> string \<Rightarrow> string \<Rightarrow> string" where
  "PhysicalName Suffix name namespace =
     (if name = [] then [] else SafeConcatName [name, ''x'', namespace, ''x'', Suffix])"

definition ConvertLabelKey :: "string \<Rightarrow> string \<Rightarrow> string" where
  "ConvertLabelKey Suffix key =
     SafeConcatName [LabelPrefix, Suffix, ''x'', take 10 (sha256_hex key)]"

section \<open>Length and emptiness\<close>

lemma ReplaceAll_shrinks:
  "length new \<le> length old \<Longrightarrow> length (strings_ReplaceAll s old new) \<le> length s"
proof (induction s old new rule: strings_ReplaceAll.induct)
  case (2 c cs old new)
  show ?case
  proof (cases "old \<noteq> [] \<and> prefix old (c # cs)")
    case True
    then have "length old \<le> length (c # cs)" by (auto dest: prefix_length_le)
    with 2 True show ?thesis by auto
  qed (use 2 in auto)
qed simp

lemma ReplaceAll_nonempty: "s \<noteq> [] \<Longrightarrow> new \<noteq> [] \<Longrightarrow> strings_ReplaceAll s old new \<noteq> []"
  by (cases s) auto

lemma SafeConcatName_length: "length (SafeConcatName name) \<le> 63"
proof -
  let ?p = "strings_Join name ''-''"
  have "length (strings_ReplaceAll (take 52 ?p @ ''-'' @ take 10 (sha256_hex ?p)) ''.-'' ''-'')
      \<le> length (take 52 ?p @ ''-'' @ take 10 (sha256_hex ?p))"
    by (rule ReplaceAll_shrinks) simp
  also have "\<dots> \<le> 63" by simp
  finally show ?thesis by (simp add: SafeConcatName_def Let_def)
qed

lemma PhysicalName_length: "length (PhysicalName Suffix name namespace) \<le> 63"
  by (simp add: PhysicalName_def SafeConcatName_length)

lemma PhysicalName_empty: "PhysicalName Suffix name namespace = [] \<longleftrightarrow> name = []"
proof
  assume e: "PhysicalName Suffix name namespace = []"
  show "name = []"
  proof (rule ccontr)
    assume "name \<noteq> []"
    then have "SafeConcatName [name, ''x'', namespace, ''x'', Suffix] \<noteq> []"
      by (auto simp: SafeConcatName_def Let_def ReplaceAll_nonempty)
    with e \<open>name \<noteq> []\<close> show False by (simp add: PhysicalName_def)
  qed
qed (simp add: PhysicalName_def)

section \<open>When names collide\<close>

definition short_name :: "string \<Rightarrow> string \<Rightarrow> string \<Rightarrow> bool" where
  "short_name Suffix name namespace \<longleftrightarrow>
     name \<noteq> [] \<and> length name + length namespace + length Suffix + 6 \<le> 63"

lemma PhysicalName_short:
  "short_name Suffix name namespace \<Longrightarrow>
     PhysicalName Suffix name namespace = name @ ''-x-'' @ namespace @ ''-x-'' @ Suffix"
  by (simp add: short_name_def PhysicalName_def SafeConcatName_def Let_def)

text \<open>The last dash before the namespace separates it from the name.\<close>

lemma PhysicalName_inj:
  assumes "short_name Suffix n ns" "short_name Suffix n' ns'"
    and dash: "CHR ''-'' \<notin> set ns" "CHR ''-'' \<notin> set ns'"
    and eq: "PhysicalName Suffix n ns = PhysicalName Suffix n' ns'"
  shows "n = n' \<and> ns = ns'"
proof -
  have e: "(n @ ''-x'') @ CHR ''-'' # ns = (n' @ ''-x'') @ CHR ''-'' # ns'"
    using eq PhysicalName_short [OF assms(1)] PhysicalName_short [OF assms(2)] by simp
  have "strings_Split ((n @ ''-x'') @ CHR ''-'' # ns) (CHR ''-'')
      = strings_Split (n @ ''-x'') (CHR ''-'') @ [ns]"
    using dash(1) by (intro split_on_snoc) auto
  moreover have "strings_Split ((n' @ ''-x'') @ CHR ''-'' # ns') (CHR ''-'')
      = strings_Split (n' @ ''-x'') (CHR ''-'') @ [ns']"
    using dash(2) by (intro split_on_snoc) auto
  ultimately have "ns = ns'" using e by (metis append1_eq_conv)
  with e show ?thesis by simp
qed

lemma PhysicalName_inj_name:
  assumes "short_name Suffix n ns" "short_name Suffix n' ns"
    and "PhysicalName Suffix n ns = PhysicalName Suffix n' ns"
  shows "n = n'"
  using assms PhysicalName_short [OF assms(1)] PhysicalName_short [OF assms(2)] by simp

section \<open>Characters of a host name\<close>

lemma set_ReplaceAll: "set (strings_ReplaceAll s old new) \<subseteq> set s \<union> set new"
proof (induction s old new rule: strings_ReplaceAll.induct)
  case (2 c cs old new)
  show ?case
  proof (cases "old \<noteq> [] \<and> prefix old (c # cs)")
    case True
    then show ?thesis
      using "2.IH"(1) set_drop_subset [of "length old" "c # cs"] by (simp only: strings_ReplaceAll.simps if_True) auto
  next
    case False
    then show ?thesis using "2.IH"(2) by (simp only: strings_ReplaceAll.simps if_False) auto
  qed
qed simp

lemma set_strings_Join: "set (strings_Join ts sep) \<subseteq> (\<Union>t \<in> set ts. set t) \<union> set sep"
  by (induction ts sep rule: strings_Join.induct) auto

lemma PhysicalName_no_slash:
  assumes "CHR ''/'' \<notin> set name" "CHR ''/'' \<notin> set namespace" "CHR ''/'' \<notin> set Suffix"
  shows "CHR ''/'' \<notin> set (PhysicalName Suffix name namespace)"
proof -
  let ?p = "strings_Join [name, ''x'', namespace, ''x'', Suffix] ''-''"
  have p: "CHR ''/'' \<notin> set ?p"
    using assms set_strings_Join [of "[name, ''x'', namespace, ''x'', Suffix]" "''-''"] by auto
  have "CHR ''/'' \<notin> hex_chars" by (simp add: hex_chars_def)
  then have "CHR ''/'' \<notin> set (take 52 ?p @ ''-'' @ take 10 (sha256_hex ?p))"
    using p set_sha256_hex [of ?p] by (auto dest!: in_set_takeD)
  then have "CHR ''/'' \<notin> set (strings_ReplaceAll (take 52 ?p @ ''-'' @ take 10 (sha256_hex ?p)) ''.-'' ''-'')"
    using set_ReplaceAll [of "take 52 ?p @ ''-'' @ take 10 (sha256_hex ?p)" "''.-''" "''-''"] by auto
  with p show ?thesis by (simp add: PhysicalName_def SafeConcatName_def Let_def)
qed

end
