(* ===== verification/RegexReplace.thy ===== *)
theory RegexReplace
  imports Config
begin

text \<open>
  The regular-expression rewrites (\<^verbatim>\<open>pkg/patches/regex/regex.go\<close>): the expansion of the \<^verbatim>\<open>$NAME\<close> and
  \<^verbatim>\<open>$NAMESPACE\<close> placeholders, and the replacement of the matched groups by byte positions. The
  regular-expression engine itself is \<^verbatim>\<open>regexp\<close> of the Go library: a compiled expression is known by
  the names of its groups and the index pairs of its matches.
\<close>

section \<open>Placeholders (PrepareRegex)\<close>

abbreviation RegexNameGroup :: string where "RegexNameGroup \<equiv> ''NAME''"
abbreviation RegexNamespaceGroup :: string where "RegexNamespaceGroup \<equiv> ''NAMESPACE''"

abbreviation name_pattern :: string where
  "name_pattern \<equiv> ''(?P<NAME>[a-z](?:[-a-z0-9]*[a-z0-9])?)''"

abbreviation namespace_pattern :: string where
  "namespace_pattern \<equiv> ''(?P<NAMESPACE>[a-z0-9](?:[-a-z0-9]*[a-z0-9])?)''"

definition expand_placeholders :: "string \<Rightarrow> string" where
  "expand_placeholders re =
     strings_ReplaceAll (strings_ReplaceAll re ''$NAMESPACE'' namespace_pattern) ''$NAME'' name_pattern"

definition PrepareRegex :: "(string \<Rightarrow> go_error + go_regexp) \<Rightarrow> string \<Rightarrow> go_error + go_regexp" where
  "PrepareRegex regexp_Compile regex = regexp_Compile (expand_placeholders (strings_TrimSpace regex))"

section \<open>Replacing byte ranges (IndexBasedReplace)\<close>

record IndexBasedRelaceItem =
  StartIndex :: int
  EndIndex :: int
  Replacement :: string

text \<open>
  One iteration of the loop: cut the current string at the shifted indices, splice the replacement
  in and update the offset. \<^verbatim>\<open>sort.Slice\<close> is not stable; the order of items that start at one index
  is left to the library (here: the order of the slice).
\<close>

definition replace_item :: "IndexBasedRelaceItem \<Rightarrow> string \<times> int \<Rightarrow> (string \<times> int) result" where
  "replace_item i st = (case st of (s, indexOffset) \<Rightarrow>
     bind_result (slice s 0 (StartIndex i + indexOffset)) (\<lambda>before.
     bind_result (slice_from s (EndIndex i + indexOffset)) (\<lambda>after.
       Inr (before @ Replacement i @ after,
            indexOffset + int (length (Replacement i)) - (EndIndex i - StartIndex i)))))"

definition IndexBasedReplace :: "string \<Rightarrow> IndexBasedRelaceItem list \<Rightarrow> string result" where
  "IndexBasedReplace input items =
     bind_result (fold_result replace_item (sort_key StartIndex items) (input, 0))
       (\<lambda>(s, _). Inr s)"

section \<open>Translating the groups of every match (ProcessRegex)\<close>

text \<open>The positions of the two groups; of several groups of one name the last counts.\<close>

fun group_positions :: "int \<Rightarrow> string list \<Rightarrow> int \<times> int \<Rightarrow> int \<times> int" where
  "group_positions pos [] found = found"
| "group_positions pos (gn # gns) (namePos, namespacePos) =
     group_positions (pos + 1) gns
       (if gn = RegexNameGroup then (pos, namespacePos)
        else if gn = RegexNamespaceGroup then (namePos, pos)
        else (namePos, namespacePos))"

definition index_at :: "'a list \<Rightarrow> int \<Rightarrow> 'a result" where
  "index_at xs i = (if 0 \<le> i \<and> i < int (length xs) then Inr (xs ! nat i) else panic IndexOutOfRange)"

text \<open>The test \<^verbatim>\<open>pos != -1 && indexes[2*pos] != -1 && indexes[2*pos+1] != -1\<close>, and the pair it guards.\<close>

definition group_span :: "int list \<Rightarrow> int \<Rightarrow> (int \<times> int) option result" where
  "group_span indexes pos =
     (if pos = -1 then Inr None
      else bind_result (index_at indexes (2 * pos)) (\<lambda>a.
        if a = -1 then Inr None
        else bind_result (index_at indexes (2 * pos + 1)) (\<lambda>b.
          if b = -1 then Inr None else Inr (Some (a, b)))))"

type_synonym 's translate_func = "string \<Rightarrow> string \<Rightarrow> 's \<Rightarrow> NamespacedName \<times> 's"

definition process_match ::
  "'s translate_func \<Rightarrow> string \<Rightarrow> int \<Rightarrow> int \<Rightarrow> int list
     \<Rightarrow> IndexBasedRelaceItem list \<times> 's \<Rightarrow> (IndexBasedRelaceItem list \<times> 's) result" where
  "process_match translateFunc input namePos namespacePos indexes st = (case st of (replacements, s) \<Rightarrow>
     bind_result (group_span indexes namePos) (\<lambda>nameSpan. case nameSpan of
       None \<Rightarrow> Inr (replacements, s)
     | Some (a, b) \<Rightarrow>
         bind_result (slice input a b) (\<lambda>name.
         bind_result (group_span indexes namespacePos) (\<lambda>namespaceSpan.
         bind_result (case namespaceSpan of None \<Rightarrow> Inr [] | Some (c, d) \<Rightarrow> slice input c d) (\<lambda>namespace.
           let (translated, s') = translateFunc name namespace s in
           Inr (replacements @
                [\<lparr>StartIndex = a, EndIndex = b, Replacement = Name translated\<rparr>] @
                (case namespaceSpan of
                   None \<Rightarrow> []
                 | Some (c, d) \<Rightarrow>
                     [\<lparr>StartIndex = c, EndIndex = d, Replacement = Namespace translated\<rparr>]),
                s'))))))"

definition ProcessRegex ::
  "go_regexp \<Rightarrow> string \<Rightarrow> 's translate_func \<Rightarrow> 's \<Rightarrow> (string \<times> 's) result" where
  "ProcessRegex regex input translateFunc s =
     (let (namePos, namespacePos) = group_positions 0 (SubexpNames regex) (-1, -1) in
      bind_result (fold_result (process_match translateFunc input namePos namespacePos)
                     (FindAllStringSubmatchIndex regex input) ([], s)) (\<lambda>(replacements, s').
      bind_result (IndexBasedReplace input replacements) (\<lambda>out. Inr (out, s'))))"

section \<open>Ranges that do not overlap\<close>

definition span :: "IndexBasedRelaceItem \<Rightarrow> int \<times> int" where
  "span i = (StartIndex i, EndIndex i)"

definition apart_spans :: "int \<times> int \<Rightarrow> int \<times> int \<Rightarrow> bool" where
  "apart_spans p q \<longleftrightarrow> snd p \<le> fst q \<or> snd q \<le> fst p"

text \<open>What the documentation of \<^verbatim>\<open>IndexBasedReplace\<close> asks of its caller.\<close>

definition nonoverlapping :: "string \<Rightarrow> (int \<times> int) list \<Rightarrow> bool" where
  "nonoverlapping input ps \<longleftrightarrow>
     list_all (\<lambda>(a, b). 0 \<le> a \<and> a < b \<and> b \<le> int (length input)) ps \<and> sorted_wrt apart_spans ps"

definition sub :: "string \<Rightarrow> int \<Rightarrow> int \<Rightarrow> string" where
  "sub input a b = take (nat b - nat a) (drop (nat a) input)"

text \<open>The result, read off the input from left to right.\<close>

fun splice_items :: "string \<Rightarrow> int \<Rightarrow> IndexBasedRelaceItem list \<Rightarrow> string" where
  "splice_items input pos [] = drop (nat pos) input"
| "splice_items input pos (i # is) =
     sub input pos (StartIndex i) @ Replacement i @ splice_items input (EndIndex i) is"

fun in_order :: "string \<Rightarrow> int \<Rightarrow> IndexBasedRelaceItem list \<Rightarrow> bool" where
  "in_order input pos [] \<longleftrightarrow> pos \<le> int (length input)"
| "in_order input pos (i # is) \<longleftrightarrow>
     pos \<le> StartIndex i \<and> StartIndex i \<le> EndIndex i \<and> in_order input (EndIndex i) is"

lemma in_order_bound: "in_order input pos is \<Longrightarrow> pos \<le> int (length input)"
  by (induction "is" arbitrary: pos) force+

lemma slice_nat: "lo \<le> hi \<Longrightarrow> hi \<le> length xs \<Longrightarrow> slice xs (int lo) (int hi) = Inr (take (hi - lo) (drop lo xs))"
  by (simp add: slice_def)

lemma replace_step:
  assumes "p \<le> a" "a \<le> e" "e \<le> length input"
    and i: "StartIndex i = int a" "EndIndex i = int e"
  shows "replace_item i (d @ drop p input, int (length d) - int p)
      = Inr (d @ sub input (int p) (int a) @ Replacement i @ drop e input,
             int (length (d @ sub input (int p) (int a) @ Replacement i)) - int e)"
proof -
  let ?s = "d @ drop p input"
  have idx: "StartIndex i + (int (length d) - int p) = int (length d + (a - p))"
      "EndIndex i + (int (length d) - int p) = int (length d + (e - p))"
    using assms by auto
  have "slice ?s (int 0) (int (length d + (a - p))) = Inr (take (length d + (a - p)) ?s)"
    using assms by (subst slice_nat) auto
  then have 1: "slice ?s 0 (int (length d + (a - p))) = Inr (d @ sub input (int p) (int a))"
    by (simp add: sub_def)
  have "slice ?s (int (length d + (e - p))) (int (length ?s)) = Inr (drop (length d + (e - p)) ?s)"
    using assms by (subst slice_nat) auto
  moreover have "drop (length d + (e - p)) ?s = drop e input" using assms by simp
  ultimately have 2: "slice_from ?s (int (length d + (e - p))) = Inr (drop e input)" by simp
  have "length (sub input (int p) (int a)) = a - p" using assms by (simp add: sub_def)
  then show ?thesis
    unfolding replace_item_def prod.case idx 1 2 bind_result_simps using assms by simp
qed

lemma replace_loop:
  assumes "in_order input (int p) is"
  shows "bind_result (fold_result replace_item is (d @ drop p input, int (length d) - int p))
      (\<lambda>(s, _). Inr s) = Inr (d @ splice_items input (int p) is)"
  using assms
proof (induction "is" arbitrary: p d)
  case (Cons i "is")
  obtain a e where i: "StartIndex i = int a" "EndIndex i = int e"
    using Cons.prems by (metis in_order.simps(2) int_nat_eq nonneg_int_cases of_nat_0_le_iff order_trans)
  have "p \<le> a" "a \<le> e" "e \<le> length input"
    using Cons.prems i in_order_bound [of input "EndIndex i" "is"] by auto
  from replace_step [OF this i, of d] show ?case
    using Cons.IH [of e "d @ sub input (int p) (int a) @ Replacement i"] Cons.prems i by simp
qed simp

lemma apart_spans_sym: "apart_spans p q \<longleftrightarrow> apart_spans q p"
  by (auto simp: apart_spans_def)

lemma sorted_wrt_insort:
  assumes "\<And>x y. R x y \<longleftrightarrow> R y x"
  shows "sorted_wrt R (insort_key f x xs) \<longleftrightarrow> (\<forall>y \<in> set xs. R x y) \<and> sorted_wrt R xs"
  using assms by (induction xs) (auto simp: set_insort_key)

lemma sorted_wrt_sort_key:
  assumes "\<And>x y. R x y \<longleftrightarrow> R y x"
  shows "sorted_wrt R (sort_key f xs) \<longleftrightarrow> sorted_wrt R xs"
proof (induction xs)
  case (Cons x xs)
  then show ?case using sorted_wrt_insort [of R f x "sort_key f xs", OF assms] by simp
qed simp

lemma sorted_in_order:
  assumes "sorted (map StartIndex is)" "sorted_wrt apart_spans (map span is)"
    and "\<forall>i \<in> set is. 0 \<le> StartIndex i \<and> StartIndex i < EndIndex i \<and> EndIndex i \<le> int (length input)"
    and "pos \<le> int (length input)" "\<forall>i \<in> set is. pos \<le> StartIndex i"
  shows "in_order input pos is"
  using assms
proof (induction "is" arbitrary: pos)
  case (Cons i "is")
  have "EndIndex i \<le> StartIndex j" if "j \<in> set is" for j
    using that Cons.prems by (fastforce simp: apart_spans_def span_def)
  then show ?case using Cons by auto
qed simp

lemma nonoverlapping_in_order:
  assumes "nonoverlapping input (map span items)"
  shows "in_order input 0 (sort_key StartIndex items)"
proof (rule sorted_in_order)
  have "sorted_wrt (\<lambda>i j. apart_spans (span i) (span j)) items"
    using assms by (simp add: nonoverlapping_def sorted_wrt_map)
  then have "sorted_wrt (\<lambda>i j. apart_spans (span i) (span j)) (sort_key StartIndex items)"
    using sorted_wrt_sort_key [of "\<lambda>i j. apart_spans (span i) (span j)"] apart_spans_sym by blast
  then show "sorted_wrt apart_spans (map span (sort_key StartIndex items))"
    by (simp add: sorted_wrt_map)
qed (use assms in \<open>auto simp: nonoverlapping_def list_all_iff span_def\<close>)

lemma IndexBasedReplace_splice:
  assumes "nonoverlapping input (map span items)"
  shows "IndexBasedReplace input items = Inr (splice_items input 0 (sort_key StartIndex items))"
  using replace_loop [of input 0 "sort_key StartIndex items" "[]"] nonoverlapping_in_order [OF assms]
  by (simp add: IndexBasedReplace_def)

lemma nonoverlapping_inj:
  assumes "nonoverlapping input (map span items)"
  shows "distinct (map StartIndex items)"
  using assms
  by (induction items) (auto simp: nonoverlapping_def apart_spans_def span_def list_all_iff, force+)

lemma splice_unchanged:
  assumes "in_order input pos is" "0 \<le> pos"
    and "\<forall>i \<in> set is. Replacement i = sub input (StartIndex i) (EndIndex i)"
  shows "splice_items input pos is = drop (nat pos) input"
  using assms
proof (induction "is" arbitrary: pos)
  case (Cons i "is")
  have cut: "sub input a b @ drop (nat b) input = drop (nat a) input" if "0 \<le> a" "a \<le> b" for a b
  proof -
    have "drop (nat b) input = drop (nat b - nat a) (drop (nat a) input)" using that by simp
    then show ?thesis by (simp only: sub_def append_take_drop_id)
  qed
  have "splice_items input (EndIndex i) is = drop (nat (EndIndex i)) input"
    using Cons by auto
  then show ?case using Cons.prems cut [of "StartIndex i" "EndIndex i"] cut [of pos "StartIndex i"] by auto
qed simp

section \<open>What ProcessRegex computes\<close>

text \<open>
  The range of a group in one match, the ranges and the replacements of a match, read off without
  loops or faults. \<open>well_matched\<close> is what \<^verbatim>\<open>regexp\<close> promises of the index pairs (one pair for every
  group), and that the two groups of the pattern do not overlap.
\<close>

definition the_span :: "int list \<Rightarrow> int \<Rightarrow> (int \<times> int) option" where
  "the_span idx pos =
     (if pos = -1 \<or> idx ! nat (2 * pos) = -1 \<or> idx ! nat (2 * pos + 1) = -1 then None
      else Some (idx ! nat (2 * pos), idx ! nat (2 * pos + 1)))"

definition match_spans :: "int \<Rightarrow> int \<Rightarrow> int list \<Rightarrow> (int \<times> int) list" where
  "match_spans np nsp idx = (case the_span idx np of
     None \<Rightarrow> []
   | Some p \<Rightarrow> p # (case the_span idx nsp of None \<Rightarrow> [] | Some q \<Rightarrow> [q]))"

definition match_items ::
  "(string \<Rightarrow> string \<Rightarrow> NamespacedName) \<Rightarrow> string \<Rightarrow> int \<Rightarrow> int \<Rightarrow> int list \<Rightarrow> IndexBasedRelaceItem list" where
  "match_items f input np nsp idx = (case the_span idx np of
     None \<Rightarrow> []
   | Some (a, b) \<Rightarrow>
       (case the_span idx nsp of
          None \<Rightarrow> [\<lparr>StartIndex = a, EndIndex = b, Replacement = Name (f (sub input a b) [])\<rparr>]
        | Some (c, d) \<Rightarrow>
            [\<lparr>StartIndex = a, EndIndex = b,
              Replacement = Name (f (sub input a b) (sub input c d))\<rparr>,
             \<lparr>StartIndex = c, EndIndex = d,
              Replacement = Namespace (f (sub input a b) (sub input c d))\<rparr>]))"

abbreviation name_pos :: "go_regexp \<Rightarrow> int" where
  "name_pos re \<equiv> fst (group_positions 0 (SubexpNames re) (-1, -1))"

abbreviation namespace_pos :: "go_regexp \<Rightarrow> int" where
  "namespace_pos re \<equiv> snd (group_positions 0 (SubexpNames re) (-1, -1))"

definition well_matched :: "go_regexp \<Rightarrow> string \<Rightarrow> bool" where
  "well_matched re input \<longleftrightarrow>
     (\<forall>idx \<in> set (FindAllStringSubmatchIndex re input). length idx = 2 * length (SubexpNames re))
     \<and> nonoverlapping input
         (concat (map (match_spans (name_pos re) (namespace_pos re)) (FindAllStringSubmatchIndex re input)))"

lemma group_positions_range:
  "-1 \<le> fst st \<and> fst st < hi \<and> -1 \<le> snd st \<and> snd st < hi \<Longrightarrow> pos + int (length gns) \<le> hi \<Longrightarrow> 0 \<le> pos \<Longrightarrow>
    -1 \<le> fst (group_positions pos gns st) \<and> fst (group_positions pos gns st) < hi
    \<and> -1 \<le> snd (group_positions pos gns st) \<and> snd (group_positions pos gns st) < hi"
  by (induction pos gns st rule: group_positions.induct) auto

lemma group_pos_bounds:
  "-1 \<le> name_pos re \<and> name_pos re < int (length (SubexpNames re))
    \<and> -1 \<le> namespace_pos re \<and> namespace_pos re < int (length (SubexpNames re))"
  if "SubexpNames re \<noteq> []"
  using that group_positions_range [of "(-1, -1)" "int (length (SubexpNames re))" 0 "SubexpNames re"]
  by simp

lemma group_span_the_span:
  assumes "length idx = 2 * n" "-1 \<le> pos" "pos < int n"
  shows "group_span idx pos = Inr (the_span idx pos)"
  using assms by (auto simp: group_span_def the_span_def index_at_def)

lemma slice_sub:
  assumes "0 \<le> a" "a \<le> b" "b \<le> int (length input)"
  shows "slice input a b = Inr (sub input a b)"
  using assms by (simp add: slice_def sub_def)

lemma process_match_pure:
  assumes "group_span idx np = Inr (the_span idx np)" "group_span idx nsp = Inr (the_span idx nsp)"
    and "\<forall>(a, b) \<in> set (match_spans np nsp idx). 0 \<le> a \<and> a < b \<and> b \<le> int (length input)"
  shows "process_match (\<lambda>n ns s. (f n ns, s)) input np nsp idx (rs, s)
       = Inr (rs @ match_items f input np nsp idx, s)"
proof (cases "the_span idx np")
  case (Some p)
  obtain a b where p: "p = (a, b)" by fastforce
  have n: "slice input a b = Inr (sub input a b)"
    using assms(3) Some p by (intro slice_sub) (auto simp: match_spans_def split: option.splits)
  show ?thesis
  proof (cases "the_span idx nsp")
    case None
    with assms(1,2) Some p n show ?thesis by (simp add: process_match_def match_items_def)
  next
    case s: (Some q)
    obtain c d where q: "q = (c, d)" by fastforce
    have "slice input c d = Inr (sub input c d)"
      using assms(3) Some p s q by (intro slice_sub) (auto simp: match_spans_def)
    with assms(1,2) Some p s q n show ?thesis by (simp add: process_match_def match_items_def)
  qed
qed (use assms(1) in \<open>simp add: process_match_def match_items_def\<close>)

lemma process_matches_pure:
  assumes "\<forall>idx \<in> set idxs. group_span idx np = Inr (the_span idx np) \<and> group_span idx nsp = Inr (the_span idx nsp)"
    and "\<forall>(a, b) \<in> set (concat (map (match_spans np nsp) idxs)). 0 \<le> a \<and> a < b \<and> b \<le> int (length input)"
  shows "fold_result (process_match (\<lambda>n ns s. (f n ns, s)) input np nsp) idxs (rs, s)
       = Inr (rs @ concat (map (match_items f input np nsp) idxs), s)"
  using assms
proof (induction idxs arbitrary: rs)
  case (Cons idx idxs)
  have "process_match (\<lambda>n ns s. (f n ns, s)) input np nsp idx (rs, s)
       = Inr (rs @ match_items f input np nsp idx, s)"
    using Cons.prems by (intro process_match_pure) auto
  then show ?case using Cons by auto
qed simp

lemma map_span_items: "map span (match_items f input np nsp idx) = match_spans np nsp idx"
  by (auto simp: match_items_def match_spans_def span_def split: option.splits)

lemma map_span_all_items:
  "map span (concat (map (match_items f input np nsp) idxs)) = concat (map (match_spans np nsp) idxs)"
  by (induction idxs) (auto simp: map_span_items)

abbreviation all_items ::
  "(string \<Rightarrow> string \<Rightarrow> NamespacedName) \<Rightarrow> go_regexp \<Rightarrow> string \<Rightarrow> IndexBasedRelaceItem list" where
  "all_items f re input \<equiv> concat (map (match_items f input (name_pos re) (namespace_pos re))
     (FindAllStringSubmatchIndex re input))"

lemma ProcessRegex_splice:
  assumes wm: "well_matched re input" and ne: "SubexpNames re \<noteq> []"
  shows "ProcessRegex re input (\<lambda>n ns s. (f n ns, s)) s
       = Inr (splice_items input 0 (sort_key StartIndex (all_items f re input)), s)"
proof -
  let ?idxs = "FindAllStringSubmatchIndex re input"
  have spans: "\<forall>idx \<in> set ?idxs. group_span idx (name_pos re) = Inr (the_span idx (name_pos re))
      \<and> group_span idx (namespace_pos re) = Inr (the_span idx (namespace_pos re))"
    using wm group_pos_bounds [OF ne] group_span_the_span by (auto simp: well_matched_def)
  have no: "nonoverlapping input (map span (all_items f re input))"
    using wm by (simp only: well_matched_def map_span_all_items)
  have "fold_result (process_match (\<lambda>n ns s. (f n ns, s)) input (name_pos re) (namespace_pos re)) ?idxs ([], s)
      = Inr ([] @ all_items f re input, s)"
    using wm by (intro process_matches_pure [OF spans]) (simp add: well_matched_def nonoverlapping_def list_all_iff)
  then show ?thesis
    using IndexBasedReplace_splice [OF no] by (simp add: ProcessRegex_def case_prod_beta)
qed

text \<open>A translation that changes nothing leaves the input unchanged.\<close>

lemma items_identity:
  "i \<in> set (match_items (\<lambda>n ns. \<lparr>Namespace = ns, Name = n\<rparr>) input np nsp idx) \<Longrightarrow>
     Replacement i = sub input (StartIndex i) (EndIndex i)"
  by (auto simp: match_items_def split: option.splits)

section \<open>Placeholders expand everywhere\<close>

text \<open>An occurrence that starts before a character that only its head may be does not reach it.\<close>

lemma prefix_before:
  assumes "c \<notin> set t" "prefix (d # t) (a @ c # s)" "a \<noteq> []"
  shows "prefix (d # t) a"
proof -
  obtain x a' where a: "a = x # a'" using assms(3) by (cases a) auto
  have p: "prefix t (a' @ c # s)" and "x = d" using assms(2) a by auto
  have "prefix t a'"
    using p assms(1)
  proof (induction a' arbitrary: t)
    case Nil
    then show ?case by (cases t) auto
  next
    case (Cons y ys)
    then show ?case by (cases t) auto
  qed
  with a \<open>x = d\<close> show ?thesis by simp
qed

lemma ReplaceAll_hit: "old \<noteq> [] \<Longrightarrow> strings_ReplaceAll (old @ u) old new = new @ strings_ReplaceAll u old new"
  by (cases old) auto

lemma ReplaceAll_miss:
  "\<not> prefix old (c # cs) \<Longrightarrow> strings_ReplaceAll (c # cs) old new = c # strings_ReplaceAll cs old new"
  by simp

lemma ReplaceAll_append:
  assumes "c \<notin> set t"
  shows "strings_ReplaceAll (a @ c # s) (d # t) new
       = strings_ReplaceAll a (d # t) new @ strings_ReplaceAll (c # s) (d # t) new"
  using assms
proof (induction a "d # t" new rule: strings_ReplaceAll.induct)
  case (2 x xs new)
  show ?case
  proof (cases "prefix (d # t) (x # xs)")
    case True
    then obtain u where u: "x # xs = (d # t) @ u" by (auto simp: prefix_def)
    then have IH: "strings_ReplaceAll (u @ c # s) (d # t) new
        = strings_ReplaceAll u (d # t) new @ strings_ReplaceAll (c # s) (d # t) new"
      using "2.hyps"(1) [OF _ "2.prems"] True by simp
    have "strings_ReplaceAll ((x # xs) @ c # s) (d # t) new
        = new @ strings_ReplaceAll (u @ c # s) (d # t) new"
      unfolding u append_assoc by (rule ReplaceAll_hit) simp
    moreover have "strings_ReplaceAll (x # xs) (d # t) new = new @ strings_ReplaceAll u (d # t) new"
      unfolding u by (rule ReplaceAll_hit) simp
    ultimately show ?thesis using IH by simp
  next
    case False
    then have "\<not> prefix (d # t) (x # (xs @ c # s))"
      using prefix_before [OF "2.prems", of d "x # xs" s] by auto
    then show ?thesis
      using ReplaceAll_miss [OF False] ReplaceAll_miss [of "d # t" x "xs @ c # s" new]
        "2.hyps"(2) [OF _ "2.prems"] False by simp
  qed
qed simp

lemma ReplaceAll_skip:
  "d \<notin> set u \<Longrightarrow> strings_ReplaceAll (u @ s) (d # t) new = u @ strings_ReplaceAll s (d # t) new"
  by (induction u) auto

text \<open>Every occurrence of either placeholder is expanded, the longer one first.\<close>

lemma expand_namespace:
  "expand_placeholders (a @ ''$NAMESPACE'' @ b)
     = expand_placeholders a @ namespace_pattern @ expand_placeholders b"
proof -
  let ?R = "\<lambda>s. strings_ReplaceAll s ''$NAMESPACE'' namespace_pattern"
  let ?Q = "\<lambda>s. strings_ReplaceAll s ''$NAME'' name_pattern"
  have "?R (a @ ''$NAMESPACE'' @ b) = ?R a @ ?R (''$NAMESPACE'' @ b)"
    using ReplaceAll_append [of "CHR ''$''" "''NAMESPACE''" a "''NAMESPACE'' @ b"] by simp
  also have "?R (''$NAMESPACE'' @ b) = namespace_pattern @ ?R b" by (rule ReplaceAll_hit) simp
  finally have 1: "?R (a @ ''$NAMESPACE'' @ b) = ?R a @ namespace_pattern @ ?R b" .
  have "?Q (?R a @ namespace_pattern @ ?R b) = ?Q (?R a) @ ?Q (namespace_pattern @ ?R b)"
    using ReplaceAll_append [of "CHR ''(''" "''NAME''" "?R a" "tl namespace_pattern @ ?R b"] by simp
  also have "?Q (namespace_pattern @ ?R b) = namespace_pattern @ ?Q (?R b)"
    by (rule ReplaceAll_skip) simp
  finally show ?thesis unfolding expand_placeholders_def 1 .
qed

lemma expand_name:
  assumes "\<not> prefix ''SPACE'' b"
  shows "expand_placeholders (a @ ''$NAME'' @ b)
     = expand_placeholders a @ name_pattern @ expand_placeholders b"
proof -
  let ?R = "\<lambda>s. strings_ReplaceAll s ''$NAMESPACE'' namespace_pattern"
  let ?Q = "\<lambda>s. strings_ReplaceAll s ''$NAME'' name_pattern"
  have "?R (a @ ''$NAME'' @ b) = ?R a @ ?R (''$NAME'' @ b)"
    using ReplaceAll_append [of "CHR ''$''" "''NAMESPACE''" a "''NAME'' @ b"] by simp
  also have "?R (''$NAME'' @ b) = CHR ''$'' # ?R (''NAME'' @ b)"
    using ReplaceAll_miss [of "''$NAMESPACE''" "CHR ''$''" "''NAME'' @ b"] assms by simp
  also have "?R (''NAME'' @ b) = ''NAME'' @ ?R b" by (rule ReplaceAll_skip) simp
  finally have 1: "?R (a @ ''$NAME'' @ b) = ?R a @ ''$NAME'' @ ?R b" by simp
  have "?Q (?R a @ ''$NAME'' @ ?R b) = ?Q (?R a) @ ?Q (''$NAME'' @ ?R b)"
    using ReplaceAll_append [of "CHR ''$''" "''NAME''" "?R a" "''NAME'' @ ?R b"] by simp
  also have "?Q (''$NAME'' @ ?R b) = name_pattern @ ?Q (?R b)" by (rule ReplaceAll_hit) simp
  finally show ?thesis unfolding expand_placeholders_def 1 .
qed

end
