(* ===== verification/CacheHandler.thy ===== *)
theory CacheHandler
  imports NameIndex Translate Unstructured External RegexReplace
begin

text \<open>
  The informer handler that feeds the name cache (\<^verbatim>\<open>pkg/namecache/from_virtual_handler.go\<close>): the host
  names a virtual object refers to, extracted from its own name and from every scalar a rewriteName
  patch selects.
\<close>

section \<open>Mappings of an object\<close>

text \<open>The two inner maps of \<^verbatim>\<open>mappings\<close>: by host name, and by host name and path.\<close>

type_synonym mapping_maps = "key_values \<times> key_values"

definition addSingleMapping ::
  "string \<Rightarrow> string \<Rightarrow> string \<Rightarrow> mapping_maps \<Rightarrow> mapping_maps" where
  "addSingleMapping virtualName hostName path m = (case m of (names, paths) \<Rightarrow>
     (AList.update hostName virtualName names,
      AList.update (hostName @ ''/'' @ path) virtualName paths))"

text \<open>\<^verbatim>\<open>addSingleMapping(mappings, namespace+"/"+name, PhysicalName(name, namespace), path)\<close>.\<close>

definition add_reference ::
  "string \<Rightarrow> string \<Rightarrow> string \<Rightarrow> string \<Rightarrow> mapping_maps \<Rightarrow> mapping_maps" where
  "add_reference Suffix namespace name path =
     addSingleMapping (namespace @ ''/'' @ name) (PhysicalName Suffix name namespace) path"

definition collect_translate ::
  "string \<Rightarrow> goval \<Rightarrow> string \<Rightarrow> mapping_maps translate_func" where
  "collect_translate Suffix obj path name namespace m =
     (let ns = (if namespace = [] then GetNamespace obj else namespace)
      in (emptyNN, add_reference Suffix ns name path m))"

definition collect_match ::
  "string \<Rightarrow> goval \<Rightarrow> Patch \<Rightarrow> heap \<Rightarrow> addr \<Rightarrow> mapping_maps \<Rightarrow> mapping_maps result" where
  "collect_match Suffix obj p h m st =
     (if kind_at h m \<noteq> ScalarNode then Inr st
      else case ParsedRegex p of
          Some re \<Rightarrow>
            bind_result (ProcessRegex re (value_at h m) (collect_translate Suffix obj (Path p)) st)
              (\<lambda>(_, st'). Inr st')
        | None \<Rightarrow> Inr (add_reference Suffix (GetNamespace obj) (value_at h m) (Path p) st))"

definition collect_patch ::
  "external \<Rightarrow> string \<Rightarrow> goval \<Rightarrow> Patch option \<Rightarrow> mapping_maps \<Rightarrow> mapping_maps result" where
  "collect_patch E Suffix obj patch st = (case patch of
     None \<Rightarrow> panic NilDereference
   | Some p \<Rightarrow>
       if Operation p \<noteq> PatchTypeRewriteName then Inr st
       else
         bind_result (NewJSONNode E obj []) (\<lambda>(node, h).
         bind_result (wrap (''compile path '' @ Path p) (lift_error (compile_path E (Path p)))) (\<lambda>path.
         bind_result (path_Find (eval_filter E) path h node) (\<lambda>matches.
           fold_result (collect_match Suffix obj p h) matches st))))"

definition mappingsFromVirtualObject ::
  "external \<Rightarrow> string \<Rightarrow> goval \<Rightarrow> FromVirtualCluster \<Rightarrow> mapping_maps result" where
  "mappingsFromVirtualObject E Suffix obj mappingConfig =
     fold_result (collect_patch E Suffix obj) (Patches mappingConfig)
       (add_reference Suffix (GetNamespace obj) (GetName obj) MetadataFieldPath ([], []))"

section \<open>The handler\<close>

record fromVirtualClusterCacheHandler =
  handler_gvk :: GroupVersionKind
  handler_mapping :: FromVirtualCluster

text \<open>
  The informer hands over an object, or a tombstone when it missed the deletion
  (\<^verbatim>\<open>cache.DeletedFinalStateUnknown\<close>); the type assertion skips the latter.
\<close>

datatype informer_obj = UnstructuredObj goval | Tombstone

definition object_key :: "goval \<Rightarrow> string" where
  "object_key obj = GetNamespace obj @ ''/'' @ GetName obj"

definition index_mappings :: "goval \<Rightarrow> mapping_maps \<Rightarrow> IndexMappings" where
  "index_mappings obj m =
     \<lparr>IMName = object_key obj,
      IMMappings = [(IndexPhysicalToVirtualName, fst m), (IndexPhysicalToVirtualNamePath, snd m)]\<rparr>"

text \<open>\<^verbatim>\<open>OnAdd\<close> and \<^verbatim>\<open>OnUpdate\<close>: an object whose mappings cannot be computed leaves the cache as it is.\<close>

definition OnAdd ::
  "external \<Rightarrow> string \<Rightarrow> fromVirtualClusterCacheHandler \<Rightarrow> informer_obj
     \<Rightarrow> 'w nameCache \<times> 'w \<Rightarrow> ('w nameCache \<times> 'w) result" where
  "OnAdd E Suffix c obj st = (case obj of
     Tombstone \<Rightarrow> Inr st
   | UnstructuredObj o' \<Rightarrow>
       (case mappingsFromVirtualObject E Suffix o' (handler_mapping c) of
          Inl (Err e) \<Rightarrow> Inr st
        | Inl (Panic p) \<Rightarrow> panic p
        | Inr newMappings \<Rightarrow> Inr (ExchangeMapping (handler_gvk c) (index_mappings o' newMappings) st)))"

definition OnUpdate ::
  "external \<Rightarrow> string \<Rightarrow> fromVirtualClusterCacheHandler \<Rightarrow> informer_obj \<Rightarrow> informer_obj
     \<Rightarrow> 'w nameCache \<times> 'w \<Rightarrow> ('w nameCache \<times> 'w) result" where
  "OnUpdate E Suffix c oldObj newObj st = OnAdd E Suffix c newObj st"

definition OnDelete ::
  "fromVirtualClusterCacheHandler \<Rightarrow> informer_obj \<Rightarrow> 'w nameCache \<times> 'w \<Rightarrow> 'w nameCache \<times> 'w" where
  "OnDelete c obj st = (case obj of
     Tombstone \<Rightarrow> st
   | UnstructuredObj o' \<Rightarrow> RemoveMapping (handler_gvk c) (object_key o') st)"

section \<open>Every entry translates back\<close>

text \<open>
  What every recorded entry satisfies: its value is \<^verbatim>\<open>namespace/name\<close> of an object whose host name is
  the key (up to the path).
\<close>

definition name_entry_ok :: "string \<Rightarrow> string \<times> string \<Rightarrow> bool" where
  "name_entry_ok Suffix kv \<longleftrightarrow> (\<exists>ns n. snd kv = ns @ ''/'' @ n \<and> fst kv = PhysicalName Suffix n ns)"

definition path_entry_ok :: "string \<Rightarrow> string \<times> string \<Rightarrow> bool" where
  "path_entry_ok Suffix kv \<longleftrightarrow>
     (\<exists>ns n path. snd kv = ns @ ''/'' @ n \<and> fst kv = PhysicalName Suffix n ns @ ''/'' @ path)"

definition maps_ok :: "string \<Rightarrow> mapping_maps \<Rightarrow> bool" where
  "maps_ok Suffix m \<longleftrightarrow> distinct (map fst (fst m)) \<and> distinct (map fst (snd m))
     \<and> (\<forall>kv \<in> set (fst m). name_entry_ok Suffix kv) \<and> (\<forall>kv \<in> set (snd m). path_entry_ok Suffix kv)"

lemma set_update_subset: "set (AList.update k v es) \<subseteq> insert (k, v) (set es)"
  by (induction es) auto

lemma entries_ok_update:
  assumes "\<forall>kv \<in> set es. P kv" "distinct (map fst es)" "P (k, v)"
  shows "(\<forall>kv \<in> set (AList.update k v es). P kv) \<and> distinct (map fst (AList.update k v es))"
  using assms set_update_subset [of k v es] by (auto simp: distinct_update)

lemma add_reference_ok:
  assumes "maps_ok Suffix m"
  shows "maps_ok Suffix (add_reference Suffix ns n path m)"
proof -
  let ?v = "ns @ ''/'' @ n" and ?h = "PhysicalName Suffix n ns"
  have "name_entry_ok Suffix (?h, ?v)" "path_entry_ok Suffix (?h @ ''/'' @ path, ?v)"
    unfolding name_entry_ok_def path_entry_ok_def by auto
  then show ?thesis
    using assms entries_ok_update [of "fst m" "name_entry_ok Suffix" ?h ?v]
      entries_ok_update [of "snd m" "path_entry_ok Suffix" "?h @ ''/'' @ path" ?v]
    by (cases m) (simp add: maps_ok_def add_reference_def addSingleMapping_def)
qed

lemma ProcessRegex_state:
  assumes "ProcessRegex re input f s = Inr (out, s')" "P s" "\<And>n ns s. P s \<Longrightarrow> P (snd (f n ns s))"
  shows "P s'"
proof -
  obtain np nsp where pos: "group_positions 0 (SubexpNames re) (-1, -1) = (np, nsp)" by fastforce
  obtain rs where loop: "fold_result (process_match f input np nsp) (FindAllStringSubmatchIndex re input) ([], s)
      = Inr (rs, s')"
    using assms(1) pos by (auto simp: ProcessRegex_def result_simps)
  have step: "P (snd t)" if "process_match f input np nsp idx st = Inr t" "P (snd st)" for idx st t
  proof -
    obtain rs0 s0 where st: "st = (rs0, s0)" by fastforce
    have "snd t = s0 \<or> (\<exists>n ns. snd t = snd (f n ns s0))"
      using that(1) unfolding st process_match_def prod.case
      by (auto simp: result_simps Let_def case_prod_beta split: option.splits) blast+
    then show ?thesis using that(2) assms(3) st by auto
  qed
  have "P (snd (rs, s'))"
    by (rule fold_result_inv [OF loop, where P = "\<lambda>st. P (snd st)"]) (use assms(2) step in auto)
  then show ?thesis by simp
qed

text \<open>A property of the maps that every added reference keeps holds of the mappings of an object.\<close>

lemma collect_match_inv:
  assumes "collect_match Suffix obj p h m st = Inr st'" "P st"
    and add: "\<And>ns n path m. P m \<Longrightarrow> P (add_reference Suffix ns n path m)"
  shows "P st'"
proof (cases "kind_at h m \<noteq> ScalarNode \<or> ParsedRegex p = None")
  case True
  with assms(1) have "st' = st \<or> st' = add_reference Suffix (GetNamespace obj) (value_at h m) (Path p) st"
    by (auto simp: collect_match_def split: if_splits)
  then show ?thesis using assms(2) add by metis
next
  case False
  then obtain re where re: "ParsedRegex p = Some re" by auto
  with False assms(1) obtain out where
    "ProcessRegex re (value_at h m) (collect_translate Suffix obj (Path p)) st = Inr (out, st')"
    by (auto simp: collect_match_def result_simps)
  then show ?thesis
    by (rule ProcessRegex_state) (use assms(2) in \<open>auto simp: collect_translate_def Let_def add\<close>)
qed

lemma collect_patch_inv:
  assumes "collect_patch E Suffix obj patch st = Inr st'" "P st"
    and add: "\<And>ns n path m. P m \<Longrightarrow> P (add_reference Suffix ns n path m)"
  shows "P st'"
proof (cases patch)
  case (Some p)
  show ?thesis
  proof (cases "Operation p = PatchTypeRewriteName")
    case True
    with assms(1) Some obtain h ms where "fold_result (collect_match Suffix obj p h) ms st = Inr st'"
      by (auto simp: collect_patch_def result_simps)
    then show ?thesis
      by (rule fold_result_inv) (use assms(2) in \<open>auto intro: collect_match_inv add\<close>)
  qed (use assms Some in \<open>simp add: collect_patch_def\<close>)
qed (use assms in \<open>simp add: collect_patch_def\<close>)

lemma mappings_inv:
  assumes "mappingsFromVirtualObject E Suffix obj c = Inr m"
    and "P (add_reference Suffix (GetNamespace obj) (GetName obj) MetadataFieldPath ([], []))"
    and add: "\<And>ns n path m. P m \<Longrightarrow> P (add_reference Suffix ns n path m)"
  shows "P m"
  using assms(1) unfolding mappingsFromVirtualObject_def
  by (rule fold_result_inv) (use assms(2) in \<open>auto intro: collect_patch_inv add\<close>)

lemma mappings_ok: "mappingsFromVirtualObject E Suffix obj c = Inr m \<Longrightarrow> maps_ok Suffix m"
  by (erule mappings_inv; intro add_reference_ok) (simp_all add: maps_ok_def)

text \<open>The object's own host name is among the keys.\<close>

lemma mappings_own_name:
  "mappingsFromVirtualObject E Suffix obj c = Inr m \<Longrightarrow>
     PhysicalName Suffix (GetName obj) (GetNamespace obj) \<in> fst ` set (fst m)"
  by (erule mappings_inv)
    (auto simp: add_reference_def addSingleMapping_def update_conv' simp flip: dom_map_of_conv_image_fst
      split: prod.splits)

lemma index_mappings_lookup:
  "im_lookup (index_mappings obj m) i k =
     (if i = IndexPhysicalToVirtualName then map_of (fst m) k
      else if i = IndexPhysicalToVirtualNamePath then map_of (snd m) k else None)"
  by (simp add: im_lookup_def index_mappings_def)

lemma index_mappings_wf: "maps_ok Suffix m \<Longrightarrow> wf_mappings (index_mappings obj m)"
  by (simp add: wf_mappings_def index_mappings_def maps_ok_def)

section \<open>Histories of informer events\<close>

text \<open>What the informers of the mapped kinds report, each to the handler of its kind.\<close>

datatype informer_event =
    Added informer_obj
  | Updated informer_obj informer_obj
  | Deleted informer_obj

definition handle_event ::
  "external \<Rightarrow> string \<Rightarrow> fromVirtualClusterCacheHandler \<times> informer_event
     \<Rightarrow> 'w nameCache \<times> 'w \<Rightarrow> ('w nameCache \<times> 'w) result" where
  "handle_event E Suffix ce st = (case ce of (c, ev) \<Rightarrow> (case ev of
     Added obj \<Rightarrow> OnAdd E Suffix c obj st
   | Updated old new \<Rightarrow> OnUpdate E Suffix c old new st
   | Deleted obj \<Rightarrow> Inr (OnDelete c obj st)))"

definition handle_events ::
  "external \<Rightarrow> string \<Rightarrow> (fromVirtualClusterCacheHandler \<times> informer_event) list
     \<Rightarrow> 'w nameCache \<times> 'w \<Rightarrow> ('w nameCache \<times> 'w) result" where
  "handle_events E Suffix = fold_result (handle_event E Suffix)"

definition entries_translate_back :: "string \<Rightarrow> 'w nameCache \<times> 'w \<Rightarrow> bool" where
  "entries_translate_back Suffix st \<longleftrightarrow> cache_inv st \<and> (\<forall>gvk name k v.
     (contrib (fst st) gvk name IndexPhysicalToVirtualName k = Some v \<longrightarrow> name_entry_ok Suffix (k, v)) \<and>
     (contrib (fst st) gvk name IndexPhysicalToVirtualNamePath k = Some v \<longrightarrow> path_entry_ok Suffix (k, v)))"

lemma OnAdd_inv:
  assumes "OnAdd E Suffix c obj st = Inr st'" "entries_translate_back Suffix st"
  shows "entries_translate_back Suffix st'"
proof (cases obj)
  case (UnstructuredObj o')
  show ?thesis
  proof (cases "mappingsFromVirtualObject E Suffix o' (handler_mapping c)")
    case (Inl e)
    with assms UnstructuredObj show ?thesis by (cases e) (auto simp: OnAdd_def)
  next
    case (Inr m)
    have ok: "maps_ok Suffix m" using mappings_ok [OF Inr] .
    have st': "st' = ExchangeMapping (handler_gvk c) (index_mappings o' m) st"
      using assms(1) UnstructuredObj Inr by (simp add: OnAdd_def)
    have "im_lookup (index_mappings o' m) IndexPhysicalToVirtualName k = Some v \<Longrightarrow> name_entry_ok Suffix (k, v)"
      "im_lookup (index_mappings o' m) IndexPhysicalToVirtualNamePath k = Some v \<Longrightarrow> path_entry_ok Suffix (k, v)" for k v
      using ok map_of_SomeD [of "fst m" k v] map_of_SomeD [of "snd m" k v]
      by (auto simp: index_mappings_lookup maps_ok_def)
    moreover have inv: "cache_inv st" using assms(2) by (simp add: entries_translate_back_def)
    note ex = ExchangeMapping_inv [OF inv index_mappings_wf [OF ok, of o'], of "handler_gvk c"]
    ultimately show ?thesis
      using assms(2) unfolding st' entries_translate_back_def ex(2) by (simp add: ex(1))
  qed
qed (use assms in \<open>simp add: OnAdd_def\<close>)

lemma OnDelete_inv: "entries_translate_back Suffix st \<Longrightarrow> entries_translate_back Suffix (OnDelete c obj st)"
  by (cases obj) (auto simp: OnDelete_def RemoveMapping_def entries_translate_back_def removeMapping_inv)

lemma handle_events_inv:
  assumes "handle_events E Suffix evs st = Inr st'" "no_objects st"
  shows "entries_translate_back Suffix st'"
  using assms(1) unfolding handle_events_def
proof (rule fold_result_inv)
  show "entries_translate_back Suffix st"
    using cache.inv_empty [OF assms(2)] cache.provides_empty [OF assms(2)]
    by (simp add: entries_translate_back_def)
  fix ce s s' assume "entries_translate_back Suffix s" "handle_event E Suffix ce s = Inr s'"
  then show "entries_translate_back Suffix s'"
    by (cases ce; cases "snd ce") (auto simp: handle_event_def OnUpdate_def intro: OnAdd_inv OnDelete_inv)
qed

section \<open>Resolving a host name inverts the translation\<close>

lemma StringToNamespacedName_parts:
  assumes "CHR ''/'' \<notin> set ns" "CHR ''/'' \<notin> set n"
  shows "StringToNamespacedName (ns @ ''/'' @ n) = \<lparr>Namespace = ns, Name = n\<rparr>"
proof -
  have "strings_Split n (CHR ''/'') = [n]" by (rule split_on_no_sep) (use assms in auto)
  moreover have "\<forall>c \<in> set ns. c \<noteq> CHR ''/''" using assms(1) by auto
  ultimately have "strings_Split (ns @ CHR ''/'' # n) (CHR ''/'') = [ns, n]"
    by (subst split_on_append_sep) auto
  then show ?thesis by (simp add: StringToNamespacedName_def)
qed

lemma two_parts:
  assumes "Name (StringToNamespacedName (ns @ ''/'' @ n)) \<noteq> []"
  shows "StringToNamespacedName (ns @ ''/'' @ n) = \<lparr>Namespace = ns, Name = n\<rparr>
    \<and> CHR ''/'' \<notin> set ns \<and> CHR ''/'' \<notin> set n"
proof -
  obtain a b where ab: "strings_Split (ns @ CHR ''/'' # n) (CHR ''/'') = [a, b]"
    using assms by (auto simp: StringToNamespacedName_def split: list.splits)
  have "length (strings_Split (ns @ CHR ''/'' # n) (CHR ''/'')) = 2" using ab by simp
  then have "filter (\<lambda>c. c = CHR ''/'') ns = [] \<and> filter (\<lambda>c. c = CHR ''/'') n = []"
    unfolding split_on_length by simp
  then have no: "CHR ''/'' \<notin> set ns" "CHR ''/'' \<notin> set n" by (auto simp: filter_empty_conv)
  with StringToNamespacedName_parts show ?thesis by blast
qed

lemma ResolveName_entry:
  assumes "cache_inv st" "Name (ResolveName (fst st) gvk host) \<noteq> []"
  obtains name v where "contrib (fst st) gvk name IndexPhysicalToVirtualName host = Some v"
    "ResolveName (fst st) gvk host = StringToNamespacedName v"
  using cache.first_provided [OF assms(1), of gvk IndexPhysicalToVirtualName host] assms(2)
  by (fastforce simp: ResolveName_def Let_def split: if_splits)

lemma ResolveNamePath_entry:
  assumes "cache_inv st" "Name (ResolveNamePath (fst st) gvk host path) \<noteq> []"
  obtains name v where
    "contrib (fst st) gvk name IndexPhysicalToVirtualNamePath (host @ ''/'' @ path) = Some v"
    "ResolveNamePath (fst st) gvk host path = StringToNamespacedName v"
  using cache.first_provided [OF assms(1), of gvk IndexPhysicalToVirtualNamePath "host @ ''/'' @ path"] assms(2)
  by (fastforce simp: ResolveNamePath_def Let_def split: if_splits)

lemma ResolveName_inverts:
  assumes "entries_translate_back Suffix st" "Name (ResolveName (fst st) gvk host) \<noteq> []"
  shows "PhysicalName Suffix (Name (ResolveName (fst st) gvk host)) (Namespace (ResolveName (fst st) gvk host)) = host"
proof -
  have "cache_inv st" using assms(1) by (simp add: entries_translate_back_def)
  from ResolveName_entry [OF this assms(2)] obtain name v where
    v: "contrib (fst st) gvk name IndexPhysicalToVirtualName host = Some v"
      "ResolveName (fst st) gvk host = StringToNamespacedName v" by blast
  then have "name_entry_ok Suffix (host, v)" using assms(1) by (auto simp: entries_translate_back_def)
  then obtain ns n where "v = ns @ ''/'' @ n" "host = PhysicalName Suffix n ns" by (auto simp: name_entry_ok_def)
  with v(2) two_parts [of ns n] assms(2) show ?thesis by simp
qed

lemma append_slash_inj:
  "CHR ''/'' \<notin> set a \<Longrightarrow> CHR ''/'' \<notin> set b \<Longrightarrow> a @ CHR ''/'' # p = b @ CHR ''/'' # q \<Longrightarrow> a = b \<and> p = q"
  by (induction a arbitrary: b) (auto simp: Cons_eq_append_conv)

lemma ResolveNamePath_inverts:
  assumes "entries_translate_back Suffix st" "Name (ResolveNamePath (fst st) gvk host path) \<noteq> []"
    and "CHR ''/'' \<notin> set host" "CHR ''/'' \<notin> set Suffix"
  shows "PhysicalName Suffix (Name (ResolveNamePath (fst st) gvk host path))
    (Namespace (ResolveNamePath (fst st) gvk host path)) = host"
proof -
  have "cache_inv st" using assms(1) by (simp add: entries_translate_back_def)
  from ResolveNamePath_entry [OF this assms(2)] obtain name v where
    v: "contrib (fst st) gvk name IndexPhysicalToVirtualNamePath (host @ ''/'' @ path) = Some v"
      "ResolveNamePath (fst st) gvk host path = StringToNamespacedName v" by blast
  then have "path_entry_ok Suffix (host @ ''/'' @ path, v)"
    using assms(1) by (auto simp: entries_translate_back_def)
  then obtain ns n q where w: "v = ns @ ''/'' @ n" "host @ ''/'' @ path = PhysicalName Suffix n ns @ ''/'' @ q"
    by (auto simp: path_entry_ok_def)
  have nn: "StringToNamespacedName v = \<lparr>Namespace = ns, Name = n\<rparr>" "CHR ''/'' \<notin> set ns" "CHR ''/'' \<notin> set n"
    using two_parts [of ns n] v(2) w(1) assms(2) by auto
  have "host = PhysicalName Suffix n ns"
    using append_slash_inj [OF assms(3) PhysicalName_no_slash [OF nn(3,2) assms(4)]] w(2) by auto
  with v(2) nn(1) show ?thesis by simp
qed

end
