(* ===== verification/NameResolvers.thy ===== *)
theory NameResolvers
  imports PatchSafety CacheHandler
begin

text \<open>
  The three name resolvers of the syncers (\<^verbatim>\<open>from_virtual_syncer.go\<close> and \<^verbatim>\<open>back_syncer.go\<close>): virtual
  to host, host to virtual, and host to virtual with a memory. Each meets the contract
  \<open>safe_resolver\<close> of the patch engine. A resolver reads the name cache under its lock, once per
  call; the cache is a parameter of a call.
\<close>

section \<open>Virtual to host\<close>

record virtualToHost =
  vthNamespace :: string
  vthTargetNamespace :: string

definition vth_translate :: "string \<Rightarrow> virtualToHost \<Rightarrow> string \<Rightarrow> 's translate_func" where
  "vth_translate Suffix r namespace name ns s =
     (let ns' = (if ns = [] then namespace else ns)
      in (\<lparr>Namespace = vthTargetNamespace r, Name = PhysicalName Suffix name ns'\<rparr>, s))"

definition vth_TranslateNameWithNamespace ::
  "string \<Rightarrow> virtualToHost \<Rightarrow> string \<Rightarrow> string \<Rightarrow> go_regexp option \<Rightarrow> string \<Rightarrow> 's \<Rightarrow> (string \<times> 's) result" where
  "vth_TranslateNameWithNamespace Suffix r name namespace regex path s = (case regex of
     Some re \<Rightarrow> ProcessRegex re name (vth_translate Suffix r namespace) s
   | None \<Rightarrow> Inr (PhysicalName Suffix name namespace, s))"

definition vth_TranslateName ::
  "string \<Rightarrow> virtualToHost \<Rightarrow> string \<Rightarrow> go_regexp option \<Rightarrow> string \<Rightarrow> 's \<Rightarrow> (string \<times> 's) result" where
  "vth_TranslateName Suffix r name regex path =
     vth_TranslateNameWithNamespace Suffix r name (vthNamespace r) regex []"

text \<open>The loop over a label map: every key converted, the two markers written last.\<close>

definition convert_labels :: "string \<Rightarrow> (string \<times> string) list \<Rightarrow> (string \<times> string) list" where
  "convert_labels Suffix ls = fold (\<lambda>(k, v). AList.update (ConvertLabelKey Suffix k) v) ls []"

definition with_markers :: "string \<Rightarrow> string \<Rightarrow> (string \<times> string) list \<Rightarrow> (string \<times> string) list" where
  "with_markers Suffix namespace ls =
     AList.update MarkerLabel Suffix (AList.update NamespaceLabel namespace ls)"

text \<open>
  The first iteration over the match expressions stores at index 0 of a slice of length 0, which
  panics.
\<close>

definition vth_TranslateLabelExpressionsSelector ::
  "string \<Rightarrow> virtualToHost \<Rightarrow> MetaLabelSelector option \<Rightarrow> 's \<Rightarrow> (MetaLabelSelector option \<times> 's) result" where
  "vth_TranslateLabelExpressionsSelector Suffix r selector s = (case selector of
     None \<Rightarrow> Inr (None, s)
   | Some sel \<Rightarrow>
       if MatchExpressions sel \<noteq> [] then panic IndexOutOfRange
       else Inr (Some \<lparr>MatchLabels = with_markers Suffix (vthNamespace r) (convert_labels Suffix (MatchLabels sel)),
                       MatchExpressions = []\<rparr>, s))"

definition vth_TranslateLabelKey :: "string \<Rightarrow> string \<Rightarrow> 's \<Rightarrow> (string \<times> 's) result" where
  "vth_TranslateLabelKey Suffix key s = Inr (ConvertLabelKey Suffix key, s)"

definition vth_TranslateLabelSelector ::
  "string \<Rightarrow> virtualToHost \<Rightarrow> (string \<times> string) list option \<Rightarrow> 's
     \<Rightarrow> ((string \<times> string) list option \<times> 's) result" where
  "vth_TranslateLabelSelector Suffix r selector s = (case selector of
     None \<Rightarrow> Inr (Some [], s)
   | Some ls \<Rightarrow> Inr (Some (with_markers Suffix (vthNamespace r) (convert_labels Suffix ls)), s))"

definition vth_TranslateNamespaceRef :: "virtualToHost \<Rightarrow> string \<Rightarrow> 's \<Rightarrow> (string \<times> 's) result" where
  "vth_TranslateNamespaceRef r namespace s = Inr (vthTargetNamespace r, s)"

definition virtualToHostNameResolver :: "string \<Rightarrow> virtualToHost \<Rightarrow> 's NameResolver" where
  "virtualToHostNameResolver Suffix r = \<lparr>
     TranslateName = vth_TranslateName Suffix r,
     TranslateLabelKey = vth_TranslateLabelKey Suffix,
     TranslateLabelExpressionsSelector = vth_TranslateLabelExpressionsSelector Suffix r,
     TranslateLabelSelector = vth_TranslateLabelSelector Suffix r,
     TranslateNameWithNamespace = vth_TranslateNameWithNamespace Suffix r,
     TranslateNamespaceRef = vth_TranslateNamespaceRef r\<rparr>"

section \<open>Host to virtual\<close>

definition resolve :: "'w nameCache \<Rightarrow> GroupVersionKind \<Rightarrow> string \<Rightarrow> string \<Rightarrow> NamespacedName" where
  "resolve nameCache gvk path name =
     (if path = [] then ResolveName nameCache gvk name else ResolveNamePath nameCache gvk name path)"

abbreviation not_supported :: "'a result" where
  "not_supported \<equiv> fail ''translation not supported from host to virtual object''"

abbreviation could_not_translate :: "string \<Rightarrow> 'a result" where
  "could_not_translate name \<equiv>
     fail (''could not translate '' @ name @ '' host resource name to vcluster resource name'')"

definition htv_TranslateName ::
  "'w nameCache \<Rightarrow> GroupVersionKind \<Rightarrow> string \<Rightarrow> go_regexp option \<Rightarrow> string \<Rightarrow> 's \<Rightarrow> (string \<times> 's) result" where
  "htv_TranslateName nameCache gvk name regex path s = (case regex of
     Some re \<Rightarrow> ProcessRegex re name (\<lambda>n ns s. (resolve nameCache gvk path n, s)) s
   | None \<Rightarrow>
       let n = resolve nameCache gvk path name
       in if Name n = [] then could_not_translate name else Inr (Name n, s))"

definition hostToVirtualNameResolver ::
  "'w nameCache \<Rightarrow> GroupVersionKind \<Rightarrow> 's NameResolver" where
  "hostToVirtualNameResolver nameCache gvk = \<lparr>
     TranslateName = htv_TranslateName nameCache gvk,
     TranslateLabelKey = (\<lambda>key s. not_supported),
     TranslateLabelExpressionsSelector = (\<lambda>selector s. not_supported),
     TranslateLabelSelector = (\<lambda>selector s. not_supported),
     TranslateNameWithNamespace = (\<lambda>name namespace regex path s. not_supported),
     TranslateNamespaceRef = (\<lambda>namespace s. not_supported)\<rparr>"

section \<open>Host to virtual, memorizing\<close>

text \<open>The state is the map \<^verbatim>\<open>mappings\<close>, nil before the first call when the caller gave none.\<close>

type_synonym memory = "(string \<times> string) list option"

definition mem_TranslateName ::
  "'w nameCache \<Rightarrow> GroupVersionKind \<Rightarrow> string \<Rightarrow> go_regexp option \<Rightarrow> string \<Rightarrow> memory
     \<Rightarrow> (string \<times> memory) result" where
  "mem_TranslateName nameCache gvk name regex path mappings =
     (let m = (case mappings of None \<Rightarrow> [] | Some m \<Rightarrow> m);
          key = name @ ''/'' @ path;
          n = resolve nameCache gvk path name
      in if Name n = [] then
           (if str_at (Some m) key \<noteq> [] then Inr (str_at (Some m) key, Some m)
            else could_not_translate name)
         else Inr (Name n, Some (AList.update key (Name n) m)))"

definition memorizingHostToVirtualNameResolver ::
  "'w nameCache \<Rightarrow> GroupVersionKind \<Rightarrow> memory NameResolver" where
  "memorizingHostToVirtualNameResolver nameCache gvk = \<lparr>
     TranslateName = mem_TranslateName nameCache gvk,
     TranslateLabelKey = (\<lambda>key s. not_supported),
     TranslateLabelExpressionsSelector = (\<lambda>selector s. not_supported),
     TranslateLabelSelector = (\<lambda>selector s. not_supported),
     TranslateNameWithNamespace = (\<lambda>name namespace regex path s. not_supported),
     TranslateNamespaceRef = (\<lambda>namespace s. not_supported)\<rparr>"

section \<open>The resolvers meet the contract\<close>

lemma yields_slice_True: "yields (\<lambda>_. True) (GoStrings.slice xs lo hi)"
  by (simp add: GoStrings.slice_def yields_def)

lemma yields_group_span: "yields (\<lambda>_. True) (group_span idx pos)"
  by (auto simp: group_span_def index_at_def yields_def)

lemma yields_IndexBasedReplace: "yields (\<lambda>_. True) (IndexBasedReplace input items)"
proof -
  have "yields (\<lambda>_. True) (fold_result replace_item is st)" for "is" st
    by (rule yields_fold)
      (auto simp: replace_item_def split: prod.splits intro!: yields_bind [OF yields_slice_True] yields_Inr)
  then show ?thesis
    unfolding IndexBasedReplace_def by (rule yields_bind) (auto intro: yields_Inr)
qed

lemma yields_process_match:
  assumes "P (snd st)" "\<And>n ns s. P s \<Longrightarrow> P (snd (f n ns s))"
  shows "yields (\<lambda>st. P (snd st)) (process_match f input np nsp idx st)"
  using assms unfolding process_match_def
  by (auto split: prod.splits option.splits intro!: yields_bind [OF yields_group_span]
      yields_bind [OF yields_slice_True] yields_Inr) (metis snd_conv)+

lemma yields_ProcessRegex:
  assumes "P s" "\<And>n ns s. P s \<Longrightarrow> P (snd (f n ns s))"
  shows "yields (\<lambda>(out, s'). P s') (ProcessRegex re input f s)"
proof -
  obtain np nsp where pos: "group_positions 0 (SubexpNames re) (-1, -1) = (np, nsp)" by fastforce
  have "yields (\<lambda>st. P (snd st))
      (fold_result (process_match f input np nsp) (FindAllStringSubmatchIndex re input) ([], s))"
    by (rule yields_fold) (use assms in \<open>auto intro: yields_process_match\<close>)
  then show ?thesis
    unfolding ProcessRegex_def pos Let_def prod.case
    by (rule yields_bind) (auto intro!: yields_bind [OF yields_IndexBasedReplace] yields_Inr)
qed

interpretation vth: safe_resolver "virtualToHostNameResolver Suffix r" "\<lambda>_. True"
  by unfold_locales
    (auto simp: keeps_def virtualToHostNameResolver_def vth_TranslateName_def
      vth_TranslateNameWithNamespace_def vth_TranslateLabelKey_def vth_TranslateLabelSelector_def
      vth_TranslateLabelExpressionsSelector_def vth_TranslateNamespaceRef_def
      split: option.splits intro: yields_intro yields_ProcessRegex [where P = "\<lambda>_. True", simplified])

interpretation htv: safe_resolver "hostToVirtualNameResolver nameCache gvk" "\<lambda>_. True"
  by unfold_locales
    (auto simp: keeps_def hostToVirtualNameResolver_def htv_TranslateName_def Let_def
      split: option.splits intro: yields_intro yields_ProcessRegex [where P = "\<lambda>_. True", simplified])

interpretation mem: safe_resolver "memorizingHostToVirtualNameResolver nameCache gvk" "\<lambda>_. True"
  by unfold_locales
    (auto simp: keeps_def memorizingHostToVirtualNameResolver_def mem_TranslateName_def Let_def
      intro: yields_intro)

section \<open>What the resolvers return\<close>

lemma vth_TranslateName_plain:
  "vth_TranslateName Suffix r name None path s = Inr (PhysicalName Suffix name (vthNamespace r), s)"
  by (simp add: vth_TranslateName_def vth_TranslateNameWithNamespace_def)

lemma resolve_inverts:
  assumes "entries_translate_back Suffix st" "Name (resolve (fst st) gvk path host) \<noteq> []"
    and "path = [] \<or> (CHR ''/'' \<notin> set host \<and> CHR ''/'' \<notin> set Suffix)"
  shows "PhysicalName Suffix (Name (resolve (fst st) gvk path host))
    (Namespace (resolve (fst st) gvk path host)) = host"
proof (cases "path = []")
  case True
  then show ?thesis using ResolveName_inverts [OF assms(1), of gvk host] assms(2) by (simp add: resolve_def)
next
  case False
  then show ?thesis
    using ResolveNamePath_inverts [OF assms(1), of gvk host path] assms(2,3) by (simp add: resolve_def)
qed

text \<open>A name the host-to-virtual resolver returns has the given name as its host name.\<close>

lemma htv_TranslateName_inverts:
  assumes "entries_translate_back Suffix st"
    and "htv_TranslateName (fst st) gvk host None path s = Inr (name, s')"
    and "path = [] \<or> (CHR ''/'' \<notin> set host \<and> CHR ''/'' \<notin> set Suffix)"
  shows "\<exists>ns. PhysicalName Suffix name ns = host"
  using assms(2) resolve_inverts [OF assms(1) _ assms(3)]
  by (auto simp: htv_TranslateName_def Let_def split: if_splits)

lemma mem_TranslateName_nonempty:
  "mem_TranslateName n gvk name re path m = Inr (v, m') \<Longrightarrow> v \<noteq> []"
  by (auto simp: mem_TranslateName_def Let_def split: if_splits)

lemma mem_TranslateName_remembers:
  assumes "mem_TranslateName n gvk name re path m = Inr (v, m')"
    and "Name (resolve n' gvk path name) = []"
  shows "mem_TranslateName n' gvk name re' path m' = Inr (v, m')"
  using assms
  by (auto simp: mem_TranslateName_def Let_def str_at_update split: if_splits)

lemma mem_TranslateName_frame:
  assumes "mem_TranslateName n gvk name re path m = Inr (v, m')" "k \<noteq> name @ ''/'' @ path"
  shows "str_at m' k = str_at m k"
  using assms by (auto simp: mem_TranslateName_def Let_def str_at_update str_at_def update_conv' split: if_splits option.splits)

text \<open>Label selectors keep their values under the converted keys and gain the two markers.\<close>

lemma convert_labels_lookup:
  assumes "inj_on (ConvertLabelKey Suffix) (fst ` set ls)" "distinct (map fst ls)" "(k, v) \<in> set ls"
  shows "map_of (convert_labels Suffix ls) (ConvertLabelKey Suffix k) = Some v"
proof -
  let ?c = "ConvertLabelKey Suffix"
  have "map_of (fold (\<lambda>(k, v). AList.update (?c k) v) ls acc) (?c k) = Some v"
    if "inj_on ?c (fst ` set ls)" "distinct (map fst ls)" "(k, v) \<in> set ls" for ls acc
    using that
  proof (induction ls arbitrary: acc)
    case (Cons l ls)
    obtain k' v' where l: "l = (k', v')" by fastforce
    have other: "map_of (fold (\<lambda>(k, v). AList.update (?c k) v) xs acc) y = map_of acc y"
      if "y \<notin> ?c ` fst ` set xs" for xs acc y
      using that by (induction xs arbitrary: acc) (auto simp: update_conv')
    show ?case
    proof (cases "k = k'")
      case True
      then have "v = v'" "?c k \<notin> ?c ` fst ` set ls"
        using Cons.prems l by (force simp: inj_on_def)+
      with True l show ?thesis by (simp add: other update_conv')
    next
      case False
      with Cons l show ?thesis by (auto simp: inj_on_def)
    qed
  qed simp
  with assms show ?thesis by (simp add: convert_labels_def)
qed

lemma with_markers_lookup:
  "map_of (with_markers Suffix ns ls) k =
     (if k = MarkerLabel then Some Suffix else if k = NamespaceLabel then Some ns else map_of ls k)"
  by (simp add: with_markers_def update_conv')

end
