(* ===== verification/Translator.thy ===== *)
theory Translator
  imports Translate Unstructured "HOL-Library.List_Lexorder" "HOL-Library.Char_ord"
begin

text \<open>
  The metadata of a host object made from a virtual one (\<^verbatim>\<open>namespaced_translator.go\<close> of the vcluster
  SDK), for the call the syncers make: a new object, without excluded annotations. The package
  variable \<^verbatim>\<open>translate.Owner\<close> is never set by the plugin framework, so no owner is written.
\<close>

definition translateAnnotations :: "goval \<Rightarrow> (string \<times> string) list" where
  "translateAnnotations vObj =
     (let excluded = [ManagedAnnotationsAnnotation, NameAnnotation, NamespaceAnnotation];
          kept = filter (\<lambda>(k, v). k \<notin> set excluded)
                   (case GetAnnotations vObj of None \<Rightarrow> [] | Some es \<Rightarrow> es);
          managed = strings_Join (sort (map fst kept)) [CHR 0x0A];
          m1 = AList.update NameAnnotation (GetName vObj) kept;
          m2 = (if GetNamespace vObj = [] then AList.delete NamespaceAnnotation m1
                else AList.update NamespaceAnnotation (GetNamespace vObj) m1)
      in if managed = [] then AList.delete ManagedAnnotationsAnnotation m2
         else AList.update ManagedAnnotationsAnnotation managed m2)"

definition translateLabels :: "string \<Rightarrow> goval \<Rightarrow> (string \<times> string) list" where
  "translateLabels Suffix vObj =
     (let newLabels = fold (\<lambda>(k, v). AList.update (if k = NamespaceLabel then k else ConvertLabelKey Suffix k) v)
            (case GetLabels vObj of None \<Rightarrow> [] | Some es \<Rightarrow> es) [];
          l1 = AList.update MarkerLabel Suffix newLabels
      in if GetNamespace vObj = [] then l1 else AList.update NamespaceLabel (GetNamespace vObj) l1)"

definition setupMetadataWithName :: "string \<Rightarrow> string \<Rightarrow> goval \<Rightarrow> goval" where
  "setupMetadataWithName Suffix targetNamespace vObj =
     (let m = SetName (PhysicalName Suffix (GetName vObj) (GetNamespace vObj)) (ResetObjectMetadata vObj)
      in if GetNamespace vObj = [] then m else SetNamespace targetNamespace m)"

definition TranslateMetadata :: "string \<Rightarrow> string \<Rightarrow> goval \<Rightarrow> goval" where
  "TranslateMetadata Suffix physicalNamespace vObj =
     SetAnnotations (Some (translateAnnotations vObj))
       (SetLabels (Some (translateLabels Suffix vObj)) (setupMetadataWithName Suffix physicalNamespace vObj))"

definition IsManaged :: "string \<Rightarrow> goval \<Rightarrow> bool" where
  "IsManaged Suffix obj \<longleftrightarrow> (case GetLabels obj of
     None \<Rightarrow> False
   | Some ls \<Rightarrow> str_at (Some ls) MarkerLabel = Suffix)"

section \<open>What the translated object carries\<close>

lemma setup_meta:
  assumes "obj_ok vObj"
  shows "obj_ok (setupMetadataWithName Suffix tns vObj)"
    and "meta (setupMetadataWithName Suffix tns vObj) ''name''
      = (if GetName vObj = [] then None else Some (VStr (PhysicalName Suffix (GetName vObj) (GetNamespace vObj))))"
    and "meta (setupMetadataWithName Suffix tns vObj) ''namespace'' =
      (if GetNamespace vObj = [] then meta vObj ''namespace''
       else if tns = [] then None else Some (VStr tns))"
  using assms
  by (simp_all add: setupMetadataWithName_def Let_def SetName_def SetNamespace_def obj_ok_rules
      meta_rules PhysicalName_empty)

lemma translated_meta:
  assumes "obj_ok vObj"
  shows "obj_ok (TranslateMetadata Suffix tns vObj)"
    and "GetName (TranslateMetadata Suffix tns vObj) = PhysicalName Suffix (GetName vObj) (GetNamespace vObj)"
    and "GetNamespace vObj \<noteq> [] \<Longrightarrow> GetNamespace (TranslateMetadata Suffix tns vObj) = tns"
    and "GetLabels (TranslateMetadata Suffix tns vObj) = Some (translateLabels Suffix vObj)"
    and "GetAnnotations (TranslateMetadata Suffix tns vObj) = Some (translateAnnotations vObj)"
  using setup_meta [OF assms]
  by (simp_all add: TranslateMetadata_def SetLabels_def SetAnnotations_def obj_ok_rules meta_rules
      accessors_meta PhysicalName_def [of _ "[]"] split: option.splits)

lemma translated_managed: "obj_ok vObj \<Longrightarrow> IsManaged Suffix (TranslateMetadata Suffix tns vObj)"
  by (simp add: IsManaged_def translated_meta translateLabels_def Let_def str_at_update)

lemma translated_annotations:
  "str_at (Some (translateAnnotations vObj)) NameAnnotation = GetName vObj"
  "str_at (Some (translateAnnotations vObj)) NamespaceAnnotation = GetNamespace vObj"
  by (simp_all add: translateAnnotations_def Let_def str_at_update str_at_delete)

end
