(* ===== verification/Patcher.thy ===== *)
theory Patcher
  imports Io NameResolvers Translator
begin

text \<open>
  The patcher both syncers drive (\<^verbatim>\<open>pkg/syncer/generic.go\<close>): applying the patches of a mapping to the
  translated object and sending the result to the target cluster, and applying the reverse patches
  to the source object and updating it when something changed.
\<close>

section \<open>Definitions\<close>

abbreviation controlledByLabel :: string where
  "controlledByLabel \<equiv> ''vcluster.loft.sh/controlled-by''"

record 'w patcher =
  fromClient :: "'w Client"
  toClient :: "'w Client"
  statusIsSubresource :: bool

text \<open>\<^verbatim>\<open>fmt.Errorf(msg + ": %v", err)\<close> keeps the text of an error and loses its reason.\<close>

fun errorf :: "string \<Rightarrow> 'a result \<Rightarrow> 'a result" where
  "errorf msg (Inl (Err e)) = fail (msg @ '': '' @ error_text e)"
| "errorf msg m = m"

text \<open>\<^verbatim>\<open>toUnstructured\<close>: for an unstructured object the converter makes a deep copy.\<close>

definition toUnstructured :: "goval \<Rightarrow> goval result" where
  "toUnstructured obj = Inr obj"

definition status_of :: "goval \<Rightarrow> goval option result" where
  "status_of obj = NestedFieldNoCopy obj [''status'']"

definition patcher_ApplyPatches ::
  "external \<Rightarrow> 'w patcher \<Rightarrow> goval \<Rightarrow> goval option \<Rightarrow> Patch option list \<Rightarrow> Patch option list
     \<Rightarrow> (goval \<Rightarrow> goval result) \<Rightarrow> 'r NameResolver \<Rightarrow> 'r \<Rightarrow> ('w, goval \<times> 'r) io" where
  "patcher_ApplyPatches E s fromObj toObj patchesConfig reversePatchesConfig translateMetadata nameResolver r =
     bind_io (lift_io (wrap ''translate object'' (translateMetadata fromObj))) (\<lambda>translatedObject.
     bind_io (lift_io (toUnstructured translatedObject)) (\<lambda>toObjBase.
     bind_io (lift_io (errorf ''error applying patches''
       (ApplyPatches E toObjBase toObj patchesConfig reversePatchesConfig nameResolver r))) (\<lambda>(patched, r').
     bind_io
       (if \<not> statusIsSubresource s then return_io patched
        else
          bind_io (lift_io (status_of patched)) (\<lambda>afterStatus.
            if afterStatus = None then return_io patched
            else
              bind_io (wrap_io ''apply status'' (StatusApply (toClient s) patched)) (\<lambda>_.
                return_io (RemoveNestedField [''status''] patched)))) (\<lambda>toObjCopied.
     bind_io (wrap_io ''apply object'' (ApplyPatch (toClient s) toObjCopied)) (\<lambda>_.
       return_io (toObjCopied, r'))))))"

datatype OperationResult = ResultNone | ResultUpdated | ResultUpdatedStatus | ResultUpdatedStatusOnly

definition nil_value :: "goval option \<Rightarrow> goval" where
  "nil_value v = (case v of None \<Rightarrow> VNil | Some x \<Rightarrow> x)"

definition patcher_ApplyReversePatches ::
  "external \<Rightarrow> 'w patcher \<Rightarrow> goval \<Rightarrow> goval \<Rightarrow> Patch option list \<Rightarrow> 'r NameResolver \<Rightarrow> 'r
     \<Rightarrow> ('w, OperationResult) io" where
  "patcher_ApplyReversePatches E s fromObj otherObj reversePatchConfig nameResolver r =
     bind_io (lift_io (toUnstructured fromObj)) (\<lambda>original.
     bind_io (lift_io (errorf ''error applying reverse patches''
       (ApplyPatches E original (Some otherObj) reversePatchConfig [] nameResolver r))) (\<lambda>(fromCopied, r').
     let compare_rest = (\<lambda>original fromCopied.
           if \<not> deep_equal original fromCopied then
             bind_io (wrap_io ''update reverse'' (Update (fromClient s) fromCopied)) (\<lambda>_.
               return_io ResultUpdated)
           else return_io ResultNone)
     in if \<not> statusIsSubresource s then compare_rest original fromCopied
        else
          bind_io (lift_io (status_of original)) (\<lambda>beforeStatus.
          bind_io (lift_io (status_of fromCopied)) (\<lambda>afterStatus.
            if (beforeStatus \<noteq> None \<or> afterStatus \<noteq> None)
               \<and> \<not> deep_equal (nil_value beforeStatus) (nil_value afterStatus) then
              bind_io (wrap_io ''update reverse status'' (StatusUpdate (fromClient s) fromCopied)) (\<lambda>_.
                return_io ResultUpdatedStatusOnly)
            else compare_rest
              (if beforeStatus \<noteq> None then RemoveNestedField [''status''] original else original)
              (if afterStatus \<noteq> None then RemoveNestedField [''status''] fromCopied else fromCopied)))))"

section \<open>What is sent where\<close>

lemma errorf_Inr [simp]: "errorf msg m = Inr x \<longleftrightarrow> m = Inr x"
  by (cases "(msg, m)" rule: errorf.cases) auto

lemma wrap_Inl: "m = Inl e \<Longrightarrow> \<exists>e'. wrap msg m = Inl e'"
  by (cases e) auto

lemma errorf_Inl: "m = Inl e \<Longrightarrow> \<exists>e'. errorf msg m = Inl e'"
  by (cases e) auto

text \<open>Nothing reaches a cluster when the translation or a patch fails.\<close>

lemma ApplyPatches_fails_clean:
  assumes "translateMetadata fromObj = Inl e
    \<or> (\<exists>t. translateMetadata fromObj = Inr t \<and> ApplyPatches E t toObj ps rps nr r = Inl e)"
  shows "\<exists>e'. patcher_ApplyPatches E s fromObj toObj ps rps translateMetadata nr r = lift_io (Inl e')"
  using assms
proof
  assume "translateMetadata fromObj = Inl e"
  from wrap_Inl [OF this, of "''translate object''"] show ?thesis
    by (auto simp: patcher_ApplyPatches_def)
next
  assume "\<exists>t. translateMetadata fromObj = Inr t \<and> ApplyPatches E t toObj ps rps nr r = Inl e"
  then obtain t where t: "translateMetadata fromObj = Inr t" "ApplyPatches E t toObj ps rps nr r = Inl e" by blast
  from errorf_Inl [OF t(2), of "''error applying patches''"] t(1) show ?thesis
    by (auto simp: patcher_ApplyPatches_def toUnstructured_def)
qed

text \<open>
  When they succeed: the patched object without its status is applied, after the status, which is
  sent only when the patched object has one.
\<close>

lemma ApplyPatches_sends:
  assumes "translateMetadata fromObj = Inr t" "ApplyPatches E t toObj ps rps nr r = Inr (p, r')"
    and "statusIsSubresource s" "status_of p = Inr st"
  shows "patcher_ApplyPatches E s fromObj toObj ps rps translateMetadata nr r =
    (if st = None then
       bind_io (wrap_io ''apply object'' (ApplyPatch (toClient s) p)) (\<lambda>_. return_io (p, r'))
     else
       bind_io (wrap_io ''apply status'' (StatusApply (toClient s) p)) (\<lambda>_.
       bind_io (wrap_io ''apply object'' (ApplyPatch (toClient s) (RemoveNestedField [''status''] p))) (\<lambda>_.
       return_io (RemoveNestedField [''status''] p, r'))))"
  using assms
  by (simp add: patcher_ApplyPatches_def toUnstructured_def bind_io_assoc)

text \<open>
  Reverse patches make at most one request, to the source cluster: the status when it changed, else
  the rest of the object when that changed, else nothing.
\<close>

definition drop_status :: "goval option \<Rightarrow> goval \<Rightarrow> goval" where
  "drop_status st obj = (if st \<noteq> None then RemoveNestedField [''status''] obj else obj)"

lemma ApplyReversePatches_sends:
  assumes "ApplyPatches E fromObj (Some otherObj) rps [] nr r = Inr (p, r')"
    and "status_of fromObj = Inr b" "status_of p = Inr a" "statusIsSubresource s"
  shows "patcher_ApplyReversePatches E s fromObj otherObj rps nr r =
    (if (b \<noteq> None \<or> a \<noteq> None) \<and> \<not> deep_equal (nil_value b) (nil_value a) then
       bind_io (wrap_io ''update reverse status'' (StatusUpdate (fromClient s) p)) (\<lambda>_.
         return_io ResultUpdatedStatusOnly)
     else if \<not> deep_equal (drop_status b fromObj) (drop_status a p) then
       bind_io (wrap_io ''update reverse'' (Update (fromClient s) (drop_status a p))) (\<lambda>_.
         return_io ResultUpdated)
     else return_io ResultNone)"
  using assms
  by (simp add: patcher_ApplyReversePatches_def toUnstructured_def Let_def drop_status_def)

end
