(* ===== verification/FromVirtualSyncer.thy ===== *)
theory FromVirtualSyncer
  imports Patcher
begin

text \<open>
  The syncer of a mapped kind from the virtual cluster to the host (\<^verbatim>\<open>pkg/syncer/from_virtual_syncer.go\<close>)
  under the reconcile loop of the vcluster SDK (\<^verbatim>\<open>syncer/syncer.go\<close>). The name cache is read by the
  resolver of the reverse patches; \<open>nc\<close> is its state during one call.
\<close>

section \<open>Selectors\<close>

text \<open>\<^verbatim>\<open>labels.Nothing()\<close>, or a conjunction of \<^verbatim>\<open>key = value\<close> requirements.\<close>

datatype labels_selector = SelectNothing | SelectEqual "(string \<times> string) list"

primrec Matches :: "labels_selector \<Rightarrow> (string \<times> string) list option \<Rightarrow> bool" where
  "Matches SelectNothing ls = False"
| "Matches (SelectEqual reqs) ls =
     (case ls of
        None \<Rightarrow> reqs = []
      | Some es \<Rightarrow> list_all (\<lambda>(k, v). map_of es k = Some v) reqs)"

text \<open>
  \<^verbatim>\<open>LabelSelectorAsSelector(SetAsLabelSelector(...))\<close>: nil selects nothing; \<open>NewRequirement\<close> is the
  library's check of a label key and value.
\<close>

fun first_error :: "(string \<Rightarrow> string \<Rightarrow> go_error option) \<Rightarrow> (string \<times> string) list \<Rightarrow> go_error option" where
  "first_error NewRequirement [] = None"
| "first_error NewRequirement ((k, v) # es) =
     (case NewRequirement k v of Some e \<Rightarrow> Some e | None \<Rightarrow> first_error NewRequirement es)"

definition selector_from :: "(string \<Rightarrow> string \<Rightarrow> go_error option) \<Rightarrow> Selector \<Rightarrow> go_error + labels_selector" where
  "selector_from NewRequirement s = (case LabelSelector s of
     None \<Rightarrow> Inr SelectNothing
   | Some es \<Rightarrow>
       (case first_error NewRequirement es of Some e \<Rightarrow> Inl e | None \<Rightarrow> Inr (SelectEqual es)))"

section \<open>Creating the syncer\<close>

record 'w fromVirtualController =
  fv_patcher :: "'w patcher"
  fv_gvk :: GroupVersionKind
  fv_config :: FromVirtualCluster
  fv_selector :: "labels_selector option"
  fv_targetNamespace :: string

text \<open>What a syncer takes from the plugin context.\<close>

record 'w RegisterContext =
  VirtualClient :: "'w Client"
  PhysicalClient :: "'w Client"
  TargetNamespace :: string
  ClusterSuffix :: string
  Environment :: "string \<Rightarrow> string"
  OptionsName :: string
  OptionsControllers :: "string list"

definition prepare_patch ::
  "(string \<Rightarrow> go_error + go_regexp) \<Rightarrow> Patch option \<Rightarrow> Patch option result" where
  "prepare_patch regexp_Compile patch = (case patch of
     None \<Rightarrow> panic NilDereference
   | Some p \<Rightarrow>
       if Regex p = [] then Inr (Some p)
       else case PrepareRegex regexp_Compile (Regex p) of
           Inl e \<Rightarrow> fail (''invalid Regex: '' @ error_text e)
         | Inr parsed \<Rightarrow> Inr (Some (p\<lparr>ParsedRegex := Some parsed\<rparr>)))"

fun prepare_patches ::
  "(string \<Rightarrow> go_error + go_regexp) \<Rightarrow> Patch option list \<Rightarrow> Patch option list result" where
  "prepare_patches regexp_Compile [] = Inr []"
| "prepare_patches regexp_Compile (p # ps) =
     bind_result (prepare_patch regexp_Compile p) (\<lambda>q.
     bind_result (prepare_patches regexp_Compile ps) (\<lambda>qs. Inr (q # qs)))"

text \<open>The patches are updated in place, the patches before the reverse patches.\<close>

definition validateFromVirtualConfig ::
  "(string \<Rightarrow> go_error + go_regexp) \<Rightarrow> FromVirtualCluster \<Rightarrow> FromVirtualCluster result" where
  "validateFromVirtualConfig regexp_Compile config =
     bind_result (prepare_patches regexp_Compile (Patches config)) (\<lambda>ps.
     bind_result (prepare_patches regexp_Compile (ReversePatches config)) (\<lambda>rps.
       Inr (config\<lparr>Patches := ps, ReversePatches := rps\<rparr>)))"

definition CreateFromVirtualSyncer ::
  "(string \<Rightarrow> go_error + go_regexp) \<Rightarrow> (string \<Rightarrow> string \<Rightarrow> go_error option)
     \<Rightarrow> 'w RegisterContext \<Rightarrow> FromVirtualCluster \<Rightarrow> 'w fromVirtualController result" where
  "CreateFromVirtualSyncer regexp_Compile NewRequirement ctx config =
     bind_result (errorf (''invalid configuration for '' @ Kind config @ ''('' @ APIVersion config @ '') mapping'')
       (validateFromVirtualConfig regexp_Compile config)) (\<lambda>config'.
     bind_result
       (case FVSelector config' of
          None \<Rightarrow> Inr None
        | Some s \<Rightarrow>
            (case selector_from NewRequirement s of
               Inl e \<Rightarrow> fail (''invalid selector in configuration for '' @ Kind config @
                 ''('' @ APIVersion config @ '') mapping: '' @ error_text e)
             | Inr sel \<Rightarrow> Inr (Some sel))) (\<lambda>selector.
       Inr \<lparr>fv_patcher = \<lparr>fromClient = VirtualClient ctx, toClient = PhysicalClient ctx,
                          statusIsSubresource = True\<rparr>,
            fv_gvk = FromAPIVersionAndKind (APIVersion config) (Kind config),
            fv_config = config',
            fv_selector = selector,
            fv_targetNamespace = TargetNamespace ctx\<rparr>))"

section \<open>The handlers\<close>

definition controller_id :: "(string \<Rightarrow> string) \<Rightarrow> string \<Rightarrow> string" where
  "controller_id env configID = (if configID \<noteq> [] then configID else GetPluginName env)"

definition fv_getControllerID :: "'w RegisterContext \<Rightarrow> 'w fromVirtualController \<Rightarrow> string" where
  "fv_getControllerID ctx f = controller_id (Environment ctx) (ID (fv_config f))"

definition has_controller :: "goval \<Rightarrow> string \<Rightarrow> bool" where
  "has_controller obj cid \<longleftrightarrow> GetLabels obj \<noteq> None \<and> str_at (GetLabels obj) controlledByLabel = cid"

definition fv_isExcluded :: "'w RegisterContext \<Rightarrow> 'w fromVirtualController \<Rightarrow> goval \<Rightarrow> bool" where
  "fv_isExcluded ctx f pObj \<longleftrightarrow> \<not> has_controller pObj (fv_getControllerID ctx f)"

definition isControlled :: "goval \<Rightarrow> bool" where
  "isControlled obj \<longleftrightarrow> GetLabels obj \<noteq> None \<and> str_at (GetLabels obj) controlledByLabel \<noteq> []"

text \<open>The negation in front of \<^verbatim>\<open>Matches\<close> is in the source.\<close>

definition objectMatches :: "'w fromVirtualController \<Rightarrow> goval \<Rightarrow> bool" where
  "objectMatches f obj \<longleftrightarrow>
     (case fv_selector f of None \<Rightarrow> True | Some sel \<Rightarrow> \<not> Matches sel (GetLabels obj))"

definition fv_TranslateMetadata ::
  "'w RegisterContext \<Rightarrow> 'w fromVirtualController \<Rightarrow> goval \<Rightarrow> goval" where
  "fv_TranslateMetadata ctx f vObj =
     (let pObj = TranslateMetadata (ClusterSuffix ctx) (TargetNamespace ctx) vObj;
          labels = (case GetLabels pObj of None \<Rightarrow> [] | Some ls \<Rightarrow> ls)
      in SetLabels (Some (AList.update controlledByLabel (fv_getControllerID ctx f) labels)) pObj)"

definition fv_IsManaged :: "'w RegisterContext \<Rightarrow> 'w fromVirtualController \<Rightarrow> goval \<Rightarrow> bool" where
  "fv_IsManaged ctx f pObj \<longleftrightarrow> IsManaged (ClusterSuffix ctx) pObj \<and> \<not> fv_isExcluded ctx f pObj"

definition fv_resolver :: "'w RegisterContext \<Rightarrow> 'w fromVirtualController \<Rightarrow> goval \<Rightarrow> unit NameResolver" where
  "fv_resolver ctx f vObj = virtualToHostNameResolver (ClusterSuffix ctx)
     \<lparr>vthNamespace = GetNamespace vObj, vthTargetNamespace = fv_targetNamespace f\<rparr>"

definition fv_apply ::
  "external \<Rightarrow> 'w RegisterContext \<Rightarrow> 'w fromVirtualController \<Rightarrow> goval \<Rightarrow> goval option
     \<Rightarrow> ('w, goval \<times> unit) io" where
  "fv_apply E ctx f vObj pObj =
     patcher_ApplyPatches E (fv_patcher f) vObj pObj (Patches (fv_config f)) (ReversePatches (fv_config f))
       (\<lambda>vObj. Inr (fv_TranslateMetadata ctx f vObj)) (fv_resolver ctx f vObj) ()"

definition SyncDown ::
  "external \<Rightarrow> 'w RegisterContext \<Rightarrow> 'w fromVirtualController \<Rightarrow> goval \<Rightarrow> ('w, ctrl_result) io" where
  "SyncDown E ctx f vObj =
     (if isControlled vObj \<or> \<not> objectMatches f vObj then return_io done_result
      else bind_io (attempt (fv_apply E ctx f vObj None)) (\<lambda>r. case r of
          Inl err \<Rightarrow> throw_io (Plain (''error applying patches: '' @ error_text err))
        | Inr _ \<Rightarrow> return_io done_result))"

text \<open>A failed patch requeues when the API server found the object invalid, and is an error otherwise.\<close>

definition on_patch_error :: "string \<Rightarrow> go_error \<Rightarrow> ('w, ctrl_result) io" where
  "on_patch_error msg err =
     (if IsInvalid err then return_io \<lparr>Requeue = True\<rparr> else throw_io (Plain (msg @ error_text err)))"

definition Sync ::
  "external \<Rightarrow> 'w RegisterContext \<Rightarrow> 'h nameCache \<Rightarrow> 'w fromVirtualController \<Rightarrow> goval \<Rightarrow> goval
     \<Rightarrow> ('w, ctrl_result) io" where
  "Sync E ctx nc f pObj vObj =
     (if isControlled vObj \<or> fv_isExcluded ctx f pObj then return_io done_result
      else if \<not> objectMatches f vObj then
        bind_io (Delete (PhysicalClient ctx) pObj) (\<lambda>_. return_io done_result)
      else
        bind_io (attempt (patcher_ApplyReversePatches E (fv_patcher f) vObj pObj
            (ReversePatches (fv_config f)) (hostToVirtualNameResolver nc (fv_gvk f)) ())) (\<lambda>result.
          case result of
            Inl err \<Rightarrow> on_patch_error (''failed to patch virtual '' @ Kind (fv_config f) @ '' '' @
                GetNamespace vObj @ ''/'' @ GetName vObj @ '': '') err
          | Inr res \<Rightarrow>
              if res \<in> {ResultUpdated, ResultUpdatedStatus, ResultUpdatedStatusOnly}
              then return_io done_result
              else
                bind_io (attempt (fv_apply E ctx f vObj (Some pObj))) (\<lambda>r. case r of
                    Inl err \<Rightarrow> on_patch_error ''error applying patches: '' err
                  | Inr _ \<Rightarrow> return_io done_result)))"

definition DeleteObject :: "'w RegisterContext \<Rightarrow> goval \<Rightarrow> ('w, ctrl_result) io" where
  "DeleteObject ctx pObj =
     bind_io (attempt (Delete (PhysicalClient ctx) pObj)) (\<lambda>r. case r of
         Inl err \<Rightarrow> if IsNotFound err then return_io done_result else throw_io err
       | Inr _ \<Rightarrow> return_io done_result)"

definition SyncUp ::
  "'w RegisterContext \<Rightarrow> 'w fromVirtualController \<Rightarrow> goval \<Rightarrow> ('w, ctrl_result) io" where
  "SyncUp ctx f pObj =
     (if \<not> IsManaged (ClusterSuffix ctx) pObj \<or> fv_isExcluded ctx f pObj then return_io done_result
      else DeleteObject ctx pObj)"

section \<open>Reconciling (the loop of the SDK)\<close>

definition VirtualToPhysical :: "'w RegisterContext \<Rightarrow> NamespacedName \<Rightarrow> NamespacedName" where
  "VirtualToPhysical ctx req =
     \<lparr>Namespace = TargetNamespace ctx, Name = PhysicalName (ClusterSuffix ctx) (Name req) (Namespace req)\<rparr>"

definition fv_Reconcile ::
  "external \<Rightarrow> 'w RegisterContext \<Rightarrow> 'h nameCache \<Rightarrow> 'w fromVirtualController \<Rightarrow> NamespacedName
     \<Rightarrow> ('w, ctrl_result) io" where
  "fv_Reconcile E ctx nc f req =
     bind_io (get_optional (VirtualClient ctx) req) (\<lambda>vObj.
     bind_io (get_optional (PhysicalClient ctx) (VirtualToPhysical ctx req)) (\<lambda>pObj.
       case (vObj, pObj) of
         (Some v, None) \<Rightarrow> SyncDown E ctx f v
       | (Some v, Some p) \<Rightarrow> Sync E ctx nc f p v
       | (None, Some p) \<Rightarrow> SyncUp ctx f p
       | (None, None) \<Rightarrow> return_io done_result))"

section \<open>Decisions\<close>

lemma SyncDown_skips:
  "isControlled vObj \<or> \<not> objectMatches f vObj \<Longrightarrow> SyncDown E ctx f vObj w = (Inr done_result, w)"
  by (simp add: SyncDown_def io_simps)

lemma Sync_skips:
  "isControlled vObj \<or> fv_isExcluded ctx f pObj \<Longrightarrow> Sync E ctx nc f pObj vObj w = (Inr done_result, w)"
  by (simp add: Sync_def io_simps)

lemma Sync_deletes:
  "\<not> isControlled vObj \<Longrightarrow> \<not> fv_isExcluded ctx f pObj \<Longrightarrow> \<not> objectMatches f vObj \<Longrightarrow>
     Sync E ctx nc f pObj vObj = bind_io (Delete (PhysicalClient ctx) pObj) (\<lambda>_. return_io done_result)"
  by (simp add: Sync_def)

text \<open>The physical object the syncer writes is recognised as its own.\<close>

lemma fv_TranslateMetadata_own:
  assumes "obj_ok vObj"
  shows "\<not> fv_isExcluded ctx f (fv_TranslateMetadata ctx f vObj)"
    and "fv_IsManaged ctx f (fv_TranslateMetadata ctx f vObj)"
    and "GetName (fv_TranslateMetadata ctx f vObj)
       = PhysicalName (ClusterSuffix ctx) (GetName vObj) (GetNamespace vObj)"
    and "GetNamespace vObj \<noteq> [] \<Longrightarrow> GetNamespace (fv_TranslateMetadata ctx f vObj) = TargetNamespace ctx"
proof -
  let ?p = "TranslateMetadata (ClusterSuffix ctx) (TargetNamespace ctx) vObj"
  let ?q = "fv_TranslateMetadata ctx f vObj"
  note t = translated_meta [OF assms, of "ClusterSuffix ctx" "TargetNamespace ctx"]
  have l: "GetLabels ?q = Some (AList.update controlledByLabel (fv_getControllerID ctx f)
      (translateLabels (ClusterSuffix ctx) vObj))"
    using t by (simp add: fv_TranslateMetadata_def Let_def SetLabels_def accessors_meta(3) meta_rules)
  have other: "meta ?q g = meta ?p g" if "g \<noteq> ''labels''" for g
    using t(1) that by (simp add: fv_TranslateMetadata_def Let_def SetLabels_def meta_rules)
  show ex: "\<not> fv_isExcluded ctx f ?q"
    by (simp add: fv_isExcluded_def has_controller_def l str_at_update)
  have "IsManaged (ClusterSuffix ctx) ?q"
    by (simp add: IsManaged_def l str_at_update translateLabels_def Let_def)
  with ex show "fv_IsManaged ctx f ?q" by (simp add: fv_IsManaged_def)
  show "GetName ?q = PhysicalName (ClusterSuffix ctx) (GetName vObj) (GetNamespace vObj)"
    using t(2) by (simp add: accessors_meta(1) other)
  show "GetNamespace vObj \<noteq> [] \<Longrightarrow> GetNamespace ?q = TargetNamespace ctx"
    using t(3) by (simp add: accessors_meta(2) other)
qed

text \<open>A reconcile of a virtual object addresses the physical object the translation names.\<close>

lemma VirtualToPhysical_translate:
  assumes "obj_ok vObj" "GetNamespace vObj \<noteq> []"
  shows "VirtualToPhysical ctx \<lparr>Namespace = GetNamespace vObj, Name = GetName vObj\<rparr>
    = \<lparr>Namespace = GetNamespace (fv_TranslateMetadata ctx f vObj), Name = GetName (fv_TranslateMetadata ctx f vObj)\<rparr>"
  using fv_TranslateMetadata_own [OF assms(1), of ctx f] assms(2) by (simp add: VirtualToPhysical_def)

end
