(* ===== verification/BackSyncer.thy ===== *)
theory BackSyncer
  imports FromVirtualSyncer
begin

text \<open>
  The syncer that brings host objects back into the virtual cluster (\<^verbatim>\<open>pkg/syncer/back_syncer.go\<close>):
  which virtual name a host object stands for, the reconcile loop with its three handlers, the
  marker annotations it keeps on host objects, and the events it listens to. Host and virtual
  clients are those of the plugin context; \<open>nc\<close> is the name cache of the parent mapping during one
  call.
\<close>

section \<open>The controller\<close>

abbreviation MappingsAnnotation :: string where
  "MappingsAnnotation \<equiv> ''vcluster.loft.sh/mappings''"

record 'w backSyncController =
  bs_patcher :: "'w patcher"
  bs_parentGVK :: GroupVersionKind
  bs_config :: SyncBack
  bs_targetNamespace :: string

definition CreateBackSyncer ::
  "'w RegisterContext \<Rightarrow> SyncBack \<Rightarrow> FromVirtualCluster \<Rightarrow> 'w backSyncController result" where
  "CreateBackSyncer ctx config parentConfig =
     (if Selectors config = []
      then fail (''the syncBack config for '' @ Kind config @ '' ('' @ Kind parentConfig @ '') is missing Selectors'')
      else Inr \<lparr>bs_patcher = \<lparr>fromClient = PhysicalClient ctx, toClient = VirtualClient ctx,
                             statusIsSubresource = True\<rparr>,
                bs_parentGVK = FromAPIVersionAndKind (APIVersion parentConfig) (Kind parentConfig),
                bs_config = config,
                bs_targetNamespace = TargetNamespace ctx\<rparr>)"

definition bs_getControllerID :: "'w RegisterContext \<Rightarrow> 'w backSyncController \<Rightarrow> string" where
  "bs_getControllerID ctx b = controller_id (Environment ctx) (ID (bs_config b))"

definition bs_isExcluded :: "'w RegisterContext \<Rightarrow> 'w backSyncController \<Rightarrow> goval \<Rightarrow> bool" where
  "bs_isExcluded ctx b vObj \<longleftrightarrow> \<not> has_controller vObj (bs_getControllerID ctx b)"

definition bs_Name :: "'w backSyncController \<Rightarrow> string" where
  "bs_Name b = Kind (bs_config b) @ ''-back-syncer''"

section \<open>From a host object to its virtual name\<close>

definition containsBackSyncNameAnnotations :: "'w RegisterContext \<Rightarrow> goval \<Rightarrow> bool" where
  "containsBackSyncNameAnnotations ctx obj \<longleftrightarrow>
     GetAnnotations obj \<noteq> None
     \<and> str_at (GetAnnotations obj) MarkerLabel = OptionsName ctx
     \<and> str_at (GetAnnotations obj) NameAnnotation \<noteq> []
     \<and> str_at (GetAnnotations obj) NamespaceAnnotation \<noteq> []"

definition annotated_name :: "goval \<Rightarrow> NamespacedName" where
  "annotated_name obj =
     \<lparr>Namespace = str_at (GetAnnotations obj) NamespaceAnnotation,
      Name = str_at (GetAnnotations obj) NameAnnotation\<rparr>"

fun select_name ::
  "'h nameCache \<Rightarrow> GroupVersionKind \<Rightarrow> string \<Rightarrow> SyncBackSelector option list \<Rightarrow> NamespacedName result" where
  "select_name nc gvk name [] = Inr emptyNN"
| "select_name nc gvk name (None # ss) = panic NilDereference"
| "select_name nc gvk name (Some s # ss) =
     (case SelName s of
        None \<Rightarrow> select_name nc gvk name ss
      | Some sel \<Rightarrow>
          let nn = resolve nc gvk (RewrittenPath sel) name
          in if Name nn \<noteq> [] then Inr nn else select_name nc gvk name ss)"

definition bs_PhysicalToVirtual ::
  "'w RegisterContext \<Rightarrow> 'h nameCache \<Rightarrow> 'w backSyncController \<Rightarrow> NamespacedName \<Rightarrow> goval option
     \<Rightarrow> NamespacedName result" where
  "bs_PhysicalToVirtual ctx nc b req pObj =
     (case pObj of
        Some p \<Rightarrow> if containsBackSyncNameAnnotations ctx p then Inr (annotated_name p)
                  else select_name nc (bs_parentGVK b) (Name req) (Selectors (bs_config b))
      | None \<Rightarrow> select_name nc (bs_parentGVK b) (Name req) (Selectors (bs_config b)))"

definition object_nn :: "goval \<Rightarrow> NamespacedName" where
  "object_nn obj = \<lparr>Namespace = GetNamespace obj, Name = GetName obj\<rparr>"

section \<open>Marker annotations\<close>

definition remove_markers :: "(string \<times> string) list \<Rightarrow> (string \<times> string) list" where
  "remove_markers es = fold AList.delete
     [MarkerLabel, NameAnnotation, NamespaceAnnotation, MappingsAnnotation] es"

text \<open>Send the difference between the changed object and the original; no difference sends nothing.\<close>

definition send_patch :: "'w Client \<Rightarrow> goval \<Rightarrow> goval \<Rightarrow> ('w, goval) io" where
  "send_patch c original obj = (case MergeData c original obj of
     Inl e \<Rightarrow> throw_io e
   | Inr patchBytes \<Rightarrow>
       if patchBytes = ''{}'' then return_io obj
       else MergePatch c original obj)"

definition without_markers :: "goval \<Rightarrow> goval" where
  "without_markers pObj = SetAnnotations (map_option remove_markers (GetAnnotations pObj)) pObj"

definition removeAnnotationsFromPhysicalObject :: "'w RegisterContext \<Rightarrow> goval \<Rightarrow> ('w, goval) io" where
  "removeAnnotationsFromPhysicalObject ctx pObj =
     send_patch (PhysicalClient ctx) pObj (without_markers pObj)"

text \<open>\<open>json\<close> encodes the mappings (\<^verbatim>\<open>json.Marshal\<close> of a map of strings does not fail).\<close>

definition with_annotations ::
  "((string \<times> string) list \<Rightarrow> string) \<Rightarrow> string \<Rightarrow> NamespacedName \<Rightarrow> memory \<Rightarrow> goval \<Rightarrow> goval" where
  "with_annotations json optionsName vObj mappings pObj =
     (let a0 = (case GetAnnotations pObj of None \<Rightarrow> [] | Some es \<Rightarrow> es);
          a1 = AList.update NamespaceAnnotation (Namespace vObj)
                 (AList.update NameAnnotation (Name vObj) (AList.update MarkerLabel optionsName a0));
          ms = (case mappings of None \<Rightarrow> [] | Some ms \<Rightarrow> ms);
          a2 = (if ms \<noteq> [] then AList.update MappingsAnnotation (json ms) a1
                else AList.delete MappingsAnnotation a1)
      in SetAnnotations (Some a2) pObj)"

definition addAnnotationsToPhysicalObject ::
  "((string \<times> string) list \<Rightarrow> string) \<Rightarrow> 'w RegisterContext \<Rightarrow> goval \<Rightarrow> NamespacedName \<Rightarrow> memory
     \<Rightarrow> ('w, goval) io" where
  "addAnnotationsToPhysicalObject json ctx pObj vObj mappings =
     send_patch (PhysicalClient ctx) pObj (with_annotations json (OptionsName ctx) vObj mappings pObj)"

section \<open>The virtual object\<close>

definition bs_translateMetadata ::
  "'w RegisterContext \<Rightarrow> 'h nameCache \<Rightarrow> 'w backSyncController \<Rightarrow> goval \<Rightarrow> goval result" where
  "bs_translateMetadata ctx nc b pObj =
     bind_result (bs_PhysicalToVirtual ctx nc b (object_nn pObj) (Some pObj)) (\<lambda>vNN.
       if Name vNN = []
       then fail (''couldn't translate '' @ GetNamespace pObj @ ''/'' @ GetName pObj @ '' into virtual object'')
       else
         let o1 = SetName (Name vNN) (SetNamespace (Namespace vNN) (ResetObjectMetadata pObj));
             o2 = SetAnnotations (map_option remove_markers (GetAnnotations o1)) o1;
             labels = (case GetLabels o2 of None \<Rightarrow> [] | Some ls \<Rightarrow> ls)
         in Inr (SetLabels (Some (AList.update controlledByLabel (bs_getControllerID ctx b) labels)) o2))"

definition deleteVirtualObject ::
  "'w RegisterContext \<Rightarrow> 'w backSyncController \<Rightarrow> goval \<Rightarrow> ('w, unit) io" where
  "deleteVirtualObject ctx b vObj =
     (if bs_isExcluded ctx b vObj then return_io ()
      else bind_io (attempt (Delete (VirtualClient ctx) vObj)) (\<lambda>r. case r of
          Inl err \<Rightarrow> if IsNotFound err then return_io () else throw_io err
        | Inr _ \<Rightarrow> return_io ()))"

section \<open>Reconciling\<close>

text \<open>
  The JSON coders of the mappings annotation. The code ignores the error of \<^verbatim>\<open>json.Unmarshal\<close>, so the
  decoder is the map the call leaves behind: the entries decoded before an error, a nil map for
  \<^verbatim>\<open>null\<close>.
\<close>

record mappings_json =
  encode_mappings :: "(string \<times> string) list \<Rightarrow> string"
  decode_mappings :: "string \<Rightarrow> memory"

definition syncDown ::
  "'w RegisterContext \<Rightarrow> 'w backSyncController \<Rightarrow> goval \<Rightarrow> ('w, ctrl_result) io" where
  "syncDown ctx b vObj = bind_io (deleteVirtualObject ctx b vObj) (\<lambda>_. return_io done_result)"

definition annotated_mappings :: "mappings_json \<Rightarrow> goval \<Rightarrow> memory" where
  "annotated_mappings J pObj =
     (let s = str_at (GetAnnotations pObj) MappingsAnnotation
      in if s = [] then Some [] else decode_mappings J s)"

text \<open>The resolver of the reverse patches has no target namespace in the source.\<close>

definition bs_sync ::
  "external \<Rightarrow> mappings_json \<Rightarrow> 'w RegisterContext \<Rightarrow> 'h nameCache \<Rightarrow> 'w backSyncController
     \<Rightarrow> goval \<Rightarrow> goval \<Rightarrow> ('w, ctrl_result) io" where
  "bs_sync E J ctx nc b pObj vObj =
     (if bs_isExcluded ctx b vObj then return_io done_result
      else
        bind_io (attempt (patcher_ApplyReversePatches E (bs_patcher b) pObj vObj
            (ReversePatches (bs_config b))
            (virtualToHostNameResolver (ClusterSuffix ctx)
               \<lparr>vthNamespace = GetNamespace vObj, vthTargetNamespace = []\<rparr>) ())) (\<lambda>result.
          case result of
            Inl err \<Rightarrow> on_patch_error (''failed to patch physical '' @ Kind (bs_config b) @ '' '' @
                GetNamespace vObj @ ''/'' @ GetName vObj @ '': '') err
          | Inr res \<Rightarrow>
              if res \<in> {ResultUpdated, ResultUpdatedStatus, ResultUpdatedStatusOnly}
              then return_io done_result
              else
                bind_io (attempt (patcher_ApplyPatches E (bs_patcher b) pObj (Some vObj)
                    (Patches (bs_config b)) (ReversePatches (bs_config b)) (bs_translateMetadata ctx nc b)
                    (memorizingHostToVirtualNameResolver nc (bs_parentGVK b))
                    (annotated_mappings J pObj))) (\<lambda>r. case r of
                  Inl err \<Rightarrow> on_patch_error ''error applying patches: '' err
                | Inr (_, mappings) \<Rightarrow>
                    bind_io (addAnnotationsToPhysicalObject (encode_mappings J) ctx pObj (object_nn vObj) mappings)
                      (\<lambda>_. return_io done_result))))"

definition syncUp ::
  "external \<Rightarrow> mappings_json \<Rightarrow> 'w RegisterContext \<Rightarrow> 'h nameCache \<Rightarrow> 'w backSyncController
     \<Rightarrow> goval \<Rightarrow> ('w, ctrl_result) io" where
  "syncUp E J ctx nc b pObj =
     (if containsBackSyncNameAnnotations ctx pObj then
        bind_io (attempt (Delete (PhysicalClient ctx) pObj)) (\<lambda>r. case r of
            Inl err \<Rightarrow> throw_io (Plain (''error deleting object: '' @ error_text err))
          | Inr _ \<Rightarrow> return_io done_result)
      else
        bind_io (lift_io (bs_PhysicalToVirtual ctx nc b (object_nn pObj) (Some pObj))) (\<lambda>vNN.
        if Name vNN = []
        then throw_io (Plain (''couldn't translate '' @ GetNamespace pObj @ ''/'' @ GetName pObj @
               '' into virtual object''))
        else
          bind_io (addAnnotationsToPhysicalObject (encode_mappings J) ctx pObj vNN None) (\<lambda>pObj1.
          bind_io (attempt (patcher_ApplyPatches E (bs_patcher b) pObj1 None
              (Patches (bs_config b)) (ReversePatches (bs_config b)) (bs_translateMetadata ctx nc b)
              (memorizingHostToVirtualNameResolver nc (bs_parentGVK b)) None)) (\<lambda>r. case r of
            Inl err \<Rightarrow>
              bind_io (attempt (removeAnnotationsFromPhysicalObject ctx pObj1)) (\<lambda>_.
                throw_io (Plain (''error applying patches: '' @ error_text err)))
          | Inr (_, mappings) \<Rightarrow>
              bind_io (addAnnotationsToPhysicalObject (encode_mappings J) ctx pObj1 vNN mappings)
                (\<lambda>_. return_io done_result)))))"

definition bs_Reconcile ::
  "external \<Rightarrow> mappings_json \<Rightarrow> 'w RegisterContext \<Rightarrow> 'h nameCache \<Rightarrow> 'w backSyncController
     \<Rightarrow> NamespacedName \<Rightarrow> ('w, ctrl_result) io" where
  "bs_Reconcile E J ctx nc b req =
     bind_io (get_optional (PhysicalClient ctx) req) (\<lambda>pObj.
     bind_io (lift_io (bs_PhysicalToVirtual ctx nc b req pObj)) (\<lambda>vNN.
     if Name vNN = [] then return_io done_result
     else
       bind_io (get_optional (VirtualClient ctx) vNN) (\<lambda>vObj.
         case (vObj, pObj) of
           (Some v, None) \<Rightarrow> syncDown ctx b v
         | (Some v, Some p) \<Rightarrow> bs_sync E J ctx nc b p v
         | (None, Some p) \<Rightarrow> syncUp E J ctx nc b p
         | (None, None) \<Rightarrow> return_io done_result)))"

section \<open>Events\<close>

text \<open>
  The field index on host objects, the watch on virtual objects, and the deletion of a host object.
  \<open>add\<close> puts a request on the work queue of the controller. Errors are logged and dropped.
\<close>

definition IndexByVirtualName :: "'w RegisterContext \<Rightarrow> goval \<Rightarrow> string list" where
  "IndexByVirtualName ctx object =
     (if containsBackSyncNameAnnotations ctx object
      then [str_at (GetAnnotations object) NamespaceAnnotation @ ''/'' @
            str_at (GetAnnotations object) NameAnnotation]
      else [])"

text \<open>
  \<^verbatim>\<open>IndexField\<close> of the manager's cache registers the index; a conflict with an index of the same name,
  left by another back syncer of the kind, is no error.
\<close>

definition RegisterIndices ::
  "((goval \<Rightarrow> string list) \<Rightarrow> ('w, unit) io) \<Rightarrow> 'w RegisterContext \<Rightarrow> ('w, unit) io" where
  "RegisterIndices IndexField ctx =
     bind_io (attempt (IndexField (IndexByVirtualName ctx))) (\<lambda>r. case r of
         Inl err \<Rightarrow>
           if strings_Contains (error_text err) ''indexer conflict'' then return_io () else throw_io err
       | Inr _ \<Rightarrow> return_io ())"

definition ignore_error :: "('w, 'a) io \<Rightarrow> ('w, unit) io" where
  "ignore_error m = bind_io (attempt m) (\<lambda>_. return_io ())"

definition enqueueVirtual ::
  "'w RegisterContext \<Rightarrow> 'w backSyncController \<Rightarrow> (NamespacedName \<Rightarrow> 'w \<Rightarrow> 'w) \<Rightarrow> goval option \<Rightarrow> bool
     \<Rightarrow> ('w, unit) io" where
  "enqueueVirtual ctx b add obj isDelete = (case obj of
     None \<Rightarrow> return_io ()
   | Some vObj \<Rightarrow>
       if bs_isExcluded ctx b vObj then return_io ()
       else
         bind_io (attempt (ListByIndex (PhysicalClient ctx) (GetNamespace vObj @ ''/'' @ GetName vObj)))
           (\<lambda>r. case r of
              Inl err \<Rightarrow> return_io ()
            | Inr [] \<Rightarrow>
                if isDelete then return_io ()
                else ignore_error (Delete (VirtualClient ctx) vObj)
            | Inr (pObj # _) \<Rightarrow> (\<lambda>w. (Inr (), add (object_nn pObj) w))))"

text \<open>The watch on virtual objects: only the deletion of an object is told apart.\<close>

datatype watch_event =
    CreateEvent "goval option"
  | UpdateEvent "goval option" "goval option"
  | DeleteEvent "goval option"
  | GenericEvent "goval option"

fun on_virtual_event ::
  "'w RegisterContext \<Rightarrow> 'w backSyncController \<Rightarrow> (NamespacedName \<Rightarrow> 'w \<Rightarrow> 'w) \<Rightarrow> watch_event \<Rightarrow> ('w, unit) io" where
  "on_virtual_event ctx b add (CreateEvent obj) = enqueueVirtual ctx b add obj False"
| "on_virtual_event ctx b add (UpdateEvent old new) = enqueueVirtual ctx b add new False"
| "on_virtual_event ctx b add (DeleteEvent obj) = enqueueVirtual ctx b add obj True"
| "on_virtual_event ctx b add (GenericEvent obj) = enqueueVirtual ctx b add obj False"

text \<open>
  The handler of a deleted host object. \<^verbatim>\<open>virtualName.String()\<close> is never empty (it contains the
  separator), so the test in front of the lookup always passes.
\<close>

definition NamespacedName_String :: "NamespacedName \<Rightarrow> string" where
  "NamespacedName_String nn = Namespace nn @ ''/'' @ Name nn"

definition onPhysicalDelete ::
  "'w RegisterContext \<Rightarrow> 'h nameCache \<Rightarrow> 'w backSyncController \<Rightarrow> goval \<Rightarrow> ('w, unit) io" where
  "onPhysicalDelete ctx nc b pObj =
     bind_io (lift_io (bs_PhysicalToVirtual ctx nc b (object_nn pObj) (Some pObj))) (\<lambda>virtualName.
       if NamespacedName_String virtualName = [] then return_io ()
       else
         bind_io (attempt (Get (VirtualClient ctx) virtualName)) (\<lambda>r. case r of
             Inl err \<Rightarrow> return_io ()
           | Inr vObj \<Rightarrow> ignore_error (deleteVirtualObject ctx b vObj)))"

text \<open>The hooks \<^verbatim>\<open>Start\<close> puts into the name cache: one for every selector with a name.\<close>

definition back_sync_hook :: "string \<Rightarrow> string \<Rightarrow> (NamespacedName \<Rightarrow> 'h \<Rightarrow> 'h) \<Rightarrow> 'h HookFunc" where
  "back_sync_hook targetNamespace rewrittenPath add name key value w =
     (if name = [] then w
      else
        let splitted = strings_Split key (CHR ''/'');
            path = strings_Join (tl splitted) ''/''
        in if rewrittenPath = [] \<or> path = rewrittenPath
           then add \<lparr>Namespace = targetNamespace, Name = hd splitted\<rparr> w else w)"

definition bs_Start ::
  "'w backSyncController \<Rightarrow> (NamespacedName \<Rightarrow> 'h \<Rightarrow> 'h) \<Rightarrow> 'h nameCache \<Rightarrow> 'h nameCache result" where
  "bs_Start b add nc =
     fold_result (\<lambda>sel nc. case sel of
         None \<Rightarrow> panic NilDereference
       | Some s \<Rightarrow> (case SelName s of
             None \<Rightarrow> Inr nc
           | Some n \<Rightarrow> Inr (AddChangeHook (bs_parentGVK b) IndexPhysicalToVirtualNamePath
                 (back_sync_hook (bs_targetNamespace b) (RewrittenPath n) add) nc)))
       (Selectors (bs_config b)) nc"

section \<open>Lemmas\<close>

lemma remove_markers_lookup:
  "str_at (Some (remove_markers es)) k =
     (if k \<in> {MarkerLabel, NameAnnotation, NamespaceAnnotation, MappingsAnnotation} then []
      else str_at (Some es) k)"
  by (simp add: remove_markers_def str_at_delete)

lemma with_annotations_read:
  assumes "obj_ok pObj"
  shows "GetAnnotations (with_annotations json opt vNN ms pObj) \<noteq> None"
    and "str_at (GetAnnotations (with_annotations json opt vNN ms pObj)) MarkerLabel = opt"
    and "str_at (GetAnnotations (with_annotations json opt vNN ms pObj)) NameAnnotation = Name vNN"
    and "str_at (GetAnnotations (with_annotations json opt vNN ms pObj)) NamespaceAnnotation = Namespace vNN"
    and "str_at (GetAnnotations (with_annotations json opt vNN ms pObj)) MappingsAnnotation
       = (case ms of None \<Rightarrow> [] | Some [] \<Rightarrow> [] | Some es \<Rightarrow> json es)"
  using assms
  by (auto simp: with_annotations_def Let_def SetAnnotations_def accessors_meta(4) meta_rules
      str_at_update str_at_delete split: option.splits list.splits)

text \<open>Once annotated, a host object keeps its virtual name whatever the cache says.\<close>

lemma annotated_round_trip:
  assumes "obj_ok pObj" "Name vNN \<noteq> []" "Namespace vNN \<noteq> []"
  shows "bs_PhysicalToVirtual ctx nc b req (Some (with_annotations json (OptionsName ctx) vNN ms pObj)) = Inr vNN"
  using assms with_annotations_read [OF assms(1), of json "OptionsName ctx" vNN ms]
  by (simp add: bs_PhysicalToVirtual_def containsBackSyncNameAnnotations_def annotated_name_def)

lemma without_markers_forgets:
  assumes "obj_ok pObj"
  shows "\<not> containsBackSyncNameAnnotations ctx (without_markers pObj)"
  using assms
  by (auto simp: containsBackSyncNameAnnotations_def without_markers_def SetAnnotations_def
      accessors_meta(4) meta_rules remove_markers_lookup split: option.splits)

text \<open>The virtual object is named after the virtual name, owned by this controller, and unmarked.\<close>

lemma bs_translateMetadata_effect:
  assumes "obj_ok pObj" "bs_translateMetadata ctx nc b pObj = Inr vObj"
  shows "\<exists>vNN. bs_PhysicalToVirtual ctx nc b (object_nn pObj) (Some pObj) = Inr vNN \<and> Name vNN \<noteq> []
      \<and> GetName vObj = Name vNN \<and> GetNamespace vObj = Namespace vNN"
    and "\<not> bs_isExcluded ctx b vObj"
    and "\<not> containsBackSyncNameAnnotations ctx vObj"
proof -
  obtain vNN where v: "bs_PhysicalToVirtual ctx nc b (object_nn pObj) (Some pObj) = Inr vNN" "Name vNN \<noteq> []"
    using assms(2) by (auto simp: bs_translateMetadata_def result_simps split: if_splits)
  define o1 where "o1 = SetName (Name vNN) (SetNamespace (Namespace vNN) (ResetObjectMetadata pObj))"
  define o2 where "o2 = SetAnnotations (map_option remove_markers (GetAnnotations o1)) o1"
  have vObj: "vObj = SetLabels (Some (AList.update controlledByLabel (bs_getControllerID ctx b)
      (case GetLabels o2 of None \<Rightarrow> [] | Some ls \<Rightarrow> ls))) o2"
    using assms(2) v by (simp add: bs_translateMetadata_def o1_def o2_def Let_def)
  have ok1: "obj_ok o1" unfolding o1_def SetName_def SetNamespace_def using assms(1) by (simp add: obj_ok_rules)
  have ok2: "obj_ok o2" unfolding o2_def SetAnnotations_def using ok1 by (simp add: obj_ok_rules)
  have m1: "meta o1 ''name'' = Some (VStr (Name vNN))"
    "meta o1 ''namespace'' = (if Namespace vNN = [] then None else Some (VStr (Namespace vNN)))"
    using assms(1) v(2) by (simp_all add: o1_def SetName_def SetNamespace_def obj_ok_rules meta_rules)
  have m2: "meta o2 g = meta o1 g" if "g \<noteq> ''annotations''" for g
    using ok1 that by (simp add: o2_def SetAnnotations_def meta_rules)
  have m3: "meta vObj g = meta o2 g" if "g \<noteq> ''labels''" for g
    using ok2 that by (simp add: vObj SetLabels_def meta_rules)
  have "GetName vObj = Name vNN \<and> GetNamespace vObj = Namespace vNN"
    by (simp add: accessors_meta m1 m2 m3)
  with v show "\<exists>vNN. bs_PhysicalToVirtual ctx nc b (object_nn pObj) (Some pObj) = Inr vNN \<and> Name vNN \<noteq> []
      \<and> GetName vObj = Name vNN \<and> GetNamespace vObj = Namespace vNN" by blast
  show "\<not> bs_isExcluded ctx b vObj"
    using ok2 by (simp add: bs_isExcluded_def has_controller_def vObj SetLabels_def accessors_meta(3)
        meta_rules str_at_update)
  have "GetAnnotations vObj = map_option remove_markers (GetAnnotations o1)"
    using ok1 by (simp add: accessors_meta(4) m3) (simp add: o2_def SetAnnotations_def meta_rules accessors_meta(4) split: option.splits)
  then show "\<not> containsBackSyncNameAnnotations ctx vObj"
    by (auto simp: containsBackSyncNameAnnotations_def remove_markers_lookup)
qed

text \<open>Virtual objects of another controller are left alone.\<close>

lemma bs_excluded_untouched:
  assumes "bs_isExcluded ctx b vObj"
  shows "syncDown ctx b vObj w = (Inr done_result, w)"
    and "bs_sync E J ctx nc b pObj vObj w = (Inr done_result, w)"
    and "enqueueVirtual ctx b add (Some vObj) isDelete w = (Inr (), w)"
  using assms by (simp_all add: syncDown_def deleteVirtualObject_def bs_sync_def enqueueVirtual_def io_simps)

text \<open>The hook turns an index entry of the watched path into a request for the host object.\<close>

lemma back_sync_hook_adds:
  assumes "name \<noteq> []" "CHR ''/'' \<notin> set host"
  shows "back_sync_hook ns rewrittenPath add name (host @ ''/'' @ path) value w =
    (if rewrittenPath = [] \<or> path = rewrittenPath then add \<lparr>Namespace = ns, Name = host\<rparr> w else w)"
proof -
  have "\<forall>c \<in> set host. c \<noteq> CHR ''/''" using assms(2) by auto
  then have "strings_Split (host @ CHR ''/'' # path) (CHR ''/'') = host # strings_Split path (CHR ''/'')"
    by (intro split_on_append_sep) auto
  then show ?thesis using assms(1) by (simp add: back_sync_hook_def Let_def)
qed

end
