(* ===== verification/ForceSync.thy ===== *)
theory ForceSync
  imports BackSyncer
begin

text \<open>
  The controller that asks vcluster to sync Secrets and ConfigMaps a mapping refers to
  (\<^verbatim>\<open>pkg/syncer/force_sync_controller.go\<close>): it sets the annotation of force-synced objects exactly
  while the name cache knows a reference to them.
\<close>

section \<open>Definitions\<close>

abbreviation ForceSyncAnnotation :: string where
  "ForceSyncAnnotation \<equiv> ''vcluster.loft.sh/force-sync''"

record ForceSyncConfig =
  fsParent :: FromVirtualCluster
  fsPatch :: Patch

record 'w forceSyncController =
  fsGVK :: GroupVersionKind
  fsConfig :: "ForceSyncConfig list"
  fsClient :: "'w Client"

definition CreateForceSyncController ::
  "'w RegisterContext \<Rightarrow> GroupVersionKind \<Rightarrow> ForceSyncConfig list \<Rightarrow> 'w forceSyncController" where
  "CreateForceSyncController ctx gvk config =
     \<lparr>fsGVK = gvk, fsConfig = config, fsClient = VirtualClient ctx\<rparr>"

definition fs_Name :: "'w forceSyncController \<Rightarrow> string" where
  "fs_Name f = GVKKind (fsGVK f) @ ''-force-sync-controller''"

definition parent_gvk :: "ForceSyncConfig \<Rightarrow> GroupVersionKind" where
  "parent_gvk c = FromAPIVersionAndKind (APIVersion (fsParent c)) (Kind (fsParent c))"

definition shouldSync :: "string \<Rightarrow> 'h nameCache \<Rightarrow> 'w forceSyncController \<Rightarrow> goval \<Rightarrow> bool" where
  "shouldSync Suffix nc f obj \<longleftrightarrow> list_ex (\<lambda>c. Name (ResolveNamePath nc (parent_gvk c)
     (PhysicalName Suffix (GetName obj) (GetNamespace obj)) (Path (fsPatch c))) \<noteq> []) (fsConfig f)"

definition containsForceSyncNameAnnotation :: "goval \<Rightarrow> bool" where
  "containsForceSyncNameAnnotation obj \<longleftrightarrow> str_at (GetAnnotations obj) ForceSyncAnnotation = ''true''"

definition without_force_sync :: "goval \<Rightarrow> goval" where
  "without_force_sync obj =
     SetAnnotations (map_option (AList.delete ForceSyncAnnotation) (GetAnnotations obj)) obj"

definition with_force_sync :: "goval \<Rightarrow> goval" where
  "with_force_sync obj = SetAnnotations (Some (AList.update ForceSyncAnnotation ''true''
     (case GetAnnotations obj of None \<Rightarrow> [] | Some es \<Rightarrow> es))) obj"

definition removeAnnotationsFromVirtualObject :: "'w forceSyncController \<Rightarrow> goval \<Rightarrow> ('w, unit) io" where
  "removeAnnotationsFromVirtualObject f obj =
     bind_io (send_patch (fsClient f) obj (without_force_sync obj)) (\<lambda>_. return_io ())"

definition addAnnotationsToVirtualObject :: "'w forceSyncController \<Rightarrow> goval \<Rightarrow> ('w, unit) io" where
  "addAnnotationsToVirtualObject f obj =
     bind_io (send_patch (fsClient f) obj (with_force_sync obj)) (\<lambda>_. return_io ())"

text \<open>A missing object leaves the empty object of the kind, which has no name and no annotation.\<close>

definition blank_object :: "GroupVersionKind \<Rightarrow> goval" where
  "blank_object gvk = VMap
     [(''apiVersion'', VStr (if Group gvk = [] then Version gvk else Group gvk @ ''/'' @ Version gvk)),
      (''kind'', VStr (GVKKind gvk))]"

definition fs_Reconcile ::
  "string \<Rightarrow> 'h nameCache \<Rightarrow> 'w forceSyncController \<Rightarrow> NamespacedName \<Rightarrow> ('w, ctrl_result) io" where
  "fs_Reconcile Suffix nc f req =
     bind_io (get_optional (fsClient f) req) (\<lambda>found.
       let obj = (case found of None \<Rightarrow> blank_object (fsGVK f) | Some o' \<Rightarrow> o')
       in bind_io
            (if containsForceSyncNameAnnotation obj \<and> \<not> shouldSync Suffix nc f obj
             then removeAnnotationsFromVirtualObject f obj
             else if shouldSync Suffix nc f obj \<and> \<not> containsForceSyncNameAnnotation obj
             then addAnnotationsToVirtualObject f obj
             else return_io ()) (\<lambda>_. return_io done_result))"

text \<open>The predicate of the watch: objects being deleted are not reconciled.\<close>

definition fs_watches :: "string \<Rightarrow> 'h nameCache \<Rightarrow> 'w forceSyncController \<Rightarrow> goval option \<Rightarrow> bool" where
  "fs_watches Suffix nc f object = (case object of
     None \<Rightarrow> False
   | Some obj \<Rightarrow>
       getNestedString obj (meta_field ''deletionTimestamp'') = []
       \<and> (shouldSync Suffix nc f obj \<or> containsForceSyncNameAnnotation obj))"

definition force_sync_hook :: "string \<Rightarrow> (NamespacedName \<Rightarrow> 'h \<Rightarrow> 'h) \<Rightarrow> 'h HookFunc" where
  "force_sync_hook patchPath add name key value w =
     (if name = [] then w
      else
        let path = strings_Join (tl (strings_Split key (CHR ''/''))) ''/'';
            nn = StringToNamespacedName value
        in if path = patchPath \<and> Name nn \<noteq> [] then add nn w else w)"

text \<open>
  \<^verbatim>\<open>Start\<close> registers one hook for every configuration. The closures share the loop variable \<^verbatim>\<open>c\<close> (the
  module is built with Go 1.18), so once the loop is over each of them reads the path of the last
  configuration.
\<close>

definition fs_Start :: "'w forceSyncController \<Rightarrow> (NamespacedName \<Rightarrow> 'h \<Rightarrow> 'h) \<Rightarrow> 'h nameCache \<Rightarrow> 'h nameCache" where
  "fs_Start f add nc =
     fold (\<lambda>c. AddChangeHook (parent_gvk c) IndexPhysicalToVirtualNamePath
            (force_sync_hook (Path (fsPatch (last (fsConfig f)))) add)) (fsConfig f) nc"

section \<open>The annotation follows the cache\<close>

lemma with_force_sync_set:
  assumes "obj_ok obj"
  shows "obj_ok (with_force_sync obj)" "containsForceSyncNameAnnotation (with_force_sync obj)"
    and "g \<noteq> ''annotations'' \<Longrightarrow> meta (with_force_sync obj) g = meta obj g"
  using assms
  by (simp_all add: containsForceSyncNameAnnotation_def with_force_sync_def SetAnnotations_def
      accessors_meta(4) meta_rules obj_ok_rules str_at_update)

lemma without_force_sync_unset:
  assumes "obj_ok obj"
  shows "obj_ok (without_force_sync obj)" "\<not> containsForceSyncNameAnnotation (without_force_sync obj)"
    and "g \<noteq> ''annotations'' \<Longrightarrow> meta (without_force_sync obj) g = meta obj g"
  using assms
  by (auto simp: containsForceSyncNameAnnotation_def without_force_sync_def SetAnnotations_def
      accessors_meta(4) meta_rules obj_ok_rules str_at_delete str_at_def[of None] split: option.splits)

lemma shouldSync_meta:
  "meta obj ''name'' = meta obj' ''name'' \<Longrightarrow> meta obj ''namespace'' = meta obj' ''namespace'' \<Longrightarrow>
     shouldSync Suffix nc f obj = shouldSync Suffix nc f obj'"
  by (simp add: shouldSync_def accessors_meta)

text \<open>The object a reconcile would leave on the server: its target state.\<close>

definition fs_target :: "string \<Rightarrow> 'h nameCache \<Rightarrow> 'w forceSyncController \<Rightarrow> goval \<Rightarrow> goval" where
  "fs_target Suffix nc f obj =
     (if containsForceSyncNameAnnotation obj \<and> \<not> shouldSync Suffix nc f obj then without_force_sync obj
      else if shouldSync Suffix nc f obj \<and> \<not> containsForceSyncNameAnnotation obj then with_force_sync obj
      else obj)"

lemma fs_target_correct:
  assumes "obj_ok obj"
  shows "containsForceSyncNameAnnotation (fs_target Suffix nc f obj)
      \<longleftrightarrow> shouldSync Suffix nc f (fs_target Suffix nc f obj)"
    and "shouldSync Suffix nc f (fs_target Suffix nc f obj) \<longleftrightarrow> shouldSync Suffix nc f obj"
  using assms with_force_sync_set [OF assms] without_force_sync_unset [OF assms]
    shouldSync_meta [of "with_force_sync obj" obj Suffix nc f]
    shouldSync_meta [of "without_force_sync obj" obj Suffix nc f]
  by (auto simp: fs_target_def)

lemma fs_target_idem: "obj_ok obj \<Longrightarrow> fs_target Suffix nc f (fs_target Suffix nc f obj) = fs_target Suffix nc f obj"
  using fs_target_correct [of obj Suffix nc f] by (simp add: fs_target_def [of Suffix nc f "fs_target Suffix nc f obj"])

text \<open>A reconcile sends the target state when the annotation is wrong, and nothing otherwise.\<close>

lemma send_patch_unit:
  "MergeData c original obj = Inr data \<Longrightarrow>
     bind_io (send_patch c original obj) (\<lambda>_. return_io ()) =
       (if data = ''{}'' then return_io () else bind_io (MergePatch c original obj) (\<lambda>_. return_io ()))"
  by (simp add: send_patch_def)

lemma send_unit_then:
  assumes "MergeData c original obj = Inr data"
  shows "bind_io (bind_io (send_patch c original obj) (\<lambda>_. return_io ())) (\<lambda>_. return_io done_result) w =
    (if data = ''{}'' then (Inr done_result, w)
     else bind_io (MergePatch c original obj) (\<lambda>_. return_io done_result) w)"
proof (cases "data = ''{}''")
  case True
  then show ?thesis using send_patch_unit [OF assms] by (simp add: io_simps_basic(1))
next
  case False
  then show ?thesis using send_patch_unit [OF assms] by (simp add: bind_io_assoc)
qed

lemma fs_Reconcile_sends:
  assumes "get_optional (fsClient f) req w = (Inr (Some obj), w')"
    and "MergeData (fsClient f) obj (fs_target Suffix nc f obj) = Inr data"
  shows "fs_Reconcile Suffix nc f req w =
    (if containsForceSyncNameAnnotation obj = shouldSync Suffix nc f obj \<or> data = ''{}''
     then (Inr done_result, w')
     else bind_io (MergePatch (fsClient f) obj (fs_target Suffix nc f obj)) (\<lambda>_. return_io done_result) w')"
proof -
  let ?c = "containsForceSyncNameAnnotation obj" and ?s = "shouldSync Suffix nc f obj"
  have eq: "fs_Reconcile Suffix nc f req w = bind_io
      (if ?c \<and> \<not> ?s then removeAnnotationsFromVirtualObject f obj
       else if ?s \<and> \<not> ?c then addAnnotationsToVirtualObject f obj
       else return_io ()) (\<lambda>_. return_io done_result) w'"
    unfolding fs_Reconcile_def
    by (subst bind_io_simps(1) [where m = "get_optional (fsClient f) req" and w = w, OF assms(1)])
      (simp only: Let_def option.case)
  consider "?c" "\<not> ?s" | "?s" "\<not> ?c" | "?c = ?s" by blast
  then show ?thesis
  proof cases
    case 1
    then have "fs_target Suffix nc f obj = without_force_sync obj" by (simp add: fs_target_def)
    with 1 assms(2) eq send_unit_then [of "fsClient f" obj "without_force_sync obj" data] show ?thesis
      by (simp add: removeAnnotationsFromVirtualObject_def)
  next
    case 2
    then have "fs_target Suffix nc f obj = with_force_sync obj" by (simp add: fs_target_def)
    with 2 assms(2) eq send_unit_then [of "fsClient f" obj "with_force_sync obj" data] show ?thesis
      by (simp add: addAnnotationsToVirtualObject_def)
  next
    case 3
    with eq show ?thesis by (simp add: io_simps_basic(1))
  qed
qed

text \<open>What the hooks of \<^verbatim>\<open>Start\<close> enqueue.\<close>

lemma force_sync_hook_adds:
  assumes "name \<noteq> []" "CHR ''/'' \<notin> set host"
  shows "force_sync_hook patchPath add name (host @ ''/'' @ path) value w =
    (if path = patchPath \<and> Name (StringToNamespacedName value) \<noteq> []
     then add (StringToNamespacedName value) w else w)"
proof -
  have "\<forall>c \<in> set host. c \<noteq> CHR ''/''" using assms(2) by auto
  then have "strings_Split (host @ CHR ''/'' # path) (CHR ''/'') = host # strings_Split path (CHR ''/'')"
    by (intro split_on_append_sep) auto
  then show ?thesis using assms(1) by (simp add: force_sync_hook_def Let_def)
qed

end
