(* ===== verification/YamlUtil.thy ===== *)
theory YamlUtil
  imports GoStrings
begin

text \<open>
  Strict decoding with readable errors (\<^verbatim>\<open>pkg/util/yaml/yaml.go\<close>). The decoder is \<^verbatim>\<open>gopkg.in/yaml.v3\<close>
  with \<^verbatim>\<open>KnownFields(true)\<close>; it fails with a \<^verbatim>\<open>TypeError\<close>, a list of messages, or with another error.
\<close>

section \<open>Definitions\<close>

datatype yaml_error = TypeError "string list" | OtherError go_error

text \<open>\<^verbatim>\<open>lineRegEx\<close>, the expression \<^verbatim>\<open>^line ([0-9]+):\<close>, and its group.\<close>

definition is_digit :: "char \<Rightarrow> bool" where
  "is_digit c \<longleftrightarrow> digit_val c \<noteq> None"

definition line_number :: "string \<Rightarrow> string option" where
  "line_number s =
     (if prefix ''line '' s then
        let rest = drop 5 s; ds = takeWhile is_digit rest
        in if ds \<noteq> [] \<and> prefix '':'' (drop (length ds) rest) then Some ds else None
      else None)"

fun numbered_lines :: "nat \<Rightarrow> string list \<Rightarrow> string list" where
  "numbered_lines i [] = []"
| "numbered_lines i (v # vs) =
     (if v = [] then numbered_lines (Suc i) vs
      else (''  '' @ show_nat (i + 1) @ '': '' @ v) # numbered_lines (Suc i) vs)"

definition rename_tags :: "string \<Rightarrow> string" where
  "rename_tags e0 =
     (let e1 = strings_ReplaceAll e0 ''!!seq'' ''an array'';
          e2 = strings_ReplaceAll e1 ''!!str'' ''string'';
          e3 = strings_ReplaceAll e2 ''!!map'' ''an object'';
          e4 = strings_ReplaceAll e3 ''!!int'' ''number''
      in strings_ReplaceAll e4 ''!!bool'' ''boolean'')"

text \<open>
  The index of the line is checked against the number of lines only; line 0 would index the slice at
  \<open>-1\<close>. (A line number that passes the check is a natural number, so \<open>show_nat\<close> prints it.)
\<close>

definition prettify_message :: "string \<Rightarrow> string \<Rightarrow> string result" where
  "prettify_message data message =
     (let e = rename_tags message in
      case line_number e of
        None \<Rightarrow> Inr e
      | Some ds \<Rightarrow>
          (case strconv_Atoi ds of
             None \<Rightarrow> Inr e
           | Some n \<Rightarrow>
               let line = n - 1; lines = strings_Split data (CHR 0x0A) in
               if line < int (length lines) then
                 (if line < 0 then panic IndexOutOfRange
                  else Inr (''  '' @ e @ '' (line '' @ show_nat (nat line + 1) @ '': '' @
                            strings_TrimSpace (lines ! nat line) @ '')''))
               else Inr e))"

fun prettify_messages :: "string \<Rightarrow> string list \<Rightarrow> string list result" where
  "prettify_messages data [] = Inr []"
| "prettify_messages data (m # ms) =
     bind_result (prettify_message data m) (\<lambda>e.
     bind_result (prettify_messages data ms) (\<lambda>es. Inr (e # es)))"

definition prettifyError :: "string \<Rightarrow> yaml_error \<Rightarrow> yaml_error result" where
  "prettifyError data err = (case err of
     TypeError errors \<Rightarrow>
       bind_result (prettify_messages data errors) (\<lambda>es.
         Inr (TypeError (''Parsed Config:'' # numbered_lines 0 (strings_Split data (CHR 0x0A)) @
                         ''Errors:'' # es)))
   | OtherError e \<Rightarrow> Inr (OtherError e))"

definition UnmarshalStrict :: "(string \<Rightarrow> yaml_error + 'a) \<Rightarrow> string \<Rightarrow> (yaml_error + 'a) result" where
  "UnmarshalStrict Decode data = (case Decode data of
     Inr out \<Rightarrow> Inr (Inr out)
   | Inl err \<Rightarrow> bind_result (prettifyError data err) (\<lambda>err'. Inr (Inl err')))"

section \<open>Lemmas\<close>

lemma digits_val_nonneg: "0 \<le> acc \<Longrightarrow> digits_val acc ds = Some n \<Longrightarrow> 0 \<le> n"
  by (induction acc ds rule: digits_val.induct) (auto simp: digit_val_def Let_def split: option.splits if_splits)

text \<open>Messages keep their order and number; each is the renamed message or contains it.\<close>

lemma prettify_message_contains:
  "prettify_message data m = Inr e \<Longrightarrow> sublist (rename_tags m) e"
  by (auto simp: prettify_message_def Let_def split: option.splits if_splits intro!: sublist_appendI sublist_appendI [where ps = "''  ''", simplified])

lemma prettify_messages_length: "prettify_messages data ms = Inr es \<Longrightarrow> length es = length ms"
  by (induction ms arbitrary: es) (auto simp: result_simps)

lemma prettify_messages_nth:
  "prettify_messages data ms = Inr es \<Longrightarrow> i < length ms \<Longrightarrow> prettify_message data (ms ! i) = Inr (es ! i)"
proof (induction ms arbitrary: es i)
  case (Cons m ms)
  then show ?case by (cases i) (auto simp: result_simps)
qed simp

text \<open>The only way to panic is a message about line 0; the decoder counts lines from 1.\<close>

definition about_line_0 :: "string \<Rightarrow> bool" where
  "about_line_0 m \<longleftrightarrow> (\<exists>ds n. line_number (rename_tags m) = Some ds \<and> strconv_Atoi ds = Some n \<and> n \<le> 0)"

lemma prettify_message_total:
  "(\<exists>e. prettify_message data m = Inr e) \<or> (about_line_0 m \<and> prettify_message data m = panic IndexOutOfRange)"
  by (auto simp: prettify_message_def about_line_0_def Let_def split: option.splits)

lemma prettify_messages_total:
  "list_all (\<lambda>m. \<not> about_line_0 m) ms \<Longrightarrow> \<exists>es. prettify_messages data ms = Inr es"
proof (induction ms)
  case (Cons m ms)
  then show ?case using prettify_message_total [of data m] by fastforce
qed simp

end
