(* ===== verification/PluginMain.thy ===== *)
theory PluginMain
  imports ForceSync CacheHandler YamlUtil
begin

text \<open>
  The start of the plugin (\<^verbatim>\<open>main.go\<close>) and the construction of the name cache
  (\<^verbatim>\<open>namecache.NewNameCache\<close>): which kinds get an informer, which controllers are created from a
  configuration and in which order they are registered. A fatal log message ends the process: it is
  an error of \<open>main\<close>.
\<close>

section \<open>The plugin framework\<close>

datatype 'w syncer_base =
    FromVirtualBase "'w fromVirtualController"
  | BackBase "'w backSyncController"
  | ForceSyncBase "'w forceSyncController"

text \<open>
  What \<^verbatim>\<open>main\<close> uses of the SDK and of the manager, over the state \<open>'p\<close> of the plugin: the
  initialisation, which yields the context, the scheme, the
  copying of CRDs from the host, the informers, the registration of controllers and the blocking
  start. Handlers hold a pointer to a mapping, written here as the position of the mapping.
\<close>

record ('p, 'w) plugin_api =
  InitPlugin :: "('p, 'w RegisterContext) io"
  Recognizes :: "GroupVersionKind \<Rightarrow> bool"
  EnsureCRDFromPhysicalCluster :: "GroupVersionKind \<Rightarrow> ('p, unit) io"
  MarshalConfig :: "Config \<Rightarrow> go_error + string"
  GetInformer :: "string \<Rightarrow> string \<Rightarrow> ('p, unit) io"
  AddEventHandler :: "GroupVersionKind \<Rightarrow> nat \<Rightarrow> 'p \<Rightarrow> 'p"
  RegisterSyncer :: "'w syncer_base \<Rightarrow> ('p, unit) io"
  StartPlugin :: "('p, unit) io"
  DecodeConfig :: "string \<Rightarrow> Config result"
  RegexpCompile :: "string \<Rightarrow> go_error + go_regexp"
  NewRequirement :: "string \<Rightarrow> string \<Rightarrow> go_error option"

definition fatal_io :: "string \<Rightarrow> ('p, 'a) io \<Rightarrow> ('p, 'a) io" where
  "fatal_io msg m w = (case m w of (r, w') \<Rightarrow> (errorf msg r, w'))"

text \<open>A \<^verbatim>\<open>for range\<close> loop of effects, and the error and panic of a pure step.\<close>

fun each_io :: "('a \<Rightarrow> ('p, unit) io) \<Rightarrow> 'a list \<Rightarrow> ('p, unit) io" where
  "each_io f [] = return_io ()"
| "each_io f (x # xs) = bind_io (f x) (\<lambda>_. each_io f xs)"

definition mapping_gvk :: "FromVirtualCluster \<Rightarrow> GroupVersionKind" where
  "mapping_gvk m = FromAPIVersionAndKind (APIVersion m) (Kind m)"

section \<open>CRDs\<close>

text \<open>
  Inside the loop over the back syncs the scheme is asked about the kind of the mapping, not about
  the kind of the back sync, as in the source.
\<close>

definition ensure_mapping_crds :: "('p, 'w) plugin_api \<Rightarrow> Mapping \<Rightarrow> ('p, unit) io" where
  "ensure_mapping_crds P m = (case MFromVirtualCluster m of
     None \<Rightarrow> return_io ()
   | Some fvc \<Rightarrow>
       bind_io
         (if \<not> Recognizes P (mapping_gvk fvc)
          then fatal_io (''Error syncronizing CRD '' @ Kind fvc @ ''('' @ APIVersion fvc @ '') from the host cluster into vcluster'')
                 (EnsureCRDFromPhysicalCluster P (mapping_gvk fvc))
          else return_io ()) (\<lambda>_.
       each_io (\<lambda>sb.
         if \<not> Recognizes P (mapping_gvk fvc)
         then (case sb of
             None \<Rightarrow> lift_io (panic NilDereference)
           | Some c \<Rightarrow>
               fatal_io (''Error syncronizing CRD '' @ Kind fvc @ ''('' @ APIVersion fvc @ '') from the host cluster into vcluster'')
                 (EnsureCRDFromPhysicalCluster P (FromAPIVersionAndKind (APIVersion c) (Kind c))))
         else return_io ()) (SyncBacks fvc)))"

section \<open>The name cache\<close>

fun any_patch :: "(Patch \<Rightarrow> bool) \<Rightarrow> Patch option list \<Rightarrow> bool result" where
  "any_patch q [] = Inr False"
| "any_patch q (None # ps) = panic NilDereference"
| "any_patch q (Some p # ps) = (if q p then Inr True else any_patch q ps)"

definition wants_sync :: "Patch \<Rightarrow> bool" where
  "wants_sync p = (case Patch.Sync p of
     None \<Rightarrow> False
   | Some s \<Rightarrow> Secret s = Some True \<or> ConfigMap s = Some True)"

text \<open>Does the mapping use the cache: reverse patches that rewrite names, built-in syncs, back syncs?\<close>

definition uses_cache :: "FromVirtualCluster \<Rightarrow> bool result" where
  "uses_cache m =
     bind_result (any_patch (\<lambda>p. Operation p = PatchTypeRewriteName) (ReversePatches m)) (\<lambda>reverse.
     bind_result (any_patch wants_sync (Patches m)) (\<lambda>sync.
       Inr (reverse \<or> sync \<or> SyncBacks m \<noteq> [])))"

fun NewNameCache_mappings :: "('p, 'w) plugin_api \<Rightarrow> nat \<Rightarrow> Mapping list \<Rightarrow> ('p, unit) io" where
  "NewNameCache_mappings P i [] = return_io ()"
| "NewNameCache_mappings P i (mapping # ms) =
     bind_io (case MFromVirtualCluster mapping of
         None \<Rightarrow> throw_io (Plain ''currently expects fromVirtualCluster to be defined'')
       | Some fvc \<Rightarrow>
           bind_io (lift_io (uses_cache fvc)) (\<lambda>found.
             if \<not> found then return_io ()
             else
               bind_io (fatal_io ''get informer for mapping'' (GetInformer P (APIVersion fvc) (Kind fvc)))
                 (\<lambda>_ p. (Inr (), AddEventHandler P (mapping_gvk fvc) i p)))) (\<lambda>_.
     NewNameCache_mappings P (Suc i) ms)"

definition NewNameCache :: "('p, 'w) plugin_api \<Rightarrow> Config \<Rightarrow> ('p, 'h nameCache) io" where
  "NewNameCache P mappings =
     bind_io (NewNameCache_mappings P 0 (Mappings mappings)) (\<lambda>_. return_io emptyNameCache)"

section \<open>Controllers\<close>

text \<open>The patches with a Secret or ConfigMap sync, each with a copy of its mapping.\<close>

fun collect_force_sync ::
  "FromVirtualCluster \<Rightarrow> Patch option list \<Rightarrow> ForceSyncConfig list \<times> ForceSyncConfig list
     \<Rightarrow> (ForceSyncConfig list \<times> ForceSyncConfig list) result" where
  "collect_force_sync m [] acc = Inr acc"
| "collect_force_sync m (None # ps) acc = panic NilDereference"
| "collect_force_sync m (Some p # ps) acc = (case acc of (secrets, configmaps) \<Rightarrow>
     let entry = \<lparr>fsParent = m, fsPatch = p\<rparr>;
         secrets' = (case Patch.Sync p of
             Some s \<Rightarrow> if Secret s = Some True then secrets @ [entry] else secrets
           | None \<Rightarrow> secrets);
         configmaps' = (case Patch.Sync p of
             Some s \<Rightarrow> if ConfigMap s = Some True then configmaps @ [entry] else configmaps
           | None \<Rightarrow> configmaps)
     in collect_force_sync m ps (secrets', configmaps'))"

definition register_back_sync ::
  "('p, 'w) plugin_api \<Rightarrow> 'w RegisterContext \<Rightarrow> FromVirtualCluster \<Rightarrow> SyncBack option \<Rightarrow> ('p, unit) io" where
  "register_back_sync P ctx m c = (case c of
     None \<Rightarrow> lift_io (panic NilDereference)
   | Some sb \<Rightarrow>
       bind_io (fatal_io (''Error creating '' @ Kind m @ ''('' @ APIVersion m @ '') backsyncer'')
         (lift_io (CreateBackSyncer ctx sb m))) (\<lambda>b.
       fatal_io (''Error registering '' @ Kind m @ ''('' @ APIVersion m @ '') syncer'')
         (RegisterSyncer P (BackBase b))))"

text \<open>
  One mapping: its syncer, which parses the regular expressions of the mapping in place, then the
  force-sync patches, then the back syncers.
\<close>

definition register_mapping ::
  "('p, 'w) plugin_api \<Rightarrow> 'w RegisterContext \<Rightarrow> Mapping \<Rightarrow> ForceSyncConfig list \<times> ForceSyncConfig list
     \<Rightarrow> ('p, ForceSyncConfig list \<times> ForceSyncConfig list) io" where
  "register_mapping P ctx mapping acc = (case MFromVirtualCluster mapping of
     None \<Rightarrow> return_io acc
   | Some fvc \<Rightarrow>
       bind_io (fatal_io (''Error creating '' @ Kind fvc @ ''('' @ APIVersion fvc @ '') syncer'')
         (lift_io (CreateFromVirtualSyncer (RegexpCompile P) (NewRequirement P) ctx fvc))) (\<lambda>s.
       bind_io (fatal_io (''Error registering '' @ Kind fvc @ ''('' @ APIVersion fvc @ '') syncer'')
         (RegisterSyncer P (FromVirtualBase s))) (\<lambda>_.
       bind_io (lift_io (collect_force_sync (fv_config s) (Patches (fv_config s)) acc)) (\<lambda>acc'.
       bind_io (each_io (register_back_sync P ctx (fv_config s)) (SyncBacks (fv_config s))) (\<lambda>_.
         return_io acc')))))"

fun register_mappings ::
  "('p, 'w) plugin_api \<Rightarrow> 'w RegisterContext \<Rightarrow> Mapping list \<Rightarrow> ForceSyncConfig list \<times> ForceSyncConfig list
     \<Rightarrow> ('p, ForceSyncConfig list \<times> ForceSyncConfig list) io" where
  "register_mappings P ctx [] acc = return_io acc"
| "register_mappings P ctx (m # ms) acc =
     bind_io (register_mapping P ctx m acc) (register_mappings P ctx ms)"

fun containsStr :: "string list \<Rightarrow> string \<Rightarrow> bool" where
  "containsStr [] s = False"
| "containsStr (item # arr) s = (item = s \<or> containsStr arr s)"

abbreviation core_v1 :: "string \<Rightarrow> GroupVersionKind" where
  "core_v1 kind \<equiv> \<lparr>Group = [], Version = ''v1'', GVKKind = kind\<rparr>"

definition register_force_sync ::
  "('p, 'w) plugin_api \<Rightarrow> 'w RegisterContext \<Rightarrow> string \<Rightarrow> string \<Rightarrow> ForceSyncConfig list \<Rightarrow> ForceSyncConfig list
     \<Rightarrow> ('p, unit) io" where
  "register_force_sync P ctx kind disabled found config =
     (if found = [] then return_io ()
      else if containsStr (OptionsControllers ctx) disabled
      then throw_io (Plain (''The '' @ kind @ '' sync is being used in the configuration, but vcluster '' @ kind @ '' syncer is disabled.''))
      else fatal_io (''Error registering '' @ kind @ '' ForceSyncController'')
             (RegisterSyncer P (ForceSyncBase (CreateForceSyncController ctx (core_v1 kind) config))))"

text \<open>The controller of ConfigMaps is given the configurations of Secrets, as in the source.\<close>

definition run_configuration ::
  "('p, 'w) plugin_api \<Rightarrow> 'w RegisterContext \<Rightarrow> Config \<Rightarrow> ('p, unit) io" where
  "run_configuration P ctx configuration =
     bind_io (each_io (ensure_mapping_crds P) (Mappings configuration)) (\<lambda>_.
     bind_io (fatal_io ''Error seting up namecache for a mapping ''
       (NewNameCache P configuration :: ('p, unit nameCache) io)) (\<lambda>nc.
     bind_io (register_mappings P ctx (Mappings configuration) ([], [])) (\<lambda>(secrets, configmaps).
     bind_io (register_force_sync P ctx ''Secret'' ''-secrets'' secrets secrets) (\<lambda>_.
       register_force_sync P ctx ''ConfigMap'' ''-configmaps'' configmaps secrets))))"

definition load_configuration :: "('p, 'w) plugin_api \<Rightarrow> 'w RegisterContext \<Rightarrow> ('p, unit) io" where
  "load_configuration P ctx =
     (let c = Environment ctx ''CONFIG'' in
      if c = [] then return_io ()
      else
        bind_io (lift_io (ParseConfig (DecodeConfig P) c)) (\<lambda>configuration.
        bind_io (case MarshalConfig P configuration of Inl e \<Rightarrow> throw_io e | Inr text \<Rightarrow> return_io ()) (\<lambda>_.
          run_configuration P ctx configuration)))"

definition main :: "('p, 'w) plugin_api \<Rightarrow> ('p, unit) io" where
  "main P =
     bind_io (fatal_io ''Error initializing plugin'' (InitPlugin P)) (\<lambda>ctx.
     bind_io (load_configuration P ctx) (\<lambda>_.
       fatal_io ''Error starting plugin'' (StartPlugin P)))"

section \<open>Lemmas\<close>

lemma containsStr_set: "containsStr arr s \<longleftrightarrow> s \<in> set arr"
  by (induction arr) auto

lemma any_patch_valid:
  "list_all valid_patch ps \<Longrightarrow> any_patch q ps = Inr (\<exists>p. Some p \<in> set ps \<and> q p)"
proof (induction ps)
  case (Cons p ps)
  then show ?case by (cases p) (auto simp: valid_patch_def)
qed simp

text \<open>For a valid mapping the decision is made without a fault.\<close>

lemma uses_cache_valid:
  assumes "valid_base m"
  shows "uses_cache m = Inr ((\<exists>p. Some p \<in> set (ReversePatches m) \<and> Operation p = PatchTypeRewriteName)
    \<or> (\<exists>p. Some p \<in> set (Patches m) \<and> wants_sync p) \<or> SyncBacks m \<noteq> [])"
  using assms by (simp add: uses_cache_def valid_base_def any_patch_valid)

text \<open>The force-sync configurations, declaratively.\<close>

definition force_configs :: "(PatchSync \<Rightarrow> bool option) \<Rightarrow> FromVirtualCluster \<Rightarrow> ForceSyncConfig list" where
  "force_configs sel m = map (\<lambda>p. \<lparr>fsParent = m, fsPatch = the p\<rparr>)
     (filter (\<lambda>p. \<exists>q s. p = Some q \<and> Patch.Sync q = Some s \<and> sel s = Some True) (Patches m))"

lemma collect_force_sync_filter:
  assumes "None \<notin> set ps"
  shows "collect_force_sync m ps (secrets, configmaps) = Inr
    (secrets @ map (\<lambda>p. \<lparr>fsParent = m, fsPatch = the p\<rparr>)
       (filter (\<lambda>p. \<exists>q s. p = Some q \<and> Patch.Sync q = Some s \<and> Secret s = Some True) ps),
     configmaps @ map (\<lambda>p. \<lparr>fsParent = m, fsPatch = the p\<rparr>)
       (filter (\<lambda>p. \<exists>q s. p = Some q \<and> Patch.Sync q = Some s \<and> ConfigMap s = Some True) ps))"
  using assms
proof (induction ps arbitrary: secrets configmaps)
  case (Cons p ps)
  then obtain q where q: "p = Some q" by (cases p) auto
  with Cons show ?case by (cases "Patch.Sync q") (auto simp: Let_def)
qed simp

end
