(* ===== verification/BlockingClient.thy ===== *)
theory BlockingClient
  imports Io "HOL-Library.List_Lexorder" "HOL-Library.Char_ord"
begin

text \<open>
  The client that waits for its cache (\<^verbatim>\<open>pkg/blockingcacheclient/client.go\<close>) over
  \<^verbatim>\<open>wait.PollImmediate\<close> of \<^verbatim>\<open>k8s.io/apimachinery\<close>. The rest of the system acts between two evaluations
  of a polling condition; a schedule lists these actions, one for every time the channel of the
  poller lets the condition run again (its closing, at the timeout of two seconds, is the last). An
  interval of 10 milliseconds gives at most 200 ticks and the closing, but ticks may be dropped, so
  the theorems are for schedules of any length.
\<close>

section \<open>Polling (wait.go)\<close>

definition ErrWaitTimeout :: go_error where
  "ErrWaitTimeout = Plain ''timed out waiting for the condition''"

fun WaitFor :: "('w, bool) io \<Rightarrow> ('w \<Rightarrow> 'w) list \<Rightarrow> ('w, unit) io" where
  "WaitFor fn [] = throw_io ErrWaitTimeout"
| "WaitFor fn (t # ts) = (\<lambda>w.
     bind_io fn (\<lambda>ok. if ok then return_io () else WaitFor fn ts) (t w))"

definition PollImmediate :: "('w, bool) io \<Rightarrow> ('w \<Rightarrow> 'w) list \<Rightarrow> ('w, unit) io" where
  "PollImmediate condition schedule =
     bind_io condition (\<lambda>ok. if ok then return_io () else WaitFor condition schedule)"

section \<open>The client\<close>

text \<open>What the conditions read of an object's metadata.\<close>

record object_meta =
  om_key :: NamespacedName
  om_UID :: string
  om_ResourceVersion :: string
  om_DeletionTimestamp :: "string option"

text \<open>An unstructured object, or one of a Go type the scheme may not know.\<close>

datatype client_object = UnstructuredObject object_meta | TypedObject object_meta

text \<open>
  The delegating client inside: reads come from the cache, writes go to the API server. \<open>Recognized\<close>
  says whether the scheme can name and build the kind of a typed object.
\<close>

record 'w DelegatingClient =
  dc_Get :: "NamespacedName \<Rightarrow> ('w, object_meta) io"
  dc_Create :: "client_object \<Rightarrow> ('w, unit) io"
  dc_Patch :: "client_object \<Rightarrow> ('w, unit) io"
  dc_Update :: "client_object \<Rightarrow> ('w, unit) io"
  dc_Delete :: "client_object \<Rightarrow> ('w, unit) io"
  dc_StatusUpdate :: "client_object \<Rightarrow> ('w, unit) io"
  dc_StatusPatch :: "client_object \<Rightarrow> ('w, unit) io"
  Recognized :: "client_object \<Rightarrow> bool"
  IsNotRegisteredError :: "go_error \<Rightarrow> bool"

definition poll ::
  "'w DelegatingClient \<Rightarrow> ('w \<Rightarrow> 'w) list \<Rightarrow> client_object \<Rightarrow> (object_meta \<Rightarrow> ('w, bool) io) \<Rightarrow> ('w, unit) io" where
  "poll c schedule obj condition = (case obj of
     UnstructuredObject accessor \<Rightarrow> return_io ()
   | TypedObject accessor \<Rightarrow>
       if \<not> Recognized c obj then return_io ()
       else PollImmediate (condition accessor) schedule)"

text \<open>The shape the three conditions share: look the object up, and judge what was found.\<close>

definition cache_condition ::
  "'w DelegatingClient \<Rightarrow> bool \<Rightarrow> (object_meta \<Rightarrow> object_meta \<Rightarrow> bool) \<Rightarrow> object_meta \<Rightarrow> ('w, bool) io" where
  "cache_condition c absent judge oldAccessor =
     bind_io (attempt (dc_Get c (om_key oldAccessor))) (\<lambda>r. case r of
         Inl err \<Rightarrow>
           if IsNotRegisteredError c err then return_io True
           else if \<not> IsNotFound err then throw_io err
           else return_io absent
       | Inr newAccessor \<Rightarrow> return_io (judge oldAccessor newAccessor))"

definition blockCreate :: "'w DelegatingClient \<Rightarrow> ('w \<Rightarrow> 'w) list \<Rightarrow> client_object \<Rightarrow> ('w, unit) io" where
  "blockCreate c schedule obj = poll c schedule obj (cache_condition c False (\<lambda>old new. True))"

text \<open>Resource versions are compared as strings, byte by byte.\<close>

definition update_seen :: "object_meta \<Rightarrow> object_meta \<Rightarrow> bool" where
  "update_seen old new \<longleftrightarrow> om_UID old \<noteq> om_UID new \<or> om_ResourceVersion old \<le> om_ResourceVersion new"

definition blockUpdate :: "'w DelegatingClient \<Rightarrow> ('w \<Rightarrow> 'w) list \<Rightarrow> client_object \<Rightarrow> ('w, unit) io" where
  "blockUpdate c schedule obj = poll c schedule obj (cache_condition c True update_seen)"

definition delete_seen :: "object_meta \<Rightarrow> object_meta \<Rightarrow> bool" where
  "delete_seen old new \<longleftrightarrow> om_UID old \<noteq> om_UID new \<or> om_DeletionTimestamp new \<noteq> None"

definition blockDelete :: "'w DelegatingClient \<Rightarrow> ('w \<Rightarrow> 'w) list \<Rightarrow> client_object \<Rightarrow> ('w, unit) io" where
  "blockDelete c schedule obj = poll c schedule obj (cache_condition c True delete_seen)"

definition cc_Create :: "'w DelegatingClient \<Rightarrow> ('w \<Rightarrow> 'w) list \<Rightarrow> client_object \<Rightarrow> ('w, unit) io" where
  "cc_Create c schedule obj = bind_io (dc_Create c obj) (\<lambda>_. blockCreate c schedule obj)"

definition cc_Patch :: "'w DelegatingClient \<Rightarrow> ('w \<Rightarrow> 'w) list \<Rightarrow> client_object \<Rightarrow> ('w, unit) io" where
  "cc_Patch c schedule obj = bind_io (dc_Patch c obj) (\<lambda>_. blockUpdate c schedule obj)"

definition cc_Update :: "'w DelegatingClient \<Rightarrow> ('w \<Rightarrow> 'w) list \<Rightarrow> client_object \<Rightarrow> ('w, unit) io" where
  "cc_Update c schedule obj = bind_io (dc_Update c obj) (\<lambda>_. blockUpdate c schedule obj)"

definition cc_Delete :: "'w DelegatingClient \<Rightarrow> ('w \<Rightarrow> 'w) list \<Rightarrow> client_object \<Rightarrow> ('w, unit) io" where
  "cc_Delete c schedule obj = bind_io (dc_Delete c obj) (\<lambda>_. blockDelete c schedule obj)"

definition cc_StatusUpdate :: "'w DelegatingClient \<Rightarrow> ('w \<Rightarrow> 'w) list \<Rightarrow> client_object \<Rightarrow> ('w, unit) io" where
  "cc_StatusUpdate c schedule obj = bind_io (dc_StatusUpdate c obj) (\<lambda>_. blockUpdate c schedule obj)"

definition cc_StatusPatch :: "'w DelegatingClient \<Rightarrow> ('w \<Rightarrow> 'w) list \<Rightarrow> client_object \<Rightarrow> ('w, unit) io" where
  "cc_StatusPatch c schedule obj = bind_io (dc_StatusPatch c obj) (\<lambda>_. blockUpdate c schedule obj)"

section \<open>A condition that only reads\<close>

text \<open>
  When the condition decides a predicate of the world and changes nothing, polling succeeds exactly
  when the predicate holds at one of the moments it looks, and stops at the first of them.
\<close>

definition world_after :: "('w \<Rightarrow> 'w) list \<Rightarrow> 'w \<Rightarrow> nat \<Rightarrow> 'w" where
  "world_after schedule w n = fold id (take n schedule) w"

lemma world_after_simps [simp]:
  "world_after schedule w 0 = w"
  "world_after (t # ts) w (Suc n) = world_after ts (t w) n"
  "world_after [] w n = w"
  by (simp_all add: world_after_def)

fun first_seen :: "('w \<Rightarrow> bool) \<Rightarrow> ('w \<Rightarrow> 'w) list \<Rightarrow> 'w \<Rightarrow> nat option" where
  "first_seen seen [] w = (if seen w then Some 0 else None)"
| "first_seen seen (t # ts) w =
     (if seen w then Some 0 else map_option Suc (first_seen seen ts (t w)))"

lemma first_seen_Some:
  "first_seen seen ts w = Some n \<Longrightarrow>
     n \<le> length ts \<and> seen (world_after ts w n) \<and> (\<forall>m < n. \<not> seen (world_after ts w m))"
proof (induction ts arbitrary: w n)
  case (Cons t ts)
  show ?case
  proof (cases "seen w")
    case False
    with Cons.prems obtain k where k: "n = Suc k" "first_seen seen ts (t w) = Some k" by auto
    have "\<not> seen (world_after (t # ts) w m)" if "m < n" for m
      using that Cons.IH [OF k(2)] k(1) False by (cases m) auto
    with Cons.IH [OF k(2)] k(1) show ?thesis by simp
  qed (use Cons.prems in simp)
qed (auto split: if_splits)

lemma first_seen_None:
  "first_seen seen ts w = None \<longleftrightarrow> (\<forall>n \<le> length ts. \<not> seen (world_after ts w n))"
proof (induction ts arbitrary: w)
  case (Cons t ts)
  have split: "(\<forall>n \<le> Suc k. P n) \<longleftrightarrow> P 0 \<and> (\<forall>n \<le> k. P (Suc n))" for P and k :: nat
    by (metis Suc_le_mono le0 not0_implies_Suc)
  show ?case using Cons.IH by (simp add: split)
qed simp

lemma WaitFor_reads:
  assumes "\<And>w. fn w = (Inr (seen w), w)"
  shows "bind_io fn (\<lambda>ok. if ok then return_io () else WaitFor fn ts) w = (case first_seen seen ts w of
      Some n \<Rightarrow> (Inr (), world_after ts w n)
    | None \<Rightarrow> (Inl (Err ErrWaitTimeout), world_after ts w (length ts)))"
proof (induction ts arbitrary: w)
  case (Cons t ts)
  show ?case
    using Cons.IH [of "t w"] by (simp add: bind_io_def assms return_io_def split: option.splits)
qed (simp add: bind_io_def assms return_io_def throw_io_def)

lemma PollImmediate_reads:
  assumes "\<And>w. condition w = (Inr (seen w), w)"
  shows "PollImmediate condition ts w = (case first_seen seen ts w of
      Some n \<Rightarrow> (Inr (), world_after ts w n)
    | None \<Rightarrow> (Inl (Err ErrWaitTimeout), world_after ts w (length ts)))"
  unfolding PollImmediate_def by (rule WaitFor_reads) (rule assms)

text \<open>How often a condition is evaluated: at most once more than the channel lets it.\<close>

definition counted :: "('w, bool) io \<Rightarrow> ('w \<times> nat, bool) io" where
  "counted fn = (\<lambda>(w, n). case fn w of (r, w') \<Rightarrow> (r, (w', Suc n)))"

lemma WaitFor_counted:
  "snd (snd (WaitFor (counted fn) (map (\<lambda>t (w, n). (t w, n)) ts) (w, n))) \<le> n + length ts"
proof (induction ts arbitrary: w n)
  case (Cons t ts)
  show ?case
  proof (cases "fn (t w)")
    case (Pair r w')
    show ?thesis
    proof (cases r)
      case (Inr ok)
      show ?thesis using Cons.IH [of w' "Suc n"] Pair Inr
        by (cases ok) (simp_all add: bind_io_def counted_def return_io_def)
    qed (use Pair in \<open>simp add: bind_io_def counted_def\<close>)
  qed
qed (simp add: throw_io_def)

lemma PollImmediate_counted:
  "snd (snd (PollImmediate (counted fn) (map (\<lambda>t (w, n). (t w, n)) ts) (w, 0))) \<le> Suc (length ts)"
proof (cases "fn w")
  case (Pair r w')
  show ?thesis
  proof (cases r)
    case (Inr ok)
    show ?thesis using WaitFor_counted [of fn ts w' 1] Pair Inr
      by (cases ok) (simp_all add: PollImmediate_def bind_io_def counted_def return_io_def)
  qed (use Pair in \<open>simp add: PollImmediate_def bind_io_def counted_def\<close>)
qed

section \<open>Waiting for the cache\<close>

text \<open>A cache as the client sees it: a read finds the object of the current view or reports NotFound.\<close>

definition reads_view :: "'w DelegatingClient \<Rightarrow> ('w \<Rightarrow> NamespacedName \<Rightarrow> object_meta option) \<Rightarrow> bool" where
  "reads_view c view \<longleftrightarrow>
     (\<forall>nn w. view w nn = None \<longrightarrow> (\<exists>e. dc_Get c nn w = (Inl (Err e), w) \<and> IsNotFound e \<and> \<not> IsNotRegisteredError c e)) \<and>
     (\<forall>nn w m. view w nn = Some m \<longrightarrow> dc_Get c nn w = (Inr m, w))"

definition seen_in ::
  "('w \<Rightarrow> NamespacedName \<Rightarrow> object_meta option) \<Rightarrow> bool \<Rightarrow> (object_meta \<Rightarrow> object_meta \<Rightarrow> bool)
     \<Rightarrow> object_meta \<Rightarrow> 'w \<Rightarrow> bool" where
  "seen_in view absent judge old w =
     (case view w (om_key old) of None \<Rightarrow> absent | Some new \<Rightarrow> judge old new)"

lemma cache_condition_reads:
  assumes "reads_view c view"
  shows "cache_condition c absent judge old w = (Inr (seen_in view absent judge old w), w)"
proof (cases "view w (om_key old)")
  case None
  then obtain e where "dc_Get c (om_key old) w = (Inl (Err e), w)" "IsNotFound e" "\<not> IsNotRegisteredError c e"
    using assms unfolding reads_view_def by blast
  with None show ?thesis
    by (simp add: cache_condition_def bind_io_def attempt_def return_io_def seen_in_def)
next
  case (Some m)
  then have "dc_Get c (om_key old) w = (Inr m, w)" using assms unfolding reads_view_def by blast
  with Some show ?thesis
    by (simp add: cache_condition_def bind_io_def attempt_def return_io_def seen_in_def)
qed

text \<open>The outcome of waiting, for a typed object of a known kind.\<close>

definition wait_outcome :: "('w \<Rightarrow> bool) \<Rightarrow> ('w \<Rightarrow> 'w) list \<Rightarrow> 'w \<Rightarrow> unit result \<times> 'w" where
  "wait_outcome seen ts w = (case first_seen seen ts w of
      Some n \<Rightarrow> (Inr (), world_after ts w n)
    | None \<Rightarrow> (Inl (Err ErrWaitTimeout), world_after ts w (length ts)))"

lemma poll_waits:
  assumes "reads_view c view" "Recognized c (TypedObject old)"
  shows "poll c ts (TypedObject old) (cache_condition c absent judge) w =
    wait_outcome (seen_in view absent judge old) ts w"
  using assms(2) PollImmediate_reads [OF cache_condition_reads [OF assms(1)]]
  by (simp add: poll_def wait_outcome_def)

lemma block_waits:
  assumes "reads_view c view" "Recognized c (TypedObject old)"
  shows "blockCreate c ts (TypedObject old) w = wait_outcome (seen_in view False (\<lambda>_ _. True) old) ts w"
    and "blockUpdate c ts (TypedObject old) w = wait_outcome (seen_in view True update_seen old) ts w"
    and "blockDelete c ts (TypedObject old) w = wait_outcome (seen_in view True delete_seen old) ts w"
  unfolding blockCreate_def blockUpdate_def blockDelete_def
  by (rule poll_waits [OF assms])+

lemma wait_outcome_Inr:
  "wait_outcome seen ts w = (Inr (), w') \<Longrightarrow> seen w'"
  by (auto simp: wait_outcome_def split: option.splits dest: first_seen_Some)

lemma wait_outcome_ok:
  "fst (wait_outcome seen ts w) = Inr () \<longleftrightarrow> (\<exists>n \<le> length ts. seen (world_after ts w n))"
proof (cases "first_seen seen ts w")
  case None
  with first_seen_None [of seen ts w] show ?thesis by (auto simp: wait_outcome_def)
next
  case (Some n)
  with first_seen_Some [of seen ts w n] show ?thesis by (auto simp: wait_outcome_def)
qed

text \<open>Unstructured objects, the only ones the syncers write, are never waited for.\<close>

lemma unstructured_no_wait:
  "blockCreate c ts (UnstructuredObject m) = return_io ()"
  "blockUpdate c ts (UnstructuredObject m) = return_io ()"
  "blockDelete c ts (UnstructuredObject m) = return_io ()"
  by (simp_all add: blockCreate_def blockUpdate_def blockDelete_def poll_def)

end
