(* ===== verification/Examples.thy ===== *)
theory Examples
  imports PatchFields PluginMain BlockingClient
begin

text \<open>
  Concrete instances of the parameters of the model, on which the properties are evaluated: a small
  text format with its encoder and decoder and a compiler for paths of field names in the place
  of the external libraries, and one document in this format.
\<close>

section \<open>A text format\<close>

text \<open>A scalar is its text and a semicolon; a mapping is a list of \<^verbatim>\<open>key=value\<close> in braces.\<close>

fun render :: "goval \<Rightarrow> string" where
  "render (VStr s) = s @ '';''"
| "render (VMap es) = ''{'' @ concat (map (\<lambda>(k, v). k @ ''='' @ render v) es) @ ''}''"
| "render _ = '';''"

definition str_node :: "string \<Rightarrow> ytree" where
  "str_node s = YNode ScalarNode ''!!str'' s []"

fun parse :: "nat \<Rightarrow> string \<Rightarrow> (ytree \<times> string) option"
  and parse_entries :: "nat \<Rightarrow> string \<Rightarrow> (ytree list \<times> string) option" where
  "parse 0 s = None"
| "parse (Suc n) s =
     (if s \<noteq> [] \<and> hd s = CHR ''{''
      then map_option (\<lambda>(ts, rest). (YNode MappingNode ''!!map'' [] ts, rest)) (parse_entries n (tl s))
      else let v = takeWhile (\<lambda>c. c \<noteq> CHR '';'') s
           in Some (str_node v, drop (Suc (length v)) s))"
| "parse_entries 0 s = None"
| "parse_entries (Suc n) s =
     (if s \<noteq> [] \<and> hd s = CHR ''}'' then Some ([], tl s)
      else let k = takeWhile (\<lambda>c. c \<noteq> CHR ''='') s
           in case parse n (drop (Suc (length k)) s) of
               None \<Rightarrow> None
             | Some (v, rest) \<Rightarrow>
                 map_option (\<lambda>(ts, rest'). (str_node k # v # ts, rest')) (parse_entries n rest))"

definition decode :: "string \<Rightarrow> go_error + ytree" where
  "decode s = (case parse (Suc (length s)) s of
     None \<Rightarrow> Inl (Plain ''cannot decode'')
   | Some (t, rest) \<Rightarrow> Inr (YNode DocumentNode [] [] [t]))"

fun tree_text :: "ytree \<Rightarrow> string"
  and entries_text :: "ytree list \<Rightarrow> string" where
  "tree_text (YNode k tag v ts) =
     (if k = DocumentNode then entries_text ts
      else if k = MappingNode then ''{'' @ entries_text ts @ ''}'' else v @ '';'')"
| "entries_text [] = []"
| "entries_text (k # v # ts) =
     (case k of YNode _ _ name _ \<Rightarrow> name @ ''='' @ tree_text v @ entries_text ts)"
| "entries_text [t] = tree_text t"

fun tree_value :: "ytree \<Rightarrow> goval"
  and entries_value :: "ytree list \<Rightarrow> (string \<times> goval) list" where
  "tree_value (YNode k tag v ts) =
     (if k = MappingNode then VMap (entries_value ts) else VStr v)"
| "entries_value (k # v # ts) =
     (case k of YNode _ _ name _ \<Rightarrow> (name, tree_value v) # entries_value ts)"
| "entries_value _ = []"

definition decode_object :: "string \<Rightarrow> go_error + goval" where
  "decode_object s = (case parse (Suc (length s)) s of
     None \<Rightarrow> Inl (Plain ''cannot decode'')
   | Some (t, rest) \<Rightarrow> Inr (tree_value t))"

definition dotted_path :: "string \<Rightarrow> go_error + ypath" where
  "dotted_path s =
     (if s = [] then Inr PIdentity
      else case strings_Split s (CHR ''.'') of
          root # names \<Rightarrow>
            if root = ''$'' then Inr (PRoot (field_chain names)) else Inl (Plain ''no root'')
        | [] \<Rightarrow> Inl (Plain ''no root''))"

definition codec :: external where
  "codec = \<lparr>yaml_Marshal = (\<lambda>v. Inr (render v)), yaml_Marshal_node = (\<lambda>t. Inr (tree_text t)),
     yaml_Unmarshal_node = decode, json_Marshal = (\<lambda>v. Inr (render v)),
     jsonyaml_Unmarshal_object = decode_object,
     UnmarshalStrict_string_map = (\<lambda>s. Inr []),
     k8syaml_Unmarshal_selector = (\<lambda>s. Inr \<lparr>MatchLabels = [], MatchExpressions = []\<rparr>),
     compile_path = dotted_path, eval_filter = (\<lambda>s h root a. False)\<rparr>"

lemma parse_kinds:
  "parse n s = Some (t, rest) \<Longrightarrow> nodoc t \<and> tree_paired t"
  "parse_entries n s = Some (ts, rest) \<Longrightarrow> list_all nodoc ts \<and> trees_paired ts \<and> even (length ts)"
  by (induction n s and n s arbitrary: t rest and ts rest rule: parse_parse_entries.induct)
    (auto simp: str_node_def Let_def split: if_splits option.splits)

lemma decode_tree:
  "decode s = Inr t \<Longrightarrow> \<exists>t'. t = YNode DocumentNode [] [] [t'] \<and> nodoc t' \<and> tree_paired t'"
  unfolding decode_def by (auto simp del: parse.simps split: option.splits dest: parse_kinds(1))

lemma codec_lawful: "lawful codec"
  using decode_tree
  by (fastforce simp: lawful_def decodes_documents_def compiles_rooted_def codec_def doc_tree_def
      dotted_path_def split: list.splits if_splits)

lemma codec_paired: "decodes_paired codec"
  using decode_tree by (fastforce simp: decodes_paired_def codec_def)

lemma codec_fields: "compiles_fields codec"
  unfolding compiles_fields_def
proof (intro allI impI)
  fix names assume "list_all plain_name names"
  then have "strings_Split (t @ concat (map (\<lambda>n. ''.'' @ n) names)) (CHR ''.'') = t # names"
    if "CHR ''.'' \<notin> set t" for t
    using that
  proof (induction names arbitrary: t)
    case (Cons n ns)
    have "strings_Split (n @ concat (map (\<lambda>n. ''.'' @ n) ns)) (CHR ''.'') = n # ns"
      using Cons by (simp add: plain_name_def)
    moreover have "\<forall>c \<in> set t. c \<noteq> CHR ''.''" using Cons.prems by auto
    ultimately show ?case
      using split_on_append_sep [of t "\<lambda>c. c = CHR ''.''" "CHR ''.''"] by simp
  qed (auto intro!: split_on_no_sep)
  from this [of "''$''"] show "compile_path codec (dotted names) = Inr (PRoot (field_chain names))"
    by (simp add: codec_def dotted_path_def dotted_def)
qed


section \<open>A document\<close>

definition sample :: goval where
  "sample = VMap [(''kind'', VStr ''Foo''), (''spec'', VMap [(''a'', VStr ''x''), (''b'', VStr ''y'')])]"

definition sample_heap :: heap where
  "sample_heap = (case NewJSONNode codec sample [] of Inl e \<Rightarrow> [] | Inr (d, h) \<Rightarrow> h)"

definition a_patch :: "string \<Rightarrow> string list \<Rightarrow> Patch" where
  "a_patch op names = emptyPatch\<lparr>Operation := op, Path := dotted names, Value := VStr ''z''\<rparr>"

definition other :: goval where
  "other = VMap [(''m'', VMap [(''k'', VStr ''x'')])]"

definition copy_patch :: "string list \<Rightarrow> string list \<Rightarrow> Patch" where
  "copy_patch to from =
     emptyPatch\<lparr>Operation := PatchTypeCopyFromObject, Path := dotted to, FromPath := dotted from\<rparr>"

lemma sample_node: "NewJSONNode codec sample [] = Inr (9, sample_heap)"
  by code_simp

lemma sample_doc: "doc_root sample_heap 9 8"
  by code_simp

lemma sample_walks:
  "walk sample_heap 8 [''spec'', ''b''] = Some 6"
  "walk sample_heap 8 [''spec''] = Some 7"
  by code_simp+

lemma decoded_document:
  assumes "NewJSONNode E v [] = Inr (d, h)" "lawful E" "decodes_paired E"
  shows "sound h \<and> paired h \<and> tree_shaped h"
proof -
  obtain t where t: "alloc_tree t [] = (d, h)" "doc_tree t" "tree_paired t"
    using assms by (auto simp: NewJSONNode_def node_from_text_def lawful_def decodes_documents_def
        decodes_paired_def split: sum.splits)
  have "sound h" using alloc_doc_tree [OF t(1,2) sound_Nil] by blast
  moreover have "kinded h" using alloc_tree_kinded(1) [OF t(1,3)] by (simp add: kinded_def)
  moreover have "tree_shaped h"
    using alloc_tree_shaped(1) [OF t(1) tree_shaped_Nil] by (simp add: closed_heap_def)
  ultimately show ?thesis by (simp add: paired_kinded sound_def)
qed

lemmas sample_ok = decoded_document [OF sample_node codec_lawful codec_paired]

section \<open>Two clusters\<close>

text \<open>A client that serves reads from a fixed store and logs the writes.\<close>

type_synonym requests = "(string \<times> goval) list"

definition log_client :: "(NamespacedName \<Rightarrow> goval option) \<Rightarrow> requests Client" where
  "log_client store = \<lparr>
     Get = (\<lambda>nn w. (case store nn of None \<Rightarrow> Inl (Err (Api NotFound [])) | Some obj \<Rightarrow> Inr obj, w)),
     ApplyPatch = (\<lambda>obj w. (Inr (), w @ [(''apply'', obj)])),
     MergePatch = (\<lambda>original obj w. (Inr obj, w @ [(''patch'', obj)])),
     MergeData = (\<lambda>original obj. Inr (if deep_equal original obj then ''{}'' else ''changed'')),
     Update = (\<lambda>obj w. (Inr (), w @ [(''update'', obj)])),
     Delete = (\<lambda>obj w. (Inr (), w @ [(''delete'', obj)])),
     StatusApply = (\<lambda>obj w. (Inr (), w @ [(''apply status'', obj)])),
     StatusUpdate = (\<lambda>obj w. (Inr (), w @ [(''update status'', obj)])),
     ListByIndex = (\<lambda>i w. (Inr [], w))\<rparr>"

definition web_object :: goval where
  "web_object = VMap [(''metadata'', VMap [(''name'', VStr ''web''), (''namespace'', VStr ''default'')])]"

definition web_nn :: NamespacedName where
  "web_nn = \<lparr>Namespace = ''default'', Name = ''web''\<rparr>"

definition no_patches :: FromVirtualCluster where
  "no_patches = \<lparr>APIVersion = ''v1'', Kind = ''Foo'', ID = [], Patches = [], ReversePatches = [],
     FVSelector = None, SyncBacks = []\<rparr>"

definition virtual_store :: "NamespacedName \<Rightarrow> goval option" where
  "virtual_store nn = (if nn = web_nn then Some web_object else None)"

definition demo_ctx :: "requests RegisterContext" where
  "demo_ctx = \<lparr>VirtualClient = log_client virtual_store, PhysicalClient = log_client (\<lambda>nn. None),
     TargetNamespace = ''host'', ClusterSuffix = ''vc'', Environment = (\<lambda>v. ''plugin''),
     OptionsName = ''vc'', OptionsControllers = []\<rparr>"

definition demo_patcher :: "requests patcher" where
  "demo_patcher = \<lparr>fromClient = VirtualClient demo_ctx, toClient = PhysicalClient demo_ctx,
     statusIsSubresource = True\<rparr>"

definition demo_syncer :: "labels_selector option \<Rightarrow> requests fromVirtualController" where
  "demo_syncer sel = \<lparr>fv_patcher = demo_patcher,
     fv_gvk = \<lparr>Group = [], Version = ''v1'', GVKKind = ''Foo''\<rparr>, fv_config = no_patches,
     fv_selector = sel, fv_targetNamespace = ''host''\<rparr>"

lemma web_object_ok: "obj_ok web_object"
  by (simp add: obj_ok_iff web_object_def)

end
