(* ===== verification/PatchProperties.thy ===== *)
theory PatchProperties
  imports Examples "HOL-Library.Multiset"
begin

text \<open>
  The properties of the patch engine: configuration, conditions, path strings, node searches, the
  operations on documents and the regular-expression rewrites. Every property with hypotheses is
  followed by an instance on the sample document.
\<close>

section \<open>Patching returns\<close>

text \<open>C5. Applying patches never runs for ever or overflows the stack: for each of the three name
  resolvers of the syncers, for any objects and any list of patches without copyFromObject, when the
  YAML library decodes documents and the path library roots its paths.\<close>

theorem patching_returns:
  assumes "lawful E" "\<forall>p. Some p \<in> set patches \<longrightarrow> Operation p \<noteq> PatchTypeCopyFromObject"
  shows "\<not> is_diverge (ApplyPatches E obj1 obj2 patches rps (virtualToHostNameResolver Suffix v) s)
    \<and> \<not> is_diverge (ApplyPatches E obj1 obj2 patches rps (hostToVirtualNameResolver nc gvk) s)
    \<and> \<not> is_diverge (ApplyPatches E obj1 obj2 patches rps (memorizingHostToVirtualNameResolver nc gvk) m)"
  by (intro conjI yields_no_diverge [OF vth.safe_ApplyPatches [OF assms(1) TrueI assms(2)]]
      yields_no_diverge [OF htv.safe_ApplyPatches [OF assms(1) TrueI assms(2)]]
      yields_no_diverge [OF mem.safe_ApplyPatches [OF assms(1) TrueI assms(2)]])

theorem patching_returns_witness:
  "\<not> is_diverge (ApplyPatches codec sample None [Some (a_patch PatchTypeRemove [''spec'', ''a''])] []
     (virtualToHostNameResolver ''vc'' \<lparr>vthNamespace = ''ns'', vthTargetNamespace = ''host''\<rparr>) ())"
  by (rule patching_returns [OF codec_lawful, THEN conjunct1]) (simp add: a_patch_def)

lemma patches_grow:
  assumes "safe_resolver R (\<lambda>_. True)" "lawful E" "sound h" "d < length h"
    and "\<forall>p. Some p \<in> set patches \<longrightarrow> Operation p \<noteq> PatchTypeCopyFromObject"
  shows "patch_nodes E d obj2 patches rps R (h, r) = Inr (h', r') \<Longrightarrow> grows h h'"
  using safe_resolver.safe_opD [OF assms(1) safe_resolver.safe_patch_nodes [OF assms(1,2,4,5)], of "(h, r)" obj2 rps]
    safe_resolver.good_refl [OF assms(1), of "(h, r)"] assms(3)
  by (auto simp: safe_resolver.good_def [OF assms(1)] dest: yields_result)

text \<open>C27. The nodes keep their types under every list of patches without copyFromObject: the store of nodes stays
  closed and acyclic, no document node stands inside another node, and no node that existed before changes
  its kind.\<close>

theorem patches_keep_node_types:
  assumes "lawful E" "wf_heap h" "inner h" "d < length h"
    and "\<forall>p. Some p \<in> set patches \<longrightarrow> Operation p \<noteq> PatchTypeCopyFromObject"
    and "patch_nodes E d obj2 patches rps (virtualToHostNameResolver Suffix v) (h, ()) = Inr (h', ())
      \<or> patch_nodes E d obj2 patches rps (hostToVirtualNameResolver nc gvk) (h, ()) = Inr (h', ())
      \<or> patch_nodes E d obj2 patches rps (memorizingHostToVirtualNameResolver nc gvk) (h, m) = Inr (h', m')"
  shows "wf_heap h' \<and> inner h' \<and> length h \<le> length h' \<and> (\<forall>a < length h. kind_at h' a = kind_at h a)"
proof -
  have "sound h" using assms(2,3) by (simp add: sound_def)
  note grow = patches_grow [OF _ assms(1) this assms(4,5)]
  have "grows h h'"
    using assms(6)
    by (elim disjE) (erule grow [OF vth.safe_resolver_axioms] grow [OF htv.safe_resolver_axioms]
        grow [OF mem.safe_resolver_axioms])+
  then show ?thesis by (simp add: grows_def sound_def)
qed

theorem patches_keep_node_types_witness:
  "\<exists>h'. patch_nodes codec 9 None [Some (a_patch PatchTypeReplace [''spec'', ''b''])] []
      (virtualToHostNameResolver ''vc'' \<lparr>vthNamespace = ''ns'', vthTargetNamespace = ''host''\<rparr>) (sample_heap, ())
      = Inr (h', ()) \<and> wf_heap h' \<and> (\<forall>a < length sample_heap. kind_at h' a = kind_at sample_heap a)"
proof -
  let ?p = "[Some (a_patch PatchTypeReplace [''spec'', ''b''])]"
    and ?R = "virtualToHostNameResolver ''vc'' \<lparr>vthNamespace = ''ns'', vthTargetNamespace = ''host''\<rparr>"
  let ?out = "patch_nodes codec 9 None ?p [] ?R (sample_heap, ())"
  have "case ?out of Inl e \<Rightarrow> False | Inr x \<Rightarrow> True" by code_simp
  then obtain h' where h': "?out = Inr (h', ())" by (cases ?out) auto
  have "wf_heap sample_heap" "inner sample_heap" using sample_ok by (simp_all add: sound_def)
  moreover have "9 < length sample_heap" by code_simp
  moreover have "\<forall>p. Some p \<in> set ?p \<longrightarrow> Operation p \<noteq> PatchTypeCopyFromObject" by (simp add: a_patch_def)
  ultimately show ?thesis
    using patches_keep_node_types [OF codec_lawful, of sample_heap 9 ?p None "[]" "''vc''"] h' by blast
qed

lemma fresh_disjoint:
  assumes "fresh_node h (e, h')" "sound h" "d < length h"
  shows "disjoint_docs h' d e"
  using fresh_node_sep [OF assms] reach_closed_set [of h' e _ "{length h ..}"]
  by (auto simp: disjoint_docs_def apart_def sep_def)

definition two_documents :: heap where
  "two_documents = (case NewJSONNode codec other sample_heap of Inl e \<Rightarrow> [] | Inr (d, h) \<Rightarrow> h)"




text \<open>Patching with no patches gives the object back: encoding, building the nodes, walking them and
  decoding compose to the identity, whenever the libraries decode the document they encoded.\<close>

lemma no_patches_no_change:
  assumes "json_Marshal E obj = Inr doc" "yaml_Unmarshal_node E doc = Inr t"
    and "yaml_Marshal_node E t = Inr doc'" "jsonyaml_Unmarshal_object E doc' = Inr obj"
  shows "ApplyPatches E obj None [] [] resolver r = Inr (obj, r)"
proof -
  obtain d h where al: "alloc_tree t [] = (d, h)" by fastforce
  have "wf_heap h" using block_wf [OF block_alloc_tree(1) [OF al]] sound_Nil by (simp add: sound_def)
  then have "read_tree h d = Inr t" using read_tree_at [OF alloc_tree_at(1) [OF al]] by blast
  then show ?thesis
    using assms al
    by (simp add: ApplyPatches_def NewJSONNode_def node_from_text_def patch_nodes_def marshal_node_def)
qed

lemma no_patches_sample:
  "ApplyPatches codec sample None [] [] (hostToVirtualNameResolver (emptyNameCache :: unit nameCache)
     \<lparr>Group = [], Version = ''v1'', GVKKind = ''Foo''\<rparr>) () = Inr (sample, ())"
proof (rule no_patches_no_change)
  show "json_Marshal codec sample = Inr (render sample)" by (simp add: codec_def)
  show "yaml_Unmarshal_node codec (render sample)
      = Inr (YNode DocumentNode [] [] [fst (the (parse 100 (render sample)))])"
    by code_simp
  show "yaml_Marshal_node codec (YNode DocumentNode [] [] [fst (the (parse 100 (render sample)))])
      = Inr (render sample)"
    by code_simp
  show "jsonyaml_Unmarshal_object codec (render sample) = Inr sample" by code_simp
qed

section \<open>Searching nodes\<close>

text \<open>Find terminates on every acyclic node graph and decides the search: it returns a reachable node
  that satisfies the predicate, or none when no reachable node does.\<close>

lemma Find_decides:
  assumes "wf_heap h"
  shows "\<exists>r. Find h d p = Inr r \<and>
    (case r of Some x \<Rightarrow> p x \<and> reach h d x | None \<Rightarrow> (\<forall>x. reach h d x \<longrightarrow> \<not> p x))"
proof -
  obtain r where r: "Find h d p = Inr r" using Find_total [OF assms] by blast
  with Find_sound [of h d p] Find_None [of h d p] show ?thesis by (cases r) auto
qed

lemma Find_decides_example:
  "\<exists>r. Find sample_heap 9 (ContainsChild sample_heap 6) = Inr r \<and>
    (case r of Some x \<Rightarrow> ContainsChild sample_heap 6 x \<and> reach sample_heap 9 x
     | None \<Rightarrow> (\<forall>x. reach sample_heap 9 x \<longrightarrow> \<not> ContainsChild sample_heap 6 x))"
  by (rule Find_decides) (use sample_ok in \<open>simp add: sound_def\<close>)

section \<open>Path strings\<close>

text \<open>A path extended by a child, with a dot or in brackets, splits into exactly that parent and that
  child, for child names without the separators of the path language.\<close>

lemma path_splits:
  assumes "c \<noteq> []" "set c \<inter> {CHR ''.'', CHR ''$'', CHR '']'', CHR 0x27, CHR 0x22} = {}"
    and "CHR ''['' \<notin> set p \<or> (\<exists>q. p = q @ '']'')"
  shows "getParentPath (p @ ''.'' @ c) = p \<and> getChildName (p @ ''.'' @ c) = c
    \<and> getParentPath (p @ ''['' @ c @ '']'') = p \<and> getChildName (p @ ''['' @ c @ '']'') = c"
  using assms getParentPath_dot [of c p] getChildName_dot [of c p] bracket_child_parent [of c p]
    bracket_child_name [of c p] by simp

lemma path_splits_example:
  "getParentPath (''$.spec'' @ ''.'' @ ''a'') = ''$.spec'' \<and> getChildName (''$.spec'' @ ''.'' @ ''a'') = ''a''
   \<and> getParentPath (''$.spec'' @ ''['' @ ''a'' @ '']'') = ''$.spec''
   \<and> getChildName (''$.spec'' @ ''['' @ ''a'' @ '']'') = ''a''"
  by (rule path_splits) simp_all

section \<open>Fields of a document\<close>

text \<open>Adding, replacing and removing the field of a path, on the sample document.\<close>

lemma sample_parts: "sound sample_heap" "paired sample_heap" "tree_shaped sample_heap"
  using sample_ok by simp_all

lemma z_tree: "value_tree codec (Value (a_patch op names)) (str_node ''z'')"
  unfolding value_tree_def a_patch_def
  by (rule exI [of _ "''z;''"], rule exI [of _ "[]"], rule exI [of _ "[]"]) code_simp

lemma no_conditions: "ValidateAllConditions E h d m (Conditions (a_patch op names)) = Inr True"
  by (simp add: a_patch_def emptyPatch_def)

lemma a_patch_path: "Path (a_patch op names) = dotted names"
  by (simp add: a_patch_def)



text \<open>Rewriting the name in the field, for a virtual object that is synced to the host.\<close>

definition sample_resolver :: "unit NameResolver" where
  "sample_resolver = virtualToHostNameResolver ''vc'' \<lparr>vthNamespace = ''default'', vthTargetNamespace = ''host''\<rparr>"

lemma sample_translates:
  "TranslateName sample_resolver (value_at sample_heap 6) (ParsedRegex (a_patch op names)) (FromPath (a_patch op names)) ()
     = Inr (''y-x-default-x-vc'', ())"
proof -
  have "value_at sample_heap 6 = ''y''" by code_simp
  moreover have "PhysicalName ''vc'' ''y'' ''default'' = ''y-x-default-x-vc''"
    by (subst PhysicalName_short) (simp_all add: short_name_def)
  ultimately show ?thesis
    by (simp add: sample_resolver_def virtualToHostNameResolver_def vth_TranslateName_def
        vth_TranslateNameWithNamespace_def a_patch_def emptyPatch_def ProcessRegex_def result_simps)
qed

lemma rewritten_tree: "value_tree codec (VStr ''y-x-default-x-vc'') (str_node ''y-x-default-x-vc'')"
  unfolding value_tree_def
  by (rule exI [of _ "''y-x-default-x-vc;''"], rule exI [of _ "[]"], rule exI [of _ "[]"]) code_simp


lemma sample_unique: "kind_at sample_heap q = MappingNode \<Longrightarrow> unique_keys sample_heap q"
proof -
  have "\<forall>q \<in> set [0 ..< length sample_heap]. unique_keys sample_heap q" by code_simp
  moreover assume "kind_at sample_heap q = MappingNode"
  then have "q < length sample_heap" by (rule contrapos_pp) (simp add: node_at_def zero_node_def)
  ultimately show ?thesis by simp
qed


section \<open>Conditions\<close>

text \<open>The conditions of a patch are a conjunction, evaluated from the left: the patch applies exactly when
  every condition holds, and is skipped exactly when some condition fails and all before it hold (an
  error in between stops it).\<close>

lemma conditions_are_conjunction:
  "(ValidateAllConditions E h obj match cs = Inr True \<longleftrightarrow>
      list_all (\<lambda>c. ValidateCondition E h obj match c = Inr True) cs)
   \<and> (ValidateAllConditions E h obj match cs = Inr False \<longleftrightarrow>
      (\<exists>pre c post. cs = pre @ c # post \<and> ValidateCondition E h obj match c = Inr False
        \<and> list_all (\<lambda>d. ValidateCondition E h obj match d = Inr True) pre))"
  using ValidateAllConditions_true [of E h obj match cs] ValidateAllConditions_false [of E h obj match cs]
  by (simp only: list_all_iff simp_thms)

text \<open>A condition with a path holds when the text of some matched node satisfies it; without a match it
  holds for emptiness and inequality only.\<close>

lemma condition_looks_for_a_match:
  assumes "SubPath c = []" "CondPath c \<noteq> []"
    and "FindMatches E h obj (CondPath c) = Inr ms" "\<forall>m \<in> set ms. kind_at h m = ScalarNode"
  shows "ValidateCondition E h obj match (Some c) = Inr
    (if ms = [] then holds_if_absent c else (\<exists>m \<in> set ms. text_satisfies E c (value_at h m)))"
proof -
  have "find_at E h ''parsing path'' (CondPath c) obj = Inr ms"
    using assms(3) by (simp add: FindMatches_def find_at_def result_simps)
  moreover have "any_match E h c ms = Inr (\<exists>m \<in> set ms. text_satisfies E c (value_at h m))"
    using assms(4) by (intro any_match_iff) (simp add: match_string_def)
  ultimately show ?thesis using assms(1,2) by (simp add: ValidateCondition_def condition_matches_def)
qed

definition kind_is_Foo :: PatchCondition where
  "kind_is_Foo = \<lparr>CondPath = ''$.kind'', SubPath = [], Equal = VStr ''Foo'', NotEqual = VNil, Empty = None\<rparr>"

lemma condition_looks_for_a_match_example:
  "ValidateCondition codec sample_heap 9 None (Some kind_is_Foo) = Inr True"
proof -
  have "FindMatches codec sample_heap 9 (CondPath kind_is_Foo) = Inr [1]"
    "\<forall>m \<in> set [1]. kind_at sample_heap m = ScalarNode" "text_satisfies codec kind_is_Foo (value_at sample_heap 1)"
    by code_simp+
  then show ?thesis
    using condition_looks_for_a_match [of kind_is_Foo codec sample_heap 9 "[1]" None]
    by (simp add: kind_is_Foo_def)
qed



section \<open>Regular-expression rewrites\<close>

lemma filter_unique_key:
  "distinct (map f xs) \<Longrightarrow> k \<in> set xs \<Longrightarrow> filter (\<lambda>x. f k = f x) xs = [k]"
proof (induction xs)
  case (Cons a xs)
  then have a: "f a \<notin> f ` set xs" by simp
  show ?case
  proof (cases "k = a")
    case True
    with a show ?thesis by (force simp: filter_empty_conv)
  next
    case False
    with Cons.prems(2) a have "f k \<noteq> f a" by (metis image_eqI set_ConsD)
    with False Cons show ?thesis by simp
  qed
qed simp

text \<open>C25. Replacing byte ranges that do not overlap gives the input with every range exchanged for its
  replacement, read from left to right; the order in which the items are given does not matter.\<close>

theorem replacement_is_a_splice:
  assumes "nonoverlapping input (map span items)" "nonoverlapping input (map span items')"
    and "mset items = mset items'"
  shows "IndexBasedReplace input items = Inr (splice_items input 0 (sort_key StartIndex items))
    \<and> IndexBasedReplace input items' = IndexBasedReplace input items"
proof -
  have d: "distinct (map StartIndex items)" "distinct (map StartIndex items')"
    using nonoverlapping_inj assms(1,2) by blast+
  have "sort_key StartIndex items' = sort_key StartIndex items"
  proof (rule properties_for_sort_key)
    show "mset (sort_key StartIndex items) = mset items'" using assms(3) by simp
    show "sorted (map StartIndex (sort_key StartIndex items))" by simp
    fix k assume "k \<in> set (sort_key StartIndex items)"
    then have k: "k \<in> set items" "k \<in> set items'" using assms(3) by (auto dest: mset_eq_setD)
    note one = filter_unique_key [of StartIndex]
    have "distinct (map StartIndex (sort_key StartIndex items))" "k \<in> set (sort_key StartIndex items)"
      using d(1) k(1) by (auto simp: distinct_map)
    from one [OF this] one [OF d(2) k(2)]
    show "filter (\<lambda>x. StartIndex k = StartIndex x) (sort_key StartIndex items)
        = filter (\<lambda>x. StartIndex k = StartIndex x) items'" by simp
  qed
  then show ?thesis using IndexBasedReplace_splice assms(1,2) by metis
qed

definition two_items :: "IndexBasedRelaceItem list" where
  "two_items = [\<lparr>StartIndex = 3, EndIndex = 7, Replacement = ''host''\<rparr>,
     \<lparr>StartIndex = 0, EndIndex = 2, Replacement = ''target''\<rparr>]"

theorem replacement_is_a_splice_witness:
  "IndexBasedReplace ''ns/name:80'' two_items = Inr ''target/host:80''
   \<and> IndexBasedReplace ''ns/name:80'' (rev two_items) = IndexBasedReplace ''ns/name:80'' two_items"
proof -
  have "splice_items ''ns/name:80'' 0 (sort_key StartIndex two_items) = ''target/host:80''"
    "nonoverlapping ''ns/name:80'' (map span two_items)"
    "nonoverlapping ''ns/name:80'' (map span (rev two_items))" by code_simp+
  then show ?thesis
    using replacement_is_a_splice [of "''ns/name:80''" two_items "rev two_items"] by simp
qed

text \<open>C24. A regular-expression rewrite exchanges, in every match, the name group and the namespace group for
  the translated name and namespace, and leaves every other byte; when the translation returns what it
  is given, the input comes back unchanged.\<close>

theorem regex_rewrites_the_groups:
  assumes "well_matched re input" "SubexpNames re \<noteq> []"
  shows "ProcessRegex re input (\<lambda>n ns s. (f n ns, s)) s
      = Inr (splice_items input 0 (sort_key StartIndex (all_items f re input)), s)
    \<and> ProcessRegex re input (\<lambda>n ns s. (\<lparr>Namespace = ns, Name = n\<rparr>, s)) s = Inr (input, s)"
proof -
  let ?is = "sort_key StartIndex (all_items (\<lambda>n ns. \<lparr>Namespace = ns, Name = n\<rparr>) re input)"
  have "nonoverlapping input (map span (all_items (\<lambda>n ns. \<lparr>Namespace = ns, Name = n\<rparr>) re input))"
    using assms(1) by (simp only: well_matched_def map_span_all_items)
  then have "splice_items input 0 ?is = drop (nat 0) input"
    by (intro splice_unchanged nonoverlapping_in_order) (auto dest: items_identity)
  then show ?thesis
    using ProcessRegex_splice [OF assms, of f s]
      ProcessRegex_splice [OF assms, of "\<lambda>n ns. \<lparr>Namespace = ns, Name = n\<rparr>" s] by simp
qed

definition host_port_regex :: go_regexp where
  "host_port_regex = \<lparr>SubexpNames = [[], ''NAMESPACE'', ''NAME''],
     FindAllStringSubmatchIndex = (\<lambda>s. [[0, 7, 0, 2, 3, 7]])\<rparr>"

theorem regex_rewrites_the_groups_witness:
  "ProcessRegex host_port_regex ''ns/name:80''
     (\<lambda>n ns s. (\<lparr>Namespace = ''target'', Name = n @ ''-x-'' @ ns\<rparr>, s)) () = Inr (''target/name-x-ns:80'', ())"
proof -
  have "well_matched host_port_regex ''ns/name:80''" "SubexpNames host_port_regex \<noteq> []"
    "splice_items ''ns/name:80'' 0 (sort_key StartIndex (all_items
       (\<lambda>n ns. \<lparr>Namespace = ''target'', Name = n @ ''-x-'' @ ns\<rparr>) host_port_regex ''ns/name:80''))
     = ''target/name-x-ns:80''" by code_simp+
  then show ?thesis
    using regex_rewrites_the_groups [of host_port_regex "''ns/name:80''"
        "\<lambda>n ns. \<lparr>Namespace = ''target'', Name = n @ ''-x-'' @ ns\<rparr>" "()"] by simp
qed

text \<open>Every placeholder in an expression expands where it stands, NAMESPACE before NAME, and the two do not
  interfere.\<close>

lemma placeholders_expand:
  assumes "\<not> prefix ''SPACE'' b"
  shows "expand_placeholders (a @ ''$NAMESPACE'' @ b)
      = expand_placeholders a @ namespace_pattern @ expand_placeholders b
    \<and> expand_placeholders (a @ ''$NAME'' @ b)
      = expand_placeholders a @ name_pattern @ expand_placeholders b"
  using expand_namespace expand_name [OF assms] by blast

lemma placeholders_expand_example:
  "expand_placeholders (''$NAMESPACE/'' @ ''$NAME'' @ '':'')
     = expand_placeholders ''$NAMESPACE/'' @ name_pattern @ expand_placeholders '':''"
  by (rule placeholders_expand [THEN conjunct2]) simp

section \<open>Configuration\<close>

text \<open>C33. Validation decides validity: it succeeds exactly for the supported version with, in every mapping,
  a kind, an apiVersion, patches that are known and have the fields their operation asks for, and back
  syncs that are valid and of different kinds. What ParseConfig returns is valid.\<close>

theorem validate_decides:
  "(validate c = Inr () \<longleftrightarrow> valid_config c)
   \<and> (ParseConfig dec raw = Inr c \<longleftrightarrow> dec raw = Inr c \<and> valid_config c)"
  using validate_ok [of c] by (auto simp: ParseConfig_def result_simps validate_ok)

end
