(* ===== verification/NameProperties.thy ===== *)
theory NameProperties
  imports Examples
begin

text \<open>
  The properties of the name translation and the name cache: host names, the cache after any history
  of events, the hooks it runs, and the resolvers that read it.
\<close>

section \<open>Host names\<close>

text \<open>C32. The host name of an object fits into the 63 bytes of a Kubernetes name, and is empty only for an
  empty name, whatever the name, the namespace and the suffix.\<close>

theorem host_name_bounds:
  "length (PhysicalName Suffix name namespace) \<le> 63
   \<and> (PhysicalName Suffix name namespace = [] \<longleftrightarrow> name = [])"
  using PhysicalName_length PhysicalName_empty by blast

text \<open>C31. Two objects with the same host name are the same object, when neither name had to be shortened and
  the namespaces have no dash. (Names that contain the separator -x- can collide otherwise.)\<close>

theorem host_names_are_unique:
  assumes "short_name Suffix n ns" "short_name Suffix n' ns'"
    and "CHR ''-'' \<notin> set ns" "CHR ''-'' \<notin> set ns'"
    and "PhysicalName Suffix n ns = PhysicalName Suffix n' ns'"
  shows "n = n' \<and> ns = ns'"
  using assms by (rule PhysicalName_inj)

theorem host_names_are_unique_witness:
  "''web'' = ''web'' \<and> ''default'' = ''default''"
  by (rule host_names_are_unique [of "''vc''"]) (simp_all add: short_name_def)

text \<open>Without that restriction two different objects can share one host name.\<close>

lemma host_names_can_collide:
  "PhysicalName ''vc'' ''a-x-b'' ''c'' = PhysicalName ''vc'' ''a'' ''b-x-c''"
  by code_simp

section \<open>The name cache\<close>

text \<open>The log of a hook: what it was called with.\<close>

type_synonym call_log = "(string \<times> string \<times> string) list"

definition log_hook :: "call_log HookFunc" where
  "log_hook name key value w = w @ [(name, key, value)]"

definition foo_gvk :: GroupVersionKind where
  "foo_gvk = \<lparr>Group = [], Version = ''v1'', GVKKind = ''Foo''\<rparr>"

definition foo_mappings :: IndexMappings where
  "foo_mappings = \<lparr>IMName = ''default/web'', IMMappings = [(IndexPhysicalToVirtualName,
     [(''web-x-default-x-vc'', ''default/web'')])]\<rparr>"

text \<open>The effect of a history of exchanges and removals, the newest first.\<close>

fun run_events :: "cache_event list \<Rightarrow> 'w nameCache \<times> 'w \<Rightarrow> 'w nameCache \<times> 'w" where
  "run_events [] st = st"
| "run_events (Exchanged gvk im # es) st = ExchangeMapping gvk im (run_events es st)"
| "run_events (Removed gvk name # es) st = RemoveMapping gvk name (run_events es st)"

lemma run_events_run: "run_events es st = cache.run es st"
  by (induction es st rule: run_events.induct) auto

text \<open>C7. After any sequence of exchanges and removals on an empty cache, the entries of an object are those
  of the mapping it was exchanged with last, and a lookup returns an entry some object has; it is empty
  only when no object has one.\<close>

theorem lookup_after_any_history:
  assumes "list_all event_ok es" "no_objects st"
  shows "contrib (fst (run_events es st)) gvk name i k = last_lookup es gvk name i k
    \<and> (if \<forall>name. last_lookup es gvk name i k = None
       then GetFirstByIndex (fst (run_events es st)) gvk i k = []
       else (\<exists>name. last_lookup es gvk name i k = Some (GetFirstByIndex (fst (run_events es st)) gvk i k)))"
  using cache.run_first [OF assms, of gvk i k] cache.run_provides [OF assms, of gvk name i k]
  by (auto simp: run_events_run)

theorem lookup_after_any_history_witness:
  "GetFirstByIndex (fst (run_events
     [Exchanged foo_gvk foo_mappings, Removed foo_gvk ''default/web'', Exchanged foo_gvk foo_mappings]
     (emptyNameCache, ()))) foo_gvk IndexPhysicalToVirtualName ''web-x-default-x-vc'' = ''default/web''"
proof -
  let ?es = "[Exchanged foo_gvk foo_mappings, Removed foo_gvk ''default/web'', Exchanged foo_gvk foo_mappings]"
  let ?look = "\<lambda>n. last_lookup ?es foo_gvk n IndexPhysicalToVirtualName ''web-x-default-x-vc''"
  have ok: "list_all event_ok ?es" by code_simp
  have st: "no_objects (emptyNameCache, ())" by (simp add: no_objects_def emptyNameCache_def)
  have l: "?look n = (if n = ''default/web'' then Some ''default/web'' else None)" for n
    by (simp add: foo_mappings_def im_lookup_def)
  then have "\<not> (\<forall>n. ?look n = None)" by auto
  then show ?thesis
    using lookup_after_any_history [OF ok st, of foo_gvk "''default/web''" IndexPhysicalToVirtualName
        "''web-x-default-x-vc''"] l by (auto split: if_splits)
qed

text \<open>C8. Exchanging the mapping of an object replaces its entries and no other object's, and runs the hooks
  for exactly the old entries, as removed, and then the new entries, in order; an unchanged mapping
  runs none.\<close>

theorem exchange_replaces_and_notifies:
  assumes "cache_inv (n, w)" "wf_mappings im" "r = ExchangeMapping gvk im (n, w)"
  shows "(if unchanged n gvk im then snd r = w \<and> GetByIndex (fst r) g i k = GetByIndex n g i k
     else GetByIndex (fst r) g i k =
         (if g = gvk
          then filter (\<lambda>o'. ObjName o' \<noteq> IMName im) (GetByIndex n gvk i k)
            @ (case im_lookup im i k of None \<Rightarrow> [] | Some v \<Rightarrow> [\<lparr>ObjName = IMName im, ObjValue = v\<rparr>])
          else GetByIndex n g i k)
       \<and> snd r = notify n gvk (IMName im) (im_pairs (IMMappings im))
          (case sub_map (objects n) gvk (IMName im) of None \<Rightarrow> w
           | Some old \<Rightarrow> notify n gvk (IMName im) (im_pairs (IMMappings old)) w))
     \<and> cache_inv r \<and> hooks (fst r) = hooks n"
proof (cases "unchanged n gvk im")
  case True
  then show ?thesis
    using assms(3) ensure_objects_inv [OF assms(1), of gvk] by (simp add: ExchangeMapping_split)
next
  case False
  then show ?thesis
    using ExchangeMapping_effect [OF assms(1,2) False assms(3)] ExchangeMapping_inv(1) [OF assms(1,2)] assms(3)
    by simp
qed

definition logging_cache :: "call_log nameCache" where
  "logging_cache = AddChangeHook foo_gvk IndexPhysicalToVirtualName log_hook emptyNameCache"

lemma logging_cache_inv: "cache_inv (logging_cache, w)"
  unfolding logging_cache_def
  by (rule AddChangeHook_frame(3), rule cache.inv_empty) (simp add: no_objects_def emptyNameCache_def)

theorem exchange_replaces_and_notifies_witness:
  "snd (ExchangeMapping foo_gvk foo_mappings (logging_cache, []))
     = [(''default/web'', ''web-x-default-x-vc'', ''default/web'')]"
proof -
  have "wf_mappings foo_mappings" by code_simp
  moreover have "\<not> unchanged logging_cache foo_gvk foo_mappings" by code_simp
  moreover have "notify logging_cache foo_gvk (IMName foo_mappings) (im_pairs (IMMappings foo_mappings)) []
      = [(''default/web'', ''web-x-default-x-vc'', ''default/web'')]" by code_simp
  moreover have "sub_map (objects logging_cache) foo_gvk (IMName foo_mappings) = None" by code_simp
  ultimately show ?thesis
    using exchange_replaces_and_notifies [OF logging_cache_inv [of "[]"] _ refl, where im = foo_mappings and gvk = foo_gvk]
    by auto
qed

text \<open>C9. Removing an object deletes its entries from every index of its kind and no other entries, and runs
  the hooks once for each entry it had.\<close>

theorem removal_deletes_and_notifies:
  assumes "cache_inv (n, w)" "r = RemoveMapping gvk name (n, w)"
  shows "GetByIndex (fst r) g i k =
      (if g = gvk then filter (\<lambda>o'. ObjName o' \<noteq> name) (GetByIndex n gvk i k) else GetByIndex n g i k)
    \<and> contrib (fst r) gvk name i k = None
    \<and> snd r = (case sub_map (objects n) gvk name of None \<Rightarrow> w
         | Some im \<Rightarrow> notify n gvk name (im_pairs (IMMappings im)) w)
    \<and> cache_inv r"
  using removeMapping_effect [OF assms(1), of r gvk name] removeMapping_inv [OF assms(1), of gvk name] assms(2)
  by (simp add: RemoveMapping_def)

definition logging_state :: "call_log nameCache \<times> call_log" where
  "logging_state = ExchangeMapping foo_gvk foo_mappings (logging_cache, [])"

lemma logging_state_inv: "cache_inv (fst logging_state, snd logging_state)"
proof -
  have "wf_mappings foo_mappings" by code_simp
  with ExchangeMapping_inv(1) [OF logging_cache_inv] show ?thesis by (simp add: logging_state_def)
qed

theorem removal_deletes_and_notifies_witness:
  "snd (RemoveMapping foo_gvk ''default/web'' logging_state) =
     [(''default/web'', ''web-x-default-x-vc'', ''default/web''), (''default/web'', ''web-x-default-x-vc'', ''default/web'')]
   \<and> GetByIndex (fst (RemoveMapping foo_gvk ''default/web'' logging_state)) foo_gvk
       IndexPhysicalToVirtualName ''web-x-default-x-vc'' = []"
proof -
  have "filter (\<lambda>o'. ObjName o' \<noteq> ''default/web'')
      (GetByIndex (fst logging_state) foo_gvk IndexPhysicalToVirtualName ''web-x-default-x-vc'') = []" by code_simp
  moreover have "sub_map (objects (fst logging_state)) foo_gvk ''default/web'' = Some foo_mappings" by code_simp
  moreover have "notify (fst logging_state) foo_gvk ''default/web'' (im_pairs (IMMappings foo_mappings)) (snd logging_state)
      = [(''default/web'', ''web-x-default-x-vc'', ''default/web''), (''default/web'', ''web-x-default-x-vc'', ''default/web'')]"
    by code_simp
  ultimately show ?thesis
    using removal_deletes_and_notifies [OF logging_state_inv refl, where gvk = foo_gvk and name = "''default/web''"
        and g = foo_gvk and i = IndexPhysicalToVirtualName and k = "''web-x-default-x-vc''"] by simp
qed

section \<open>Resolving\<close>

text \<open>C10. Whatever the informers reported, in any order, a name the host-to-virtual resolver returns is one
  whose host name is the name that was asked for: the resolver inverts the translation.\<close>

theorem resolver_inverts_translation:
  assumes "handle_events E Suffix evs st = Inr st'" "no_objects st"
    and "htv_TranslateName (fst st') gvk host None path s = Inr (name, s')"
    and "path = [] \<or> CHR ''/'' \<notin> set host \<and> CHR ''/'' \<notin> set Suffix"
  shows "\<exists>ns. PhysicalName Suffix name ns = host"
  using htv_TranslateName_inverts [OF handle_events_inv [OF assms(1,2)] assms(3)] assms(4) by blast

definition foo_handler :: fromVirtualClusterCacheHandler where
  "foo_handler = \<lparr>handler_gvk = foo_gvk, handler_mapping = no_patches\<rparr>"

abbreviation web_added :: "(fromVirtualClusterCacheHandler \<times> informer_event) list" where
  "web_added \<equiv> [(foo_handler, Added (UnstructuredObj web_object))]"

definition web_state :: "unit nameCache \<times> unit" where
  "web_state = ExchangeMapping foo_gvk
     (index_mappings web_object ([(''web-x-default-x-vc'', ''default/web'')],
       [(''web-x-default-x-vc/metadata.name'', ''default/web'')])) (emptyNameCache, ())"

lemma web_state: "handle_events codec ''vc'' web_added (emptyNameCache, ()) = Inr web_state"
proof -
  have "PhysicalName ''vc'' ''web'' ''default'' = ''web-x-default-x-vc''"
    by (subst PhysicalName_short) (simp_all add: short_name_def)
  then show ?thesis
    by (simp add: handle_events_def handle_event_def OnAdd_def foo_handler_def mappingsFromVirtualObject_def
        no_patches_def add_reference_def addSingleMapping_def web_object_def GetName_def GetNamespace_def
        getNestedString_def nested_def web_state_def)
qed

theorem resolver_inverts_translation_witness:
  "htv_TranslateName (fst web_state) foo_gvk ''web-x-default-x-vc'' None [] () = Inr (''web'', ())
   \<and> (\<exists>ns. PhysicalName ''vc'' ''web'' ns = ''web-x-default-x-vc'')"
proof -
  have t: "htv_TranslateName (fst web_state) foo_gvk ''web-x-default-x-vc'' None [] () = Inr (''web'', ())"
    by code_simp
  have "\<exists>ns. PhysicalName ''vc'' ''web'' ns = ''web-x-default-x-vc''"
    by (rule resolver_inverts_translation [OF web_state _ t]) (simp_all add: no_objects_def emptyNameCache_def)
  with t show ?thesis by blast
qed

text \<open>C30. Once the memorizing resolver has translated a name, it keeps giving the same translation when the cache
  has lost the name, and never forgets the translations of other names.\<close>

theorem memory_survives_the_cache:
  assumes "mem_TranslateName n gvk name re path m = Inr (v, m')"
  shows "v \<noteq> []
    \<and> (Name (resolve n' gvk path name) = [] \<longrightarrow> mem_TranslateName n' gvk name re' path m' = Inr (v, m'))
    \<and> (\<forall>k. k \<noteq> name @ ''/'' @ path \<longrightarrow> str_at m' k = str_at m k)"
  using mem_TranslateName_nonempty [OF assms] mem_TranslateName_remembers [OF assms]
    mem_TranslateName_frame [OF assms] by blast

theorem memory_survives_the_cache_witness:
  "mem_TranslateName (emptyNameCache :: unit nameCache) foo_gvk ''web-x-default-x-vc'' None []
     (Some [(''web-x-default-x-vc/'', ''web'')]) = Inr (''web'', Some [(''web-x-default-x-vc/'', ''web'')])"
proof -
  have t: "mem_TranslateName (fst web_state) foo_gvk ''web-x-default-x-vc'' None [] None
      = Inr (''web'', Some [(''web-x-default-x-vc/'', ''web'')])" by code_simp
  have "Name (resolve (emptyNameCache :: unit nameCache) foo_gvk [] ''web-x-default-x-vc'') = []" by code_simp
  with memory_survives_the_cache [OF t] show ?thesis by blast
qed

text \<open>An object the informer reported resolves: right after the event, its host name leads to an object with
  exactly this host name.\<close>

lemma reported_objects_resolve:
  assumes "handle_events E Suffix (evs @ [(c, Added (UnstructuredObj obj))]) st = Inr st'" "no_objects st"
    and "mappingsFromVirtualObject E Suffix obj (handler_mapping c) = Inr m"
  shows "\<exists>n ns. GetFirstByIndex (fst st') (handler_gvk c) IndexPhysicalToVirtualName
        (PhysicalName Suffix (GetName obj) (GetNamespace obj)) = ns @ ''/'' @ n
      \<and> PhysicalName Suffix n ns = PhysicalName Suffix (GetName obj) (GetNamespace obj)"
proof -
  let ?k = "PhysicalName Suffix (GetName obj) (GetNamespace obj)"
  have tb: "entries_translate_back Suffix st'" using handle_events_inv [OF assms(1,2)] .
  obtain st1 where st1: "handle_events E Suffix evs st = Inr st1"
    "handle_event E Suffix (c, Added (UnstructuredObj obj)) st1 = Inr st'"
    using assms(1) by (auto simp: handle_events_def result_simps)
  have inv: "cache_inv st1"
    using handle_events_inv [OF st1(1) assms(2)] by (simp add: entries_translate_back_def)
  have st': "st' = ExchangeMapping (handler_gvk c) (index_mappings obj m) st1"
    using st1(2) assms(3) by (simp add: handle_event_def OnAdd_def)
  obtain v where "map_of (fst m) ?k = Some v"
    using mappings_own_name [OF assms(3)] by (metis map_of_eq_None_iff not_None_eq)
  then have "contrib (fst st') (handler_gvk c) (object_key obj) IndexPhysicalToVirtualName ?k = Some v"
    using ExchangeMapping_inv(2) [OF inv index_mappings_wf [OF mappings_ok [OF assms(3)]]]
    by (simp add: st' index_mappings_lookup) (simp add: index_mappings_def)
  then obtain name where "contrib (fst st') (handler_gvk c) name IndexPhysicalToVirtualName ?k
      = Some (GetFirstByIndex (fst st') (handler_gvk c) IndexPhysicalToVirtualName ?k)"
    using cache.first_provided [of st' "handler_gvk c" IndexPhysicalToVirtualName ?k] tb
    by (auto simp: entries_translate_back_def)
  with tb have "name_entry_ok Suffix (?k, GetFirstByIndex (fst st') (handler_gvk c) IndexPhysicalToVirtualName ?k)"
    unfolding entries_translate_back_def by blast
  then show ?thesis unfolding name_entry_ok_def fst_conv snd_conv by metis
qed

text \<open>C11. Translating a name to the host and back gives the name again: right after the informer reported an
  object, the host-to-virtual resolver maps its host name to its name, when the names in the cache need
  no shortening and their namespaces have no dash.\<close>

theorem names_round_trip:
  assumes "handle_events E Suffix (evs @ [(c, Added (UnstructuredObj obj))]) st = Inr st'" "no_objects st"
    and "mappingsFromVirtualObject E Suffix obj (handler_mapping c) = Inr m"
    and plain: "\<And>name k ns n. contrib (fst st') (handler_gvk c) name IndexPhysicalToVirtualName k = Some (ns @ ''/'' @ n)
      \<Longrightarrow> short_name Suffix n ns \<and> CHR ''-'' \<notin> set ns"
    and "short_name Suffix (GetName obj) (GetNamespace obj)" "CHR ''-'' \<notin> set (GetNamespace obj)"
    and "GetName obj \<noteq> []" "CHR ''/'' \<notin> set (GetName obj)" "CHR ''/'' \<notin> set (GetNamespace obj)"
  shows "htv_TranslateName (fst st') (handler_gvk c)
      (PhysicalName Suffix (GetName obj) (GetNamespace obj)) None [] s = Inr (GetName obj, s)"
proof -
  let ?k = "PhysicalName Suffix (GetName obj) (GetNamespace obj)"
  let ?v = "GetFirstByIndex (fst st') (handler_gvk c) IndexPhysicalToVirtualName ?k"
  obtain n ns where v: "?v = ns @ ''/'' @ n" and k: "PhysicalName Suffix n ns = ?k"
    using reported_objects_resolve [OF assms(1-3)] by blast
  have "cache_inv st'"
    using handle_events_inv [OF assms(1,2)] by (simp add: entries_translate_back_def)
  then obtain name where "contrib (fst st') (handler_gvk c) name IndexPhysicalToVirtualName ?k = Some ?v"
    using cache.first_provided [of st' "handler_gvk c" IndexPhysicalToVirtualName ?k] v by auto
  then have "short_name Suffix n ns \<and> CHR ''-'' \<notin> set ns" using plain v by metis
  then have n: "n = GetName obj" "ns = GetNamespace obj"
    using PhysicalName_inj [OF _ assms(5) _ assms(6) k] by blast+
  have "Name (StringToNamespacedName (ns @ ''/'' @ n)) = n"
    using StringToNamespacedName_parts [OF assms(9,8)] by (simp add: n)
  with v n assms(7) show ?thesis
    by (simp add: htv_TranslateName_def resolve_def ResolveName_def Let_def)
qed

theorem names_round_trip_witness:
  "htv_TranslateName (fst web_state) foo_gvk
     (PhysicalName ''vc'' (GetName web_object) (GetNamespace web_object)) None [] () = Inr (''web'', ())"
proof -
  have m: "mappingsFromVirtualObject codec ''vc'' web_object (handler_mapping foo_handler)
      = Inr (add_reference ''vc'' (GetNamespace web_object) (GetName web_object) MetadataFieldPath ([], []))"
    by (simp add: mappingsFromVirtualObject_def foo_handler_def no_patches_def)
  have w: "GetName web_object = ''web''" "GetNamespace web_object = ''default''" by code_simp+
  have st: "no_objects (emptyNameCache :: unit nameCache, ())" by (simp add: no_objects_def emptyNameCache_def)
  have entry: "ns @ ''/'' @ n = ''default/web'' \<Longrightarrow> ns = ''default'' \<and> n = ''web''" for ns n :: string
    by (auto simp: append_eq_Cons_conv Cons_eq_append_conv)
  have "contrib (fst web_state) foo_gvk name IndexPhysicalToVirtualName k = Some v \<Longrightarrow> v = ''default/web''" for name k v
    unfolding web_state_def
    by (subst (asm) ExchangeMapping_inv(2) [OF cache.inv_empty [OF st]], code_simp)
      (auto simp: index_mappings_lookup cache.provides_empty [OF st, simplified] split: if_splits)
  then have plain: "contrib (fst web_state) (handler_gvk foo_handler) name IndexPhysicalToVirtualName k = Some (ns @ ''/'' @ n)
      \<Longrightarrow> short_name ''vc'' n ns \<and> CHR ''-'' \<notin> set ns" for name k ns n
    using entry [of ns n] by (fastforce simp: foo_handler_def short_name_def)
  have e: "handle_events codec ''vc'' ([] @ web_added) (emptyNameCache, ()) = Inr web_state"
    using web_state by simp
  have "htv_TranslateName (fst web_state) (handler_gvk foo_handler)
      (PhysicalName ''vc'' (GetName web_object) (GetNamespace web_object)) None [] () = Inr (GetName web_object, ())"
    by (rule names_round_trip [OF e st m]) (erule plain, simp_all add: w short_name_def)
  then show ?thesis by (simp add: w foo_handler_def)
qed

end
