(* ===== verification/LabelSelectors.thy ===== *)
theory LabelSelectors
  imports NameResolvers Translator
begin

text \<open>
  Label selectors of virtual objects on the host. The SDK converts the label keys of an object it
  brings to the host and marks the object with its namespace and its virtual cluster
  (\<open>translateLabels\<close>); the virtual-to-host resolver does the same to a selector
  (\<open>vth_TranslateLabelSelector\<close>). What a selector selects, the two translations agree on.
\<close>

section \<open>Selection\<close>

text \<open>An object matches a map of labels when it has every label of the map, with the same value.\<close>

definition selects :: "(string \<times> string) list \<Rightarrow> (string \<times> string) list \<Rightarrow> bool" where
  "selects sel ls \<longleftrightarrow> list_all (\<lambda>k. map_of ls k = map_of sel k) (map fst sel)"

lemma selects_map_le: "selects sel ls \<longleftrightarrow> map_of sel \<subseteq>\<^sub>m map_of ls"
  by (auto simp: selects_def list_all_iff map_le_def dom_map_of_conv_image_fst)

lemma selects_update: "k \<notin> fst ` set sel \<Longrightarrow> selects sel (AList.update k v ls) \<longleftrightarrow> selects sel ls"
  by (auto simp: selects_def list_all_iff update_conv')

section \<open>Maps with converted keys\<close>

lemma fold_update_other:
  "k' \<notin> f ` fst ` set ls \<Longrightarrow> map_of (fold (\<lambda>(k, v). AList.update (f k) v) ls acc) k' = map_of acc k'"
  by (induction ls arbitrary: acc) (auto simp: update_conv')

lemma fold_update_at:
  assumes "inj_on f K" "fst ` set ls \<subseteq> K" "distinct (map fst ls)" "k \<in> K"
  shows "map_of (fold (\<lambda>(k, v). AList.update (f k) v) ls acc) (f k) =
    (case map_of ls k of None \<Rightarrow> map_of acc (f k) | Some v \<Rightarrow> Some v)"
  using assms(2,3)
proof (induction ls arbitrary: acc)
  case (Cons e ls)
  obtain k1 v1 where e: "e = (k1, v1)" by fastforce
  show ?case
  proof (cases "k1 = k")
    case True
    then have "k \<notin> fst ` set ls" using Cons.prems(2) e by auto
    moreover have "fst ` set ls \<subseteq> K" using Cons.prems(1) by auto
    ultimately have "f k \<notin> f ` fst ` set ls" using inj_on_image_mem_iff [OF assms(1,4)] by simp
    moreover have "map_of ls k = None" using \<open>k \<notin> fst ` set ls\<close> by (simp add: map_of_eq_None_iff)
    ultimately show ?thesis using e True by (simp add: fold_update_other update_conv')
  next
    case False
    have k1: "k1 \<in> K" using Cons.prems(1) e by simp
    have "f k1 \<noteq> f k" using inj_onD [OF assms(1) _ k1 assms(4)] False by blast
    moreover have "fst ` set ls \<subseteq> K" "distinct (map fst ls)" using Cons.prems by auto
    ultimately show ?thesis using Cons.IH e False by (simp add: update_conv' split: option.split)
  qed
qed simp

lemma dom_fold_update:
  "dom (map_of (fold (\<lambda>(k, v). AList.update (f k) v) ls acc)) = f ` fst ` set ls \<union> dom (map_of acc)"
  by (induction ls arbitrary: acc) (auto simp: update_conv')

section \<open>Converted keys are no markers\<close>

lemma ReplaceAll_label:
  "strings_ReplaceAll (''vcluster.loft.sh/l'' @ rest) ''.-'' ''-'' = ''vcluster.loft.sh/l'' @ strings_ReplaceAll rest ''.-'' ''-''"
  by simp

lemma ConvertLabelKey_prefix: "\<exists>rest. ConvertLabelKey Suffix key = ''vcluster.loft.sh/l'' @ rest"
proof -
  let ?p = "strings_Join [LabelPrefix, Suffix, ''x'', take 10 (sha256_hex key)] ''-''"
  obtain rest where p: "?p = ''vcluster.loft.sh/l'' @ rest" by simp
  then have "take 52 ?p @ ''-'' @ take 10 (sha256_hex ?p)
      = ''vcluster.loft.sh/l'' @ take 34 rest @ ''-'' @ take 10 (sha256_hex ?p)" by simp
  then have "SafeConcatName [LabelPrefix, Suffix, ''x'', take 10 (sha256_hex key)]
      = ''vcluster.loft.sh/l'' @ (if length ?p > 63
          then strings_ReplaceAll (take 34 rest @ ''-'' @ take 10 (sha256_hex ?p)) ''.-'' ''-'' else rest)"
    unfolding SafeConcatName_def Let_def using ReplaceAll_label p by simp
  then show ?thesis unfolding ConvertLabelKey_def by blast
qed

lemma ConvertLabelKey_no_marker:
  "ConvertLabelKey Suffix key \<noteq> NamespaceLabel" "ConvertLabelKey Suffix key \<noteq> MarkerLabel"
  "ConvertLabelKey Suffix key \<noteq> ControllerLabel"
  using ConvertLabelKey_prefix [of Suffix key] by auto

text \<open>Selectors and objects are converted with the same function, but the namespace label of an object.\<close>

definition label_key :: "string \<Rightarrow> string \<Rightarrow> string" where
  "label_key Suffix k = (if k = NamespaceLabel then k else ConvertLabelKey Suffix k)"

lemma label_key_inj:
  "inj_on (ConvertLabelKey Suffix) K \<Longrightarrow> inj_on (label_key Suffix) K"
  using ConvertLabelKey_no_marker(1) by (simp add: inj_on_def label_key_def) metis

lemma translated_label:
  assumes "inj_on (ConvertLabelKey Suffix) K" "fst ` set ls \<subseteq> K" "distinct (map fst ls)"
    and "GetNamespace vObj \<noteq> []" "GetLabels vObj = Some ls"
  shows "map_of (translateLabels Suffix vObj) NamespaceLabel = Some (GetNamespace vObj)"
    and "map_of (translateLabels Suffix vObj) MarkerLabel = Some Suffix"
    and "k \<in> K \<Longrightarrow> k \<noteq> NamespaceLabel \<Longrightarrow>
      map_of (translateLabels Suffix vObj) (ConvertLabelKey Suffix k) = map_of ls k"
proof -
  let ?f = "label_key Suffix"
  have t: "map_of (translateLabels Suffix vObj) =
      (map_of (fold (\<lambda>(k, v). AList.update (?f k) v) ls []))(MarkerLabel \<mapsto> Suffix, NamespaceLabel \<mapsto> GetNamespace vObj)"
    using assms(4,5) by (simp add: translateLabels_def Let_def label_key_def update_conv')
  show "map_of (translateLabels Suffix vObj) NamespaceLabel = Some (GetNamespace vObj)"
    "map_of (translateLabels Suffix vObj) MarkerLabel = Some Suffix" by (simp_all add: t)
  show "map_of (translateLabels Suffix vObj) (ConvertLabelKey Suffix k) = map_of ls k"
    if k: "k \<in> K" "k \<noteq> NamespaceLabel"
    using fold_update_at [OF label_key_inj [OF assms(1)] assms(2,3) k(1), of "[]"] k(2) ConvertLabelKey_no_marker [of Suffix k]
    by (simp add: t label_key_def split: option.splits)
qed

lemma translated_selector:
  assumes "inj_on (ConvertLabelKey Suffix) K" "fst ` set sel \<subseteq> K" "distinct (map fst sel)"
  shows "dom (map_of (with_markers Suffix ns (convert_labels Suffix sel)))
      = insert MarkerLabel (insert NamespaceLabel (ConvertLabelKey Suffix ` fst ` set sel))"
    and "map_of (with_markers Suffix ns (convert_labels Suffix sel)) NamespaceLabel = Some ns"
    and "map_of (with_markers Suffix ns (convert_labels Suffix sel)) MarkerLabel = Some Suffix"
    and "k \<in> K \<Longrightarrow> map_of (with_markers Suffix ns (convert_labels Suffix sel)) (ConvertLabelKey Suffix k) = map_of sel k"
proof -
  have t: "map_of (with_markers Suffix ns (convert_labels Suffix sel)) =
      (map_of (convert_labels Suffix sel))(NamespaceLabel \<mapsto> ns, MarkerLabel \<mapsto> Suffix)"
    by (simp add: with_markers_def update_conv')
  show "dom (map_of (with_markers Suffix ns (convert_labels Suffix sel)))
      = insert MarkerLabel (insert NamespaceLabel (ConvertLabelKey Suffix ` fst ` set sel))"
  proof -
    have "dom (map_of (convert_labels Suffix sel)) = ConvertLabelKey Suffix ` fst ` set sel"
      by (simp add: convert_labels_def dom_fold_update)
    then show ?thesis by (simp add: t)
  qed
  show "map_of (with_markers Suffix ns (convert_labels Suffix sel)) NamespaceLabel = Some ns"
    "map_of (with_markers Suffix ns (convert_labels Suffix sel)) MarkerLabel = Some Suffix" by (simp_all add: t)
  show "map_of (with_markers Suffix ns (convert_labels Suffix sel)) (ConvertLabelKey Suffix k) = map_of sel k"
    if k: "k \<in> K"
  proof -
    have "map_of (convert_labels Suffix sel) (ConvertLabelKey Suffix k) = map_of sel k"
      using fold_update_at [OF assms k, of "[]"] by (simp add: convert_labels_def split: option.splits)
    then show ?thesis using ConvertLabelKey_no_marker [of Suffix k] by (simp add: t)
  qed
qed

text \<open>The translated selector selects the translated object exactly when the selector selects the object.\<close>

lemma selects_translated:
  assumes "inj_on (ConvertLabelKey Suffix) (fst ` set (ls @ sel))" "distinct (map fst ls)" "distinct (map fst sel)"
    and "GetNamespace vObj \<noteq> []" "GetLabels vObj = Some ls" "NamespaceLabel \<notin> fst ` set sel"
  shows "selects (with_markers Suffix ns (convert_labels Suffix sel)) (translateLabels Suffix vObj)
    \<longleftrightarrow> selects sel ls \<and> ns = GetNamespace vObj"
proof -
  let ?K = "fst ` set (ls @ sel)"
  have sub: "fst ` set ls \<subseteq> ?K" "fst ` set sel \<subseteq> ?K" by auto
  note obj = translated_label [OF assms(1) sub(1) assms(2,4,5)]
  note tr = translated_selector [OF assms(1) sub(2) assms(3), where ns = ns]
  have at: "map_of (translateLabels Suffix vObj) (ConvertLabelKey Suffix k) = map_of ls k"
    "map_of (with_markers Suffix ns (convert_labels Suffix sel)) (ConvertLabelKey Suffix k) = map_of sel k"
    if "k \<in> fst ` set sel" for k
  proof -
    have "k \<in> ?K" "k \<noteq> NamespaceLabel" using that assms(6) sub(2) by blast+
    then show "map_of (translateLabels Suffix vObj) (ConvertLabelKey Suffix k) = map_of ls k"
      "map_of (with_markers Suffix ns (convert_labels Suffix sel)) (ConvertLabelKey Suffix k) = map_of sel k"
      using obj(3) tr(4) by blast+
  qed
  have "selects (with_markers Suffix ns (convert_labels Suffix sel)) (translateLabels Suffix vObj)
      \<longleftrightarrow> (\<forall>k' \<in> dom (map_of (with_markers Suffix ns (convert_labels Suffix sel))).
        map_of (with_markers Suffix ns (convert_labels Suffix sel)) k' = map_of (translateLabels Suffix vObj) k')"
    by (simp add: selects_map_le map_le_def)
  also have "\<dots> \<longleftrightarrow> ns = GetNamespace vObj \<and> (\<forall>k \<in> fst ` set sel. map_of sel k = map_of ls k)"
    unfolding tr(1) using tr(2,3) obj(1,2) at by simp
  also have "(\<forall>k \<in> fst ` set sel. map_of sel k = map_of ls k) \<longleftrightarrow> selects sel ls"
    by (auto simp: selects_def list_all_iff)
  finally show ?thesis by blast
qed

end
