(* ===== verification/SyncProperties.thy ===== *)
theory SyncProperties
  imports NameProperties LabelSelectors
begin

text \<open>
  The properties of the controllers: what they send to which cluster, which objects they own, and the
  annotations by which a host object keeps its virtual name.
\<close>

section \<open>The patcher\<close>

text \<open>When translating the metadata or a patch fails, no request reaches a cluster. When they succeed, the
  status is applied first, if the patched object has one, and the object without its status after it;
  a failed request ends the sequence.\<close>

lemma patcher_sends_all_or_nothing:
  assumes "statusIsSubresource s"
    and "bind_result (translateMetadata fromObj) (\<lambda>t. ApplyPatches E t toObj ps rps nr r) = res"
  shows "case res of
      Inl e \<Rightarrow> \<exists>e'. patcher_ApplyPatches E s fromObj toObj ps rps translateMetadata nr r w = (Inl e', w)
    | Inr (p, r') \<Rightarrow> \<forall>st. status_of p = Inr st \<longrightarrow>
        patcher_ApplyPatches E s fromObj toObj ps rps translateMetadata nr r =
        (if st = None then
           bind_io (wrap_io ''apply object'' (ApplyPatch (toClient s) p)) (\<lambda>_. return_io (p, r'))
         else
           bind_io (wrap_io ''apply status'' (StatusApply (toClient s) p)) (\<lambda>_.
           bind_io (wrap_io ''apply object'' (ApplyPatch (toClient s) (RemoveNestedField [''status''] p))) (\<lambda>_.
           return_io (RemoveNestedField [''status''] p, r'))))"
proof (cases res)
  case (Inl e)
  then have "translateMetadata fromObj = Inl e
      \<or> (\<exists>t. translateMetadata fromObj = Inr t \<and> ApplyPatches E t toObj ps rps nr r = Inl e)"
    using assms(2) by (auto simp: result_simps)
  then have "\<exists>e'. patcher_ApplyPatches E s fromObj toObj ps rps translateMetadata nr r = lift_io (Inl e')"
    by (rule ApplyPatches_fails_clean)
  with Inl show ?thesis by (auto simp: io_simps_basic(2))
next
  case (Inr x)
  obtain p r' where x: "x = (p, r')" by fastforce
  obtain t where t: "translateMetadata fromObj = Inr t" "ApplyPatches E t toObj ps rps nr r = Inr (p, r')"
    using assms(2) Inr x by (auto simp: result_simps)
  show ?thesis
    unfolding Inr x sum.case prod.case
    by (intro allI impI ApplyPatches_sends [where translateMetadata = translateMetadata and fromObj = fromObj and t = t] t assms(1))
qed

abbreviation no_resolver :: "unit NameResolver" where
  "no_resolver \<equiv> hostToVirtualNameResolver (emptyNameCache :: unit nameCache) \<lparr>Group = [], Version = ''v1'', GVKKind = ''Foo''\<rparr>"

lemma patcher_sends_all_or_nothing_example:
  "patcher_ApplyPatches codec demo_patcher sample None [] [] Inr no_resolver () []
   = (Inr (sample, ()), [(''apply'', sample)])"
proof -
  have a: "bind_result (Inr sample) (\<lambda>t. ApplyPatches codec t None [] [] no_resolver ()) = Inr (sample, ())"
    by code_simp
  have "status_of sample = Inr None" "statusIsSubresource demo_patcher"
    by code_simp (simp add: demo_patcher_def)
  then have "patcher_ApplyPatches codec demo_patcher sample None [] [] Inr no_resolver () =
      bind_io (wrap_io ''apply object'' (ApplyPatch (toClient demo_patcher) sample)) (\<lambda>_. return_io (sample, ()))"
    using patcher_sends_all_or_nothing [where translateMetadata = Inr and fromObj = sample, OF _ a, of demo_patcher]
    by simp
  then show ?thesis
    by (simp add: bind_io_def wrap_io_def return_io_def demo_patcher_def demo_ctx_def log_client_def)
qed

text \<open>Reverse patches make at most one request, to the source cluster: the status when the patches changed it,
  else the object without its status when they changed that, else none.\<close>

lemma reverse_patches_send_at_most_one:
  assumes "ApplyPatches E fromObj (Some otherObj) rps [] nr r = Inr (p, r')"
    and "status_of fromObj = Inr b" "status_of p = Inr a" "statusIsSubresource s"
  shows "patcher_ApplyReversePatches E s fromObj otherObj rps nr r =
    (if (b \<noteq> None \<or> a \<noteq> None) \<and> \<not> deep_equal (nil_value b) (nil_value a) then
       bind_io (wrap_io ''update reverse status'' (StatusUpdate (fromClient s) p)) (\<lambda>_.
         return_io ResultUpdatedStatusOnly)
     else if \<not> deep_equal (drop_status b fromObj) (drop_status a p) then
       bind_io (wrap_io ''update reverse'' (Update (fromClient s) (drop_status a p))) (\<lambda>_.
         return_io ResultUpdated)
     else return_io ResultNone)"
  using assms by (rule ApplyReversePatches_sends)

definition reversed :: goval where
  "reversed = VMap [(''kind'', VStr ''Foo''), (''spec'', VMap [(''a'', VStr ''x''), (''b'', VStr ''x'')])]"

lemma reverse_patches_send_at_most_one_example:
  "patcher_ApplyReversePatches codec demo_patcher sample other [Some (copy_patch [''spec'', ''b''] [''m'', ''k''])]
     no_resolver () [] = (Inr ResultUpdated, [(''update'', reversed)])"
proof -
  have "ApplyPatches codec sample (Some other) [Some (copy_patch [''spec'', ''b''] [''m'', ''k''])] [] no_resolver ()
      = Inr (reversed, ())" "status_of sample = Inr None" "status_of reversed = Inr None"
    "\<not> deep_equal sample reversed" by code_simp+
  moreover have "statusIsSubresource demo_patcher" by (simp add: demo_patcher_def)
  ultimately show ?thesis
    using reverse_patches_send_at_most_one [of codec sample other _ no_resolver "()" reversed "()" None None demo_patcher]
    by (simp add: drop_status_def bind_io_def wrap_io_def return_io_def demo_patcher_def demo_ctx_def log_client_def)
qed

section \<open>Deciding what to do\<close>



text \<open>C29. The selector of a mapping works the wrong way round: an object the selector selects is never created
  in the host cluster, and its existing host object is deleted.\<close>

theorem selected_objects_are_not_synced:
  assumes "fv_selector f = Some sel" "Matches sel (GetLabels vObj)" "\<not> isControlled vObj"
  shows "SyncDown E ctx f vObj w = (Inr done_result, w)
    \<and> (\<not> fv_isExcluded ctx f pObj \<longrightarrow>
       Sync E ctx nc f pObj vObj = bind_io (Delete (PhysicalClient ctx) pObj) (\<lambda>_. return_io done_result))"
proof -
  have "\<not> objectMatches f vObj" using assms(1,2) by (simp add: objectMatches_def)
  then show ?thesis using SyncDown_skips [of vObj f] Sync_deletes [of vObj ctx f] assms(3) by blast
qed

theorem selected_objects_are_not_synced_witness:
  "SyncDown codec demo_ctx (demo_syncer (Some (SelectEqual []))) web_object [] = (Inr done_result, [])"
proof (rule selected_objects_are_not_synced [THEN conjunct1])
  show "fv_selector (demo_syncer (Some (SelectEqual []))) = Some (SelectEqual [])" by (simp add: demo_syncer_def)
  show "Matches (SelectEqual []) (GetLabels web_object)" by code_simp
  show "\<not> isControlled web_object" by code_simp
qed

section \<open>Objects in the host cluster\<close>



lemma synced_labels:
  assumes "obj_ok vObj"
  shows "GetLabels (fv_TranslateMetadata ctx f vObj) =
    Some (AList.update controlledByLabel (fv_getControllerID ctx f) (translateLabels (ClusterSuffix ctx) vObj))"
  using translated_meta [OF assms, of "ClusterSuffix ctx" "TargetNamespace ctx"]
  by (simp add: fv_TranslateMetadata_def Let_def SetLabels_def accessors_meta(3) meta_rules)


definition labelled_app :: goval where
  "labelled_app = VMap [(''metadata'', VMap [(''name'', VStr ''web''), (''namespace'', VStr ''default''),
     (''labels'', VMap [(''app'', VStr ''web'')])])]"


section \<open>Objects brought back\<close>

text \<open>C23. Once a host object is annotated with its virtual name, it translates to this name, whatever the name
  cache says later; without the annotations it is unmarked again.\<close>

theorem annotations_keep_the_virtual_name:
  assumes "obj_ok pObj" "Name vNN \<noteq> []" "Namespace vNN \<noteq> []"
  shows "bs_PhysicalToVirtual ctx nc b req (Some (with_annotations json (OptionsName ctx) vNN ms pObj)) = Inr vNN
    \<and> \<not> containsBackSyncNameAnnotations ctx
        (without_markers (with_annotations json (OptionsName ctx) vNN ms pObj))"
proof -
  have "obj_ok (with_annotations json (OptionsName ctx) vNN ms pObj)"
    using assms(1) by (simp add: with_annotations_def Let_def SetAnnotations_def obj_ok_rules)
  then show ?thesis using annotated_round_trip [OF assms] without_markers_forgets by blast
qed

definition demo_back :: "SyncBack \<Rightarrow> requests backSyncController" where
  "demo_back c = \<lparr>bs_patcher = demo_patcher, bs_parentGVK = \<lparr>Group = [], Version = ''v1'', GVKKind = ''Foo''\<rparr>,
     bs_config = c, bs_targetNamespace = ''host''\<rparr>"

definition bar_sync_back :: SyncBack where
  "bar_sync_back = \<lparr>APIVersion = ''v1'', Kind = ''Bar'', ID = [], Patches = [], ReversePatches = [],
     Selectors = [Some \<lparr>SelName = Some \<lparr>RewrittenPath = ''$.spec.bar''\<rparr>\<rparr>]\<rparr>"

theorem annotations_keep_the_virtual_name_witness:
  "bs_PhysicalToVirtual demo_ctx (emptyNameCache :: unit nameCache) (demo_back bar_sync_back) emptyNN
     (Some (with_annotations (\<lambda>m. ''{}'') ''vc'' web_nn None web_object)) = Inr web_nn"
proof -
  have "Name web_nn \<noteq> []" "Namespace web_nn \<noteq> []" "OptionsName demo_ctx = ''vc''"
    by (simp_all add: web_nn_def demo_ctx_def)
  then show ?thesis
    using annotations_keep_the_virtual_name [OF web_object_ok, of web_nn demo_ctx "emptyNameCache :: unit nameCache"]
    by auto
qed

text \<open>The virtual object made from a host object has the virtual name the host object stands for, is owned by
  the back syncer, so that later events on it are handled, and does not look like a host object itself.\<close>

lemma brought_back_object_is_own:
  assumes "obj_ok pObj" "bs_translateMetadata ctx nc b pObj = Inr vObj"
  shows "(\<exists>vNN. bs_PhysicalToVirtual ctx nc b (object_nn pObj) (Some pObj) = Inr vNN \<and> Name vNN \<noteq> []
        \<and> object_nn vObj = vNN)
    \<and> \<not> bs_isExcluded ctx b vObj \<and> \<not> containsBackSyncNameAnnotations ctx vObj"
  using bs_translateMetadata_effect [OF assms] by (auto simp: object_nn_def)

lemma web_annotated:
  "bs_PhysicalToVirtual demo_ctx nc b req (Some (with_annotations (\<lambda>m. ''{}'') ''vc'' web_nn None web_object)) = Inr web_nn"
  using annotated_round_trip [OF web_object_ok, of web_nn demo_ctx] by (simp add: web_nn_def demo_ctx_def)

lemma brought_back_object_is_own_example:
  "\<exists>vObj. bs_translateMetadata demo_ctx (emptyNameCache :: unit nameCache) (demo_back bar_sync_back)
      (with_annotations (\<lambda>m. ''{}'') ''vc'' web_nn None web_object) = Inr vObj \<and> object_nn vObj = web_nn
      \<and> \<not> bs_isExcluded demo_ctx (demo_back bar_sync_back) vObj"
proof -
  let ?p = "with_annotations (\<lambda>m. ''{}'') ''vc'' web_nn None web_object"
  obtain vObj where v: "bs_translateMetadata demo_ctx (emptyNameCache :: unit nameCache) (demo_back bar_sync_back) ?p = Inr vObj"
    by (simp add: bs_translateMetadata_def web_annotated web_nn_def [THEN arg_cong, of Name] Let_def)
  have "obj_ok ?p" using web_object_ok by (simp add: with_annotations_def Let_def SetAnnotations_def obj_ok_rules)
  from brought_back_object_is_own [OF this v] v show ?thesis by (auto simp: web_annotated)
qed

text \<open>A virtual object of another controller is never touched by the back syncer: no handler and no event
  sends a request or enqueues anything for it.\<close>

lemma foreign_objects_are_untouched:
  assumes "bs_isExcluded ctx b vObj"
  shows "syncDown ctx b vObj w = (Inr done_result, w)
    \<and> bs_sync E J ctx nc b pObj vObj w = (Inr done_result, w)
    \<and> on_virtual_event ctx b add (DeleteEvent (Some vObj)) w = (Inr (), w)
    \<and> on_virtual_event ctx b add (UpdateEvent old (Some vObj)) w = (Inr (), w)"
  using bs_excluded_untouched [OF assms] by simp

lemma foreign_objects_are_untouched_example:
  "syncDown demo_ctx (demo_back bar_sync_back) web_object [] = (Inr done_result, [])"
  by (rule foreign_objects_are_untouched [THEN conjunct1])
    (simp add: bs_isExcluded_def has_controller_def web_object_def GetLabels_def NestedStringMap_def nested_def)

text \<open>C18. When bringing a host object back fails at its patches, the annotations written before are taken off
  again, and the error is reported after that.\<close>

theorem failed_patches_roll_back:
  assumes "\<not> containsBackSyncNameAnnotations ctx pObj" "Name vNN \<noteq> []"
    and "bs_PhysicalToVirtual ctx nc b (object_nn pObj) (Some pObj) = Inr vNN"
    and "addAnnotationsToPhysicalObject (encode_mappings J) ctx pObj vNN None w = (Inr pObj1, w1)"
    and "patcher_ApplyPatches E (bs_patcher b) pObj1 None (Patches (bs_config b)) (ReversePatches (bs_config b))
      (bs_translateMetadata ctx nc b) (memorizingHostToVirtualNameResolver nc (bs_parentGVK b)) None w1
      = (Inl (Err e), w2)"
    and "send_patch (PhysicalClient ctx) pObj1 (without_markers pObj1) w2 = (r, w3)" "\<forall>p. r \<noteq> panic p"
  shows "syncUp E J ctx nc b pObj w = (Inl (Err (Plain (''error applying patches: '' @ error_text e))), w3)"
proof -
  obtain r' where undo: "attempt (removeAnnotationsFromPhysicalObject ctx pObj1) w2 = (Inr r', w3)"
  proof (cases r)
    case (Inl e')
    with assms(6,7) that show thesis by (cases e') (auto simp: removeAnnotationsFromPhysicalObject_def attempt_def)
  qed (use assms(6) that in \<open>auto simp: removeAnnotationsFromPhysicalObject_def attempt_def\<close>)
  let ?apply = "patcher_ApplyPatches E (bs_patcher b) pObj1 None (Patches (bs_config b)) (ReversePatches (bs_config b))
      (bs_translateMetadata ctx nc b) (memorizingHostToVirtualNameResolver nc (bs_parentGVK b)) None"
  have go: "attempt ?apply w1 = (Inr (Inl e), w2)" by (rule attempt_simps(2)) (rule assms(5))
  show ?thesis
    unfolding syncUp_def if_not_P [OF assms(1)] assms(3) io_laws(2) if_not_P [OF assms(2)]
    by (simp add: bind_io_def assms(4) go undo throw_io_def)
qed

definition no_codec :: external where
  "no_codec = codec\<lparr>json_Marshal := (\<lambda>v. Inl (Plain ''unsupported value''))\<rparr>"

definition no_mappings :: mappings_json where
  "no_mappings = \<lparr>encode_mappings = (\<lambda>m. ''{}''), decode_mappings = (\<lambda>s. None)\<rparr>"

definition name_sync_back :: SyncBack where
  "name_sync_back = bar_sync_back\<lparr>Selectors := [Some \<lparr>SelName = Some \<lparr>RewrittenPath = []\<rparr>\<rparr>]\<rparr>"

definition host_web :: goval where
  "host_web = VMap [(''metadata'', VMap [(''name'', VStr ''web-x-default-x-vc'')])]"

abbreviation marked_web :: goval where
  "marked_web \<equiv> with_annotations (\<lambda>m. ''{}'') ''vc'' web_nn None host_web"

lemma host_web_ok: "obj_ok host_web"
  by (simp add: obj_ok_iff host_web_def)

lemma host_web_changes:
  "deep_equal host_web marked_web = False" "deep_equal marked_web (without_markers marked_web) = False"
  by code_simp+

theorem failed_patches_roll_back_witness:
  "\<exists>e. syncUp no_codec no_mappings demo_ctx (fst web_state) (demo_back name_sync_back) host_web []
    = (Inl (Err (Plain (''error applying patches: '' @ error_text e))),
       [(''patch'', marked_web), (''patch'', without_markers marked_web)])"
proof -
  let ?b = "demo_back name_sync_back"
  have p: "\<not> containsBackSyncNameAnnotations demo_ctx host_web"
    by (simp add: containsBackSyncNameAnnotations_def host_web_def GetAnnotations_def NestedStringMap_def nested_def)
  have sel: "select_name (fst web_state) (bs_parentGVK ?b) ''web-x-default-x-vc'' (Selectors (bs_config ?b)) = Inr web_nn"
    by code_simp
  have v: "bs_PhysicalToVirtual demo_ctx (fst web_state) ?b (object_nn host_web) (Some host_web) = Inr web_nn"
    using p sel by (simp add: bs_PhysicalToVirtual_def object_nn_def host_web_def GetName_def getNestedString_def nested_def)
  have add: "addAnnotationsToPhysicalObject (encode_mappings no_mappings) demo_ctx host_web web_nn None []
      = (Inr marked_web, [(''patch'', marked_web)])"
    by (simp add: addAnnotationsToPhysicalObject_def send_patch_def no_mappings_def host_web_changes demo_ctx_def log_client_def)
  have undo: "send_patch (PhysicalClient demo_ctx) marked_web (without_markers marked_web) [(''patch'', marked_web)]
      = (Inr (without_markers marked_web), [(''patch'', marked_web), (''patch'', without_markers marked_web)])"
    by (simp add: send_patch_def host_web_changes demo_ctx_def log_client_def)
  have "bs_PhysicalToVirtual demo_ctx (fst web_state) ?b (object_nn marked_web) (Some marked_web) = Inr web_nn"
    using annotated_round_trip [OF host_web_ok, of web_nn demo_ctx "fst web_state"]
    by (simp add: web_nn_def demo_ctx_def)
  then obtain t where t: "bs_translateMetadata demo_ctx (fst web_state) ?b marked_web = Inr t"
    by (simp add: bs_translateMetadata_def web_nn_def [THEN arg_cong, of Name] Let_def)
  obtain e where "patcher_ApplyPatches no_codec (bs_patcher ?b) marked_web None (Patches (bs_config ?b)) (ReversePatches (bs_config ?b))
      (bs_translateMetadata demo_ctx (fst web_state) ?b)
      (memorizingHostToVirtualNameResolver (fst web_state) (bs_parentGVK ?b)) None [(''patch'', marked_web)]
      = (Inl (Err e), [(''patch'', marked_web)])"
    by (simp add: patcher_ApplyPatches_def t toUnstructured_def ApplyPatches_def NewJSONNode_def no_codec_def io_simps_basic)
  then show ?thesis
    using failed_patches_roll_back [OF p _ v add _ undo] by (auto simp: web_nn_def)
qed

text \<open>C17. What a reconcile of the back syncer does, in every case of which of the two objects exist. A host object
  without a virtual name is left alone, as are virtual objects of another controller; an owned virtual
  object whose host object is gone is deleted; a host object whose virtual object was deleted, which
  its annotations tell, is deleted. No other request is sent in these cases.\<close>

theorem back_reconcile_decides:
  assumes "get_optional (PhysicalClient ctx) req w = (Inr p, w1)"
    and "bs_PhysicalToVirtual ctx nc b req p = Inr vNN"
    and "Name vNN \<noteq> [] \<Longrightarrow> get_optional (VirtualClient ctx) vNN w1 = (Inr v, w2)"
  shows "(Name vNN = [] \<longrightarrow> bs_Reconcile E J ctx nc b req w = (Inr done_result, w1))
    \<and> (Name vNN \<noteq> [] \<and> v = None \<and> p = None \<longrightarrow> bs_Reconcile E J ctx nc b req w = (Inr done_result, w2))
    \<and> (\<forall>vo. Name vNN \<noteq> [] \<and> v = Some vo \<and> bs_isExcluded ctx b vo \<longrightarrow>
         bs_Reconcile E J ctx nc b req w = (Inr done_result, w2))
    \<and> (\<forall>vo. Name vNN \<noteq> [] \<and> v = Some vo \<and> p = None \<and> \<not> bs_isExcluded ctx b vo \<longrightarrow>
         (case Delete (VirtualClient ctx) vo w2 of
            (Inr _, w3) \<Rightarrow> bs_Reconcile E J ctx nc b req w = (Inr done_result, w3)
          | (Inl (Err e), w3) \<Rightarrow> bs_Reconcile E J ctx nc b req w =
              (if IsNotFound e then Inr done_result else Inl (Err e), w3)
          | (Inl (Panic f), w3) \<Rightarrow> bs_Reconcile E J ctx nc b req w = (panic f, w3)))
    \<and> (\<forall>po. Name vNN \<noteq> [] \<and> v = None \<and> p = Some po \<and> containsBackSyncNameAnnotations ctx po \<longrightarrow>
         (case Delete (PhysicalClient ctx) po w2 of
            (Inr _, w3) \<Rightarrow> bs_Reconcile E J ctx nc b req w = (Inr done_result, w3)
          | (Inl (Err e), w3) \<Rightarrow> bs_Reconcile E J ctx nc b req w =
              (Inl (Err (Plain (''error deleting object: '' @ error_text e))), w3)
          | (Inl (Panic f), w3) \<Rightarrow> bs_Reconcile E J ctx nc b req w = (panic f, w3)))"
proof -
  have skip: "Name vNN = [] \<Longrightarrow> bs_Reconcile E J ctx nc b req w = (Inr done_result, w1)"
    by (simp add: bs_Reconcile_def bind_io_def assms(1,2) lift_io_def return_io_def)
  have go: "bs_Reconcile E J ctx nc b req w = (case (v, p) of
      (Some v, None) \<Rightarrow> syncDown ctx b v w2
    | (Some v, Some p) \<Rightarrow> bs_sync E J ctx nc b p v w2
    | (None, Some p) \<Rightarrow> syncUp E J ctx nc b p w2
    | (None, None) \<Rightarrow> (Inr done_result, w2))" if "Name vNN \<noteq> []"
    using that assms(3) [OF that]
    by (auto simp: bs_Reconcile_def bind_io_def assms(1,2) lift_io_def return_io_def split: option.splits)
  note outcome = bind_io_def attempt_def return_io_def throw_io_def
  note splits = prod.splits sum.splits fault.splits
  show ?thesis
  proof (cases "Name vNN = []")
    case True
    with skip show ?thesis by simp
  next
    case False
    show ?thesis
    proof (cases v)
      case None
      with go [OF False] False show ?thesis
        by (cases p) (auto simp: syncUp_def outcome split: splits)
    next
      case (Some vo)
      with go [OF False] False bs_excluded_untouched(1,2) [of ctx b vo] show ?thesis
        by (cases p; cases "bs_isExcluded ctx b vo")
          (auto simp: syncDown_def deleteVirtualObject_def outcome split: splits if_splits)
    qed
  qed
qed

definition owned_web :: goval where
  "owned_web = VMap [(''metadata'', VMap [(''name'', VStr ''web''), (''namespace'', VStr ''default''),
     (''labels'', VMap [(controlledByLabel, VStr ''plugin'')])])]"

definition owned_ctx :: "requests RegisterContext" where
  "owned_ctx = demo_ctx\<lparr>VirtualClient := log_client (\<lambda>nn. if nn = web_nn then Some owned_web else None)\<rparr>"

theorem back_reconcile_decides_witness:
  "bs_Reconcile no_codec no_mappings owned_ctx (fst web_state) (demo_back name_sync_back)
     \<lparr>Namespace = ''host'', Name = ''web-x-default-x-vc''\<rparr> [] = (Inr done_result, [(''delete'', owned_web)])"
proof -
  let ?b = "demo_back name_sync_back" and ?req = "\<lparr>Namespace = ''host'', Name = ''web-x-default-x-vc''\<rparr>"
  have p: "get_optional (PhysicalClient owned_ctx) ?req [] = (Inr None, [])"
    by (simp add: get_optional_def bind_io_def attempt_def return_io_def owned_ctx_def demo_ctx_def log_client_def IsNotFound_def)
  have sel: "select_name (fst web_state) (bs_parentGVK ?b) ''web-x-default-x-vc'' (Selectors (bs_config ?b)) = Inr web_nn"
    by code_simp
  then have n: "bs_PhysicalToVirtual owned_ctx (fst web_state) ?b ?req None = Inr web_nn"
    by (simp add: bs_PhysicalToVirtual_def)
  have v: "get_optional (VirtualClient owned_ctx) web_nn [] = (Inr (Some owned_web), [])"
    by (simp add: get_optional_def bind_io_def attempt_def return_io_def owned_ctx_def log_client_def)
  have o': "\<not> bs_isExcluded owned_ctx ?b owned_web"
    by (simp add: bs_isExcluded_def has_controller_def bs_getControllerID_def controller_id_def owned_ctx_def
        demo_ctx_def demo_back_def name_sync_back_def bar_sync_back_def owned_web_def GetLabels_def
        NestedStringMap_def nested_def str_at_def GetPluginName_def)
  have d: "Delete (VirtualClient owned_ctx) owned_web [] = (Inr (), [(''delete'', owned_web)])"
    by (simp add: owned_ctx_def log_client_def)
  have "Name web_nn \<noteq> []" by (simp add: web_nn_def)
  with back_reconcile_decides [OF p n v] o' d show ?thesis by simp
qed

section \<open>Forced syncs\<close>


definition demo_force :: "ForceSyncConfig list \<Rightarrow> requests forceSyncController" where
  "demo_force cs = \<lparr>fsGVK = \<lparr>Group = [], Version = ''v1'', GVKKind = ''Secret''\<rparr>, fsConfig = cs,
     fsClient = VirtualClient demo_ctx\<rparr>"


end
