(* ===== verification/HookFlow.thy ===== *)
theory HookFlow
  imports ForceSync CacheHandler
begin

text \<open>
  From the informers to the work queues: the hooks a controller puts into the name cache run for
  the entries an object contributes, so an event on a virtual object enqueues the host objects (or
  the virtual Secrets and ConfigMaps) it refers to.
\<close>

section \<open>Hooks of a kind\<close>

lemma executeHooks_sub_map:
  "executeHooks n gvk i name k v w = (case sub_map (hooks n) gvk i of None \<Rightarrow> w
     | Some hs \<Rightarrow> fold (\<lambda>hook. hook name k v) hs w)"
  by (auto simp: executeHooks_def sub_map_def split: option.splits)

lemma AddChangeHook_hooks:
  "sub_map (hooks (AddChangeHook gvk i f n)) g j =
     (if g = gvk \<and> j = i then Some ((case sub_map (hooks n) gvk i of None \<Rightarrow> [] | Some hs \<Rightarrow> hs) @ [f])
      else sub_map (hooks n) g j)"
  by (auto simp: AddChangeHook_def Let_def sub_map_def split: option.splits)

lemma AddChangeHook_state:
  "objects (AddChangeHook gvk i f n) = objects n" "indices (AddChangeHook gvk i f n) = indices n"
  by (simp_all add: AddChangeHook_def Let_def)

lemma cache_inv_cong:
  "objects n' = objects n \<Longrightarrow> indices n' = indices n \<Longrightarrow> cache_inv (n', w') \<longleftrightarrow> cache_inv (n, w)"
  by (simp add: cache_inv_def stored_ok_def indexed_def contrib_def GetByIndex_def)

text \<open>When only one index has hooks, the entries of the other indices notify nobody.\<close>

lemma notify_one_index:
  assumes "\<And>j. j \<noteq> i \<Longrightarrow> sub_map (hooks n) gvk j = None" "j \<noteq> i"
  shows "notify n gvk name (im_pairs [(j, xs), (i, ys)]) w =
    fold (\<lambda>(k, v). executeHooks n gvk i name k v) ys w"
proof -
  have skip: "fold (\<lambda>(i, k, v). executeHooks n gvk i name k v) (map (\<lambda>kv. (j, kv)) zs) w = w" for zs
    using assms(1) [OF assms(2)] by (induction zs) (auto simp: executeHooks_sub_map)
  have keep: "fold (\<lambda>(i, k, v). executeHooks n gvk i name k v) (map (\<lambda>kv. (i, kv)) zs) w
      = fold (\<lambda>(k, v). executeHooks n gvk i name k v) zs w" for zs w
    by (induction zs arbitrary: w) auto
  have "im_pairs [(j, xs), (i, ys)] = map (\<lambda>kv. (j, kv)) xs @ map (\<lambda>kv. (i, kv)) ys"
    by (simp add: im_pairs_def)
  then show ?thesis by (simp only: notify_def fold_append comp_apply skip keep)
qed

section \<open>Events of the informers\<close>

text \<open>An object the cache has not seen notifies the hooks of its references by path.\<close>

lemma OnAdd_notifies:
  assumes "cache_inv (n, w)" "sub_map (objects n) (handler_gvk c) (object_key obj) = None"
    and "\<And>j. j \<noteq> IndexPhysicalToVirtualNamePath \<Longrightarrow> sub_map (hooks n) (handler_gvk c) j = None"
    and "mappingsFromVirtualObject E Suffix obj (handler_mapping c) = Inr (names, paths)"
  shows "\<exists>n'. OnAdd E Suffix c (UnstructuredObj obj) (n, w) = Inr (n',
    fold (\<lambda>(k, v). executeHooks n (handler_gvk c) IndexPhysicalToVirtualNamePath (object_key obj) k v) paths w)"
proof -
  let ?im = "index_mappings obj (names, paths)"
  have wf: "wf_mappings ?im" using index_mappings_wf [OF mappings_ok [OF assms(4)]] .
  have new: "\<not> unchanged n (handler_gvk c) ?im"
    using assms(2) by (simp add: unchanged_def index_mappings_def)
  have "snd (ExchangeMapping (handler_gvk c) ?im (n, w)) =
      notify n (handler_gvk c) (object_key obj) (im_pairs (IMMappings ?im)) w"
    using ExchangeMapping_effect(4) [OF assms(1) wf new refl] assms(2) by (simp add: index_mappings_def)
  then have "snd (ExchangeMapping (handler_gvk c) ?im (n, w)) =
      fold (\<lambda>(k, v). executeHooks n (handler_gvk c) IndexPhysicalToVirtualNamePath (object_key obj) k v) paths w"
    using notify_one_index [where i = IndexPhysicalToVirtualNamePath and j = IndexPhysicalToVirtualName
        and n = n and gvk = "handler_gvk c", OF assms(3)] by (simp add: index_mappings_def)
  then show ?thesis
    using assms(4) by (simp add: OnAdd_def) (metis prod.collapse)
qed

section \<open>Back syncers\<close>

text \<open>What a selector of a back syncer enqueues for a reference to a host name by a path.\<close>

definition selector_enqueues ::
  "string \<Rightarrow> (NamespacedName \<Rightarrow> 'h \<Rightarrow> 'h) \<Rightarrow> string \<Rightarrow> string \<Rightarrow> SyncBackSelector option \<Rightarrow> 'h \<Rightarrow> 'h" where
  "selector_enqueues ns add host path sel = (case SelName (the sel) of
     None \<Rightarrow> id
   | Some s \<Rightarrow> if RewrittenPath s = [] \<or> path = RewrittenPath s
       then add \<lparr>Namespace = ns, Name = host\<rparr> else id)"

lemma bs_Start_hooks:
  assumes "None \<notin> set (Selectors (bs_config b))"
  shows "\<exists>n'. bs_Start b add n = Inr n' \<and> objects n' = objects n \<and> indices n' = indices n
    \<and> (\<forall>j. j \<noteq> IndexPhysicalToVirtualNamePath \<longrightarrow> sub_map (hooks n') (bs_parentGVK b) j = sub_map (hooks n) (bs_parentGVK b) j)
    \<and> (\<forall>name host path v w. name \<noteq> [] \<longrightarrow> CHR ''/'' \<notin> set host \<longrightarrow>
         executeHooks n' (bs_parentGVK b) IndexPhysicalToVirtualNamePath name (host @ ''/'' @ path) v w =
         fold (selector_enqueues (bs_targetNamespace b) add host path) (Selectors (bs_config b))
           (executeHooks n (bs_parentGVK b) IndexPhysicalToVirtualNamePath name (host @ ''/'' @ path) v w))"
proof -
  let ?i = IndexPhysicalToVirtualNamePath and ?g = "bs_parentGVK b"
  let ?step = "\<lambda>sel nc. case sel of None \<Rightarrow> panic NilDereference
       | Some s \<Rightarrow> (case SelName s of None \<Rightarrow> Inr nc
           | Some n \<Rightarrow> Inr (AddChangeHook ?g ?i (back_sync_hook (bs_targetNamespace b) (RewrittenPath n) add) nc))"
  have "\<exists>n'. fold_result ?step sels n = Inr n' \<and> objects n' = objects n \<and> indices n' = indices n
    \<and> (\<forall>j. j \<noteq> ?i \<longrightarrow> sub_map (hooks n') ?g j = sub_map (hooks n) ?g j)
    \<and> (\<forall>name host path v w. name \<noteq> [] \<longrightarrow> CHR ''/'' \<notin> set host \<longrightarrow>
         executeHooks n' ?g ?i name (host @ ''/'' @ path) v w =
         fold (selector_enqueues (bs_targetNamespace b) add host path) sels
           (executeHooks n ?g ?i name (host @ ''/'' @ path) v w))"
    if "None \<notin> set sels" for sels n
    using that
  proof (induction sels arbitrary: n)
    case (Cons sel sels)
    then obtain s where s: "sel = Some s" by (cases sel) auto
    show ?case
    proof (cases "SelName s")
      case None
      with s Cons show ?thesis by (simp add: selector_enqueues_def)
    next
      case (Some p)
      let ?h = "back_sync_hook (bs_targetNamespace b) (RewrittenPath p) add"
      have ex: "executeHooks (AddChangeHook ?g ?i ?h n) ?g ?i name (host @ ''/'' @ path) v w =
          selector_enqueues (bs_targetNamespace b) add host path sel (executeHooks n ?g ?i name (host @ ''/'' @ path) v w)"
        if "name \<noteq> []" "CHR ''/'' \<notin> set host" for name host path v w
        using back_sync_hook_adds [OF that, of "bs_targetNamespace b" "RewrittenPath p" add path v] s Some
        by (auto simp: executeHooks_sub_map AddChangeHook_hooks selector_enqueues_def split: option.splits)
      have nn: "None \<notin> set sels" using Cons.prems by simp
      from Cons.IH [OF nn, of "AddChangeHook ?g ?i ?h n"] s Some show ?thesis
        by (auto simp: AddChangeHook_state AddChangeHook_hooks ex [simplified])
    qed
  qed simp
  from this [OF assms] show ?thesis by (simp add: bs_Start_def)
qed

lemma bs_Start_runs:
  assumes "bs_Start b add n = Inr n'" "None \<notin> set (Selectors (bs_config b))"
  shows "objects n' = objects n" "indices n' = indices n"
    and "j \<noteq> IndexPhysicalToVirtualNamePath \<Longrightarrow>
      sub_map (hooks n') (bs_parentGVK b) j = sub_map (hooks n) (bs_parentGVK b) j"
    and "name \<noteq> [] \<Longrightarrow> CHR ''/'' \<notin> set host \<Longrightarrow>
      executeHooks n' (bs_parentGVK b) IndexPhysicalToVirtualNamePath name (host @ ''/'' @ path) v w =
      fold (selector_enqueues (bs_targetNamespace b) add host path) (Selectors (bs_config b))
        (executeHooks n (bs_parentGVK b) IndexPhysicalToVirtualNamePath name (host @ ''/'' @ path) v w)"
proof -
  note all = bs_Start_hooks [OF assms(2), of add n, unfolded assms(1) sum.inject simp_thms]
  show "objects n' = objects n" by (rule all [THEN conjunct1])
  show "indices n' = indices n" by (rule all [THEN conjunct2, THEN conjunct1])
  show "sub_map (hooks n') (bs_parentGVK b) j = sub_map (hooks n) (bs_parentGVK b) j"
    if "j \<noteq> IndexPhysicalToVirtualNamePath"
    using that by (rule all [THEN conjunct2, THEN conjunct2, THEN conjunct1, rule_format])
  show "executeHooks n' (bs_parentGVK b) IndexPhysicalToVirtualNamePath name (host @ ''/'' @ path) v w =
      fold (selector_enqueues (bs_targetNamespace b) add host path) (Selectors (bs_config b))
        (executeHooks n (bs_parentGVK b) IndexPhysicalToVirtualNamePath name (host @ ''/'' @ path) v w)"
    if "name \<noteq> []" "CHR ''/'' \<notin> set host"
    using that by (rule all [THEN conjunct2, THEN conjunct2, THEN conjunct2, rule_format])
qed

lemma fold_refs_cong:
  "(\<And>host path v w. (host, path, v) \<in> set refs \<Longrightarrow> f (host @ ''/'' @ path) v w = g host path w) \<Longrightarrow>
     fold (\<lambda>(k, v). f k v) (map (\<lambda>(host, path, v). (host @ ''/'' @ path, v)) refs) w =
     fold (\<lambda>(host, path, v). g host path) refs w"
  by (induction refs arbitrary: w) auto

section \<open>The force-sync controllers\<close>

lemma executeHooks_AddChangeHook:
  "executeHooks (AddChangeHook g i h n) gvk i name k v w =
     (if gvk = g then h name k v (executeHooks n gvk i name k v w) else executeHooks n gvk i name k v w)"
  by (auto simp: executeHooks_sub_map AddChangeHook_hooks split: option.splits)

text \<open>One hook registered for many kinds runs once for every registration of the kind.\<close>

lemma shared_hook_runs:
  "executeHooks (fold (\<lambda>c. AddChangeHook (g c) i h) cs n) gvk i name k v w =
     (h name k v ^^ length (filter (\<lambda>c. g c = gvk) cs)) (executeHooks n gvk i name k v w)"
proof (induction cs arbitrary: n w)
  case (Cons c cs)
  then show ?case by (simp add: executeHooks_AddChangeHook funpow_swap1 del: funpow.simps) (auto simp: funpow_swap1)
qed simp

lemma fs_Start_runs:
  assumes "name \<noteq> []" "CHR ''/'' \<notin> set host"
  shows "executeHooks (fs_Start f add n) gvk IndexPhysicalToVirtualNamePath name (host @ ''/'' @ path) v w =
    (if path = Path (fsPatch (last (fsConfig f))) \<and> Name (StringToNamespacedName v) \<noteq> []
     then (add (StringToNamespacedName v) ^^ length (filter (\<lambda>c. parent_gvk c = gvk) (fsConfig f)))
        (executeHooks n gvk IndexPhysicalToVirtualNamePath name (host @ ''/'' @ path) v w)
     else executeHooks n gvk IndexPhysicalToVirtualNamePath name (host @ ''/'' @ path) v w)"
proof -
  have skip: "((\<lambda>w. w) ^^ k) w = w" for k and w :: 'a by (induction k) auto
  have "force_sync_hook p add name (host @ ''/'' @ path) v =
      (if path = p \<and> Name (StringToNamespacedName v) \<noteq> [] then add (StringToNamespacedName v) else (\<lambda>w. w))" for p
    using force_sync_hook_adds [OF assms, of p add path v] by (auto simp: fun_eq_iff)
  note hook = this [of "Path (fsPatch (last (fsConfig f)))"]
  show ?thesis unfolding fs_Start_def shared_hook_runs hook by (simp add: skip)
qed

end
