(* ===== verification/PluginProperties.thy ===== *)
theory PluginProperties
  imports SyncProperties HookFlow PluginMain BlockingClient
begin

text \<open>
  The properties that join several parts: an informer's event reaching a controller's queue through
  the hooks of the name cache, and the controllers and informers \<^verbatim>\<open>main\<close> creates from a configuration.
\<close>

section \<open>From the informer to the work queue\<close>

text \<open>C21. When a back syncer has started, a virtual object the informer reports for the first time enqueues the
  host objects its references name, in the back syncer's target namespace: every reference goes through
  every selector, and a selector takes those of its path (all of them when it names no path).\<close>

theorem reference_changes_reach_the_back_syncer:
  assumes "bs_Start b add nc = Inr n" "hooks nc = (\<lambda>_. None)" "cache_inv (nc, w)"
    and "handler_gvk c = bs_parentGVK b" "None \<notin> set (Selectors (bs_config b))"
    and "sub_map (objects nc) (handler_gvk c) (object_key obj) = None"
    and "mappingsFromVirtualObject E Suffix obj (handler_mapping c) = Inr m"
    and "snd m = map (\<lambda>(host, path, v). (host @ ''/'' @ path, v)) refs"
    and "\<forall>(host, path, v) \<in> set refs. CHR ''/'' \<notin> set host"
  shows "\<exists>n'. OnAdd E Suffix c (UnstructuredObj obj) (n, w) = Inr (n',
    fold (\<lambda>(host, path, v). fold (selector_enqueues (bs_targetNamespace b) add host path) (Selectors (bs_config b))) refs w)"
proof -
  note started = bs_Start_runs [OF assms(1,5)]
  have none: "sub_map (hooks nc) g j = None" for g j using assms(2) by (simp add: sub_map_def)
  have inv: "cache_inv (n, w)" using cache_inv_cong [OF started(1,2)] assms(3) by blast
  have seen: "sub_map (objects n) (handler_gvk c) (object_key obj) = None" by (simp only: started(1) assms(6))
  have one: "sub_map (hooks n) (handler_gvk c) j = None" if "j \<noteq> IndexPhysicalToVirtualNamePath" for j
    by (simp only: assms(4) started(3) [OF that] none)
  have m: "mappingsFromVirtualObject E Suffix obj (handler_mapping c) = Inr (fst m, snd m)"
    by (simp only: prod.collapse assms(7))
  note added = OnAdd_notifies [OF inv seen one m]
  have key: "object_key obj \<noteq> []" by (simp add: object_key_def)
  have each: "executeHooks n (handler_gvk c) IndexPhysicalToVirtualNamePath (object_key obj) (host @ ''/'' @ path) v w
      = fold (selector_enqueues (bs_targetNamespace b) add host path) (Selectors (bs_config b)) w"
    if "(host, path, v) \<in> set refs" for host path v w
  proof -
    have "CHR ''/'' \<notin> set host" using assms(9) that by fast
    from started(4) [OF key this] show ?thesis by (simp only: assms(4) executeHooks_sub_map none option.case)
  qed
  have "fold (\<lambda>(k, v). executeHooks n (handler_gvk c) IndexPhysicalToVirtualNamePath (object_key obj) k v) (snd m) w
      = fold (\<lambda>(host, path, v). fold (selector_enqueues (bs_targetNamespace b) add host path) (Selectors (bs_config b))) refs w"
    unfolding assms(8) by (rule fold_refs_cong) (rule each)
  with added show ?thesis by simp
qed

definition queue_add :: "NamespacedName \<Rightarrow> NamespacedName list \<Rightarrow> NamespacedName list" where
  "queue_add nn queue = queue @ [nn]"

theorem reference_changes_reach_the_back_syncer_witness:
  "\<exists>n n'. bs_Start (demo_back name_sync_back) queue_add emptyNameCache = Inr n
     \<and> OnAdd codec ''vc'' foo_handler (UnstructuredObj web_object) (n, [])
       = Inr (n', [\<lparr>Namespace = ''host'', Name = ''web-x-default-x-vc''\<rparr>])"
proof -
  let ?b = "demo_back name_sync_back" and ?refs = "[(''web-x-default-x-vc'', ''metadata.name'', ''default/web'')]"
  obtain n where n: "bs_Start ?b queue_add emptyNameCache = Inr n"
    by (simp add: bs_Start_def demo_back_def name_sync_back_def bar_sync_back_def)
  have host: "PhysicalName ''vc'' ''web'' ''default'' = ''web-x-default-x-vc''"
    by (subst PhysicalName_short) (simp_all add: short_name_def)
  have m: "mappingsFromVirtualObject codec ''vc'' web_object (handler_mapping foo_handler)
      = Inr ([(''web-x-default-x-vc'', ''default/web'')], [(''web-x-default-x-vc/metadata.name'', ''default/web'')])"
    using host by (simp add: mappingsFromVirtualObject_def foo_handler_def no_patches_def add_reference_def
        addSingleMapping_def web_object_def GetName_def GetNamespace_def getNestedString_def nested_def)
  have "hooks (emptyNameCache :: NamespacedName list nameCache) = (\<lambda>_. None)"
    "sub_map (objects (emptyNameCache :: NamespacedName list nameCache)) (handler_gvk foo_handler) (object_key web_object) = None"
    "cache_inv (emptyNameCache :: NamespacedName list nameCache, [] :: NamespacedName list)"
    by (simp_all add: emptyNameCache_def sub_map_def cache.inv_empty no_objects_def)
  moreover have "handler_gvk foo_handler = bs_parentGVK ?b" "None \<notin> set (Selectors (bs_config ?b))"
    by (simp_all add: foo_handler_def foo_gvk_def demo_back_def name_sync_back_def bar_sync_back_def)
  ultimately have "\<exists>n'. OnAdd codec ''vc'' foo_handler (UnstructuredObj web_object) (n, []) = Inr (n',
      fold (\<lambda>(host, path, v). fold (selector_enqueues (bs_targetNamespace ?b) queue_add host path) (Selectors (bs_config ?b)))
        ?refs [])"
    using reference_changes_reach_the_back_syncer [OF n _ _ _ _ _ m, of "[]" ?refs] by simp
  with n show ?thesis
    by (simp add: selector_enqueues_def queue_add_def demo_back_def name_sync_back_def bar_sync_back_def)
qed

text \<open>C38. Every hook a force-sync controller registers looks for the path of its last configuration. A
  reference at that path enqueues the Secret or ConfigMap once for each configuration of the kind that
  holds the reference; references at the paths of the other configurations enqueue nothing.\<close>

theorem force_sync_hooks_share_a_path:
  assumes "hooks nc = (\<lambda>_. None)" "name \<noteq> []" "CHR ''/'' \<notin> set host"
  shows "executeHooks (fs_Start f add nc) gvk IndexPhysicalToVirtualNamePath name (host @ ''/'' @ path) v w =
    (if path = Path (fsPatch (last (fsConfig f))) \<and> Name (StringToNamespacedName v) \<noteq> []
     then (add (StringToNamespacedName v) ^^ length (filter (\<lambda>c. parent_gvk c = gvk) (fsConfig f))) w
     else w)"
  using assms(1) by (simp only: fs_Start_runs [OF assms(2,3)]) (simp add: executeHooks_sub_map sub_map_def)

definition path_config :: "string \<Rightarrow> ForceSyncConfig" where
  "path_config p = \<lparr>fsParent = no_patches, fsPatch = emptyPatch\<lparr>Operation := PatchTypeRewriteName, Path := p\<rparr>\<rparr>"

definition two_paths :: "requests forceSyncController" where
  "two_paths = CreateForceSyncController demo_ctx (core_v1 ''Secret'') [path_config ''spec.a'', path_config ''spec.b'']"

theorem force_sync_hooks_share_a_path_witness:
  "executeHooks (fs_Start two_paths queue_add emptyNameCache) foo_gvk IndexPhysicalToVirtualNamePath
      ''default/web'' (''s-x-default-x-vc'' @ ''/'' @ ''spec.a'') ''default/s'' [] = []"
proof -
  have h: "hooks (emptyNameCache :: NamespacedName list nameCache) = (\<lambda>_. None)" by (simp add: emptyNameCache_def)
  have p: "Path (fsPatch (last (fsConfig two_paths))) = ''spec.b''"
    by (simp add: two_paths_def CreateForceSyncController_def path_config_def)
  have "''default/web'' \<noteq> []" "CHR ''/'' \<notin> set ''s-x-default-x-vc''" by simp_all
  from force_sync_hooks_share_a_path [OF h this, of two_paths queue_add foo_gvk "''spec.a''" "''default/s''" "[]"] p
  show ?thesis by simp
qed

section \<open>The start of the plugin\<close>

text \<open>The syncer of a mapping, and the controllers it is registered with, in order.\<close>

definition created :: "('p, 'w) plugin_api \<Rightarrow> 'w RegisterContext \<Rightarrow> FromVirtualCluster \<Rightarrow> 'w fromVirtualController" where
  "created P ctx m = projr (CreateFromVirtualSyncer (RegexpCompile P) (NewRequirement P) ctx m)"

definition can_create :: "('p, 'w) plugin_api \<Rightarrow> 'w RegisterContext \<Rightarrow> Mapping \<Rightarrow> bool" where
  "can_create P ctx m = (case MFromVirtualCluster m of
     None \<Rightarrow> True
   | Some fvc \<Rightarrow> (case CreateFromVirtualSyncer (RegexpCompile P) (NewRequirement P) ctx fvc of
       Inl e \<Rightarrow> False
     | Inr s \<Rightarrow> None \<notin> set (Patches (fv_config s)) \<and> None \<notin> set (SyncBacks (fv_config s))
         \<and> list_all (\<lambda>c. Selectors (the c) \<noteq> []) (SyncBacks (fv_config s))))"

definition planned :: "('p, 'w) plugin_api \<Rightarrow> 'w RegisterContext \<Rightarrow> Mapping \<Rightarrow> 'w syncer_base list" where
  "planned P ctx m = (case MFromVirtualCluster m of
     None \<Rightarrow> []
   | Some fvc \<Rightarrow> let s = created P ctx fvc in
       FromVirtualBase s # map (\<lambda>c. BackBase (projr (CreateBackSyncer ctx (the c) (fv_config s)))) (SyncBacks (fv_config s)))"

definition planned_configs ::
  "(PatchSync \<Rightarrow> bool option) \<Rightarrow> ('p, 'w) plugin_api \<Rightarrow> 'w RegisterContext \<Rightarrow> Mapping \<Rightarrow> ForceSyncConfig list" where
  "planned_configs sel P ctx m = (case MFromVirtualCluster m of
     None \<Rightarrow> [] | Some fvc \<Rightarrow> force_configs sel (fv_config (created P ctx fvc)))"

lemma register_back_syncs:
  assumes "\<And>s w. RegisterSyncer P s w = (Inr (), track s w)"
    and "None \<notin> set cs" "list_all (\<lambda>c. Selectors (the c) \<noteq> []) cs"
  shows "each_io (register_back_sync P ctx m) cs w =
    (Inr (), fold track (map (\<lambda>c. BackBase (projr (CreateBackSyncer ctx (the c) m))) cs) w)"
  using assms(2,3)
proof (induction cs arbitrary: w)
  case (Cons c cs)
  then obtain sb where sb: "c = Some sb" "Selectors sb \<noteq> []" by (cases c) auto
  have "register_back_sync P ctx m c w = (Inr (), track (BackBase (projr (CreateBackSyncer ctx (the c) m))) w)"
    using sb by (simp add: register_back_sync_def bind_io_def fatal_io_def lift_io_def return_io_def CreateBackSyncer_def assms(1))
  with Cons show ?case by (simp add: bind_io_def)
qed (simp add: return_io_def)

lemma register_mapping_planned:
  assumes "\<And>s w. RegisterSyncer P s w = (Inr (), track s w)" "can_create P ctx m"
  shows "register_mapping P ctx m (secrets, configmaps) w =
    (Inr (secrets @ planned_configs Secret P ctx m, configmaps @ planned_configs ConfigMap P ctx m),
     fold track (planned P ctx m) w)"
proof (cases "MFromVirtualCluster m")
  case None
  then show ?thesis by (simp add: register_mapping_def planned_def planned_configs_def return_io_def)
next
  case (Some fvc)
  then obtain s where s: "CreateFromVirtualSyncer (RegexpCompile P) (NewRequirement P) ctx fvc = Inr s"
    "None \<notin> set (Patches (fv_config s))" "None \<notin> set (SyncBacks (fv_config s))"
    "list_all (\<lambda>c. Selectors (the c) \<noteq> []) (SyncBacks (fv_config s))"
    using assms(2) by (auto simp: can_create_def split: sum.splits)
  show ?thesis
    using Some s(1) register_back_syncs [where track = track, OF assms(1) s(3,4)]
    by (simp add: register_mapping_def planned_def planned_configs_def created_def force_configs_def bind_io_def
        return_io_def fatal_io_def lift_io_def assms(1) collect_force_sync_filter [OF s(2)] Let_def)
qed

lemma register_mappings_planned:
  assumes "\<And>s w. RegisterSyncer P s w = (Inr (), track s w)" "list_all (can_create P ctx) ms"
  shows "register_mappings P ctx ms (secrets, configmaps) w =
    (Inr (secrets @ concat (map (planned_configs Secret P ctx) ms),
      configmaps @ concat (map (planned_configs ConfigMap P ctx) ms)),
     fold track (concat (map (planned P ctx) ms)) w)"
  using assms(2)
  by (induction ms arbitrary: secrets configmaps w)
    (simp_all add: return_io_def bind_io_def register_mapping_planned [where track = track, OF assms(1)])

text \<open>C34. The controllers are registered mapping by mapping in the order of the configuration: the syncer of a
  mapping, then its back syncers in their order. The force-sync configurations collected on the way are
  the patches with a Secret (or ConfigMap) sync, in order, with the mapping as its syncer holds it.\<close>

theorem controllers_in_order:
  assumes "\<And>s w. RegisterSyncer P s w = (Inr (), track s w)" "list_all (can_create P ctx) ms"
  shows "register_mappings P ctx ms ([], []) w =
    (Inr (concat (map (planned_configs Secret P ctx) ms), concat (map (planned_configs ConfigMap P ctx) ms)),
     fold track (concat (map (planned P ctx) ms)) w)"
  by (simp add: register_mappings_planned [where track = track, OF assms])

definition controller_label :: "'w syncer_base \<Rightarrow> string" where
  "controller_label s = (case s of
     FromVirtualBase f \<Rightarrow> ''sync '' @ Kind (fv_config f)
   | BackBase b \<Rightarrow> ''back '' @ Kind (bs_config b)
   | ForceSyncBase f \<Rightarrow> ''force '' @ GVKKind (fsGVK f))"

text \<open>A framework in which everything succeeds, with a log of what was set up.\<close>

definition demo_plugin :: "(string list, requests) plugin_api" where
  "demo_plugin = \<lparr>
     InitPlugin = (\<lambda>w. (Inr demo_ctx, w)),
     Recognizes = (\<lambda>gvk. True),
     EnsureCRDFromPhysicalCluster = (\<lambda>gvk w. (Inr (), w)),
     MarshalConfig = (\<lambda>c. Inr []),
     GetInformer = (\<lambda>a k w. (Inr (), w)),
     AddEventHandler = (\<lambda>gvk i w. w @ [''watch '' @ GVKKind gvk]),
     RegisterSyncer = (\<lambda>s w. (Inr (), w @ [controller_label s])),
     StartPlugin = (\<lambda>w. (Inr (), w @ [''start''])),
     DecodeConfig = (\<lambda>s. fail ''no decoder''),
     RegexpCompile = (\<lambda>s. Inl (Plain ''no expressions'')),
     NewRequirement = (\<lambda>k v. None)\<rparr>"

definition map_patch :: Patch where
  "map_patch = emptyPatch\<lparr>Operation := PatchTypeRewriteName, Path := ''spec.map'',
     Patch.Sync := Some \<lparr>Secret = None, ConfigMap = Some True\<rparr>\<rparr>"

definition demo_mapping :: FromVirtualCluster where
  "demo_mapping = no_patches\<lparr>Patches := [Some map_patch], SyncBacks := [Some name_sync_back]\<rparr>"

abbreviation demo_mappings :: "Mapping list" where
  "demo_mappings \<equiv> [\<lparr>MFromHostCluster = None, MFromVirtualCluster = Some demo_mapping\<rparr>]"

lemma demo_created:
  "CreateFromVirtualSyncer (RegexpCompile demo_plugin) (NewRequirement demo_plugin) demo_ctx demo_mapping
   = Inr \<lparr>fv_patcher = demo_patcher, fv_gvk = foo_gvk, fv_config = demo_mapping, fv_selector = None,
       fv_targetNamespace = ''host''\<rparr>"
proof -
  have "FromAPIVersionAndKind ''v1'' ''Foo'' = foo_gvk" by code_simp
  then show ?thesis
    by (simp add: CreateFromVirtualSyncer_def validateFromVirtualConfig_def prepare_patch_def demo_mapping_def
        map_patch_def no_patches_def emptyPatch_def demo_patcher_def demo_ctx_def result_simps)
qed

lemma demo_registers:
  "RegisterSyncer demo_plugin s w = (Inr (), w @ [controller_label s])"
  by (simp add: demo_plugin_def)

lemma demo_plan:
  "list_all (can_create demo_plugin demo_ctx) demo_mappings"
  "concat (map (planned_configs Secret demo_plugin demo_ctx) demo_mappings) = []"
  "concat (map (planned_configs ConfigMap demo_plugin demo_ctx) demo_mappings)
     = [\<lparr>fsParent = demo_mapping, fsPatch = map_patch\<rparr>]"
  "fold (\<lambda>s w. w @ [controller_label s]) (concat (map (planned demo_plugin demo_ctx) demo_mappings)) w
     = w @ [''sync Foo'', ''back Bar'']"
  using demo_created
  by (simp_all add: can_create_def planned_def planned_configs_def created_def force_configs_def demo_mapping_def
      map_patch_def CreateBackSyncer_def name_sync_back_def bar_sync_back_def controller_label_def no_patches_def
      emptyPatch_def)

theorem controllers_in_order_witness:
  "register_mappings demo_plugin demo_ctx demo_mappings ([], []) [] =
    (Inr ([], [\<lparr>fsParent = demo_mapping, fsPatch = map_patch\<rparr>]), [''sync Foo'', ''back Bar''])"
  using controllers_in_order [where track = "\<lambda>s w. w @ [controller_label s]", OF demo_registers demo_plan(1), of "[]"]
  by (simp only: demo_plan append_Nil)

definition needs_cache :: "FromVirtualCluster \<Rightarrow> bool" where
  "needs_cache m \<longleftrightarrow> (\<exists>p. Some p \<in> set (ReversePatches m) \<and> Operation p = PatchTypeRewriteName)
    \<or> (\<exists>p. Some p \<in> set (Patches m) \<and> wants_sync p) \<or> SyncBacks m \<noteq> []"

text \<open>C36. Every mapping of a valid configuration is accepted, and the name cache gets a handler for exactly the
  mappings that need names resolved: those with a reverse patch that rewrites names, with a patch that
  syncs Secrets or ConfigMaps, or with back syncs.\<close>

theorem handlers_for_the_name_cache:
  assumes "\<And>a k w. GetInformer P a k w = (Inr (), w)" "valid_config cfg"
  shows "NewNameCache P cfg w = (Inr emptyNameCache,
    fold (\<lambda>(i, m). AddEventHandler P (mapping_gvk m) i)
      (filter (\<lambda>(i, m). needs_cache m) (enumerate 0 (map (\<lambda>m. the (MFromVirtualCluster m)) (Mappings cfg)))) w)"
proof -
  have "NewNameCache_mappings P i ms w = (Inr (), fold (\<lambda>(i, m). AddEventHandler P (mapping_gvk m) i)
      (filter (\<lambda>(i, m). needs_cache m) (enumerate i (map (\<lambda>m. the (MFromVirtualCluster m)) ms))) w)"
    if "list_all valid_mapping ms" for i ms w
    using that
  proof (induction ms arbitrary: i w)
    case (Cons m ms)
    then obtain fvc where f: "MFromVirtualCluster m = Some fvc" "valid_base fvc"
      by (auto simp: valid_mapping_def)
    have "uses_cache fvc = Inr (needs_cache fvc)"
      using uses_cache_valid [OF f(2)] by (simp add: needs_cache_def)
    with Cons f(1) show ?case
      by (simp add: bind_io_def lift_io_def return_io_def fatal_io_def assms(1))
  qed (simp add: return_io_def)
  with assms(2) show ?thesis
    by (simp add: NewNameCache_def valid_config_def bind_io_def return_io_def)
qed

theorem handlers_for_the_name_cache_witness:
  "NewNameCache demo_plugin \<lparr>ConfigVersion = SupportedVersion, Mappings = demo_mappings\<rparr> []
    = (Inr (emptyNameCache :: unit nameCache), [''watch Foo''])"
proof -
  have g: "GetInformer demo_plugin a k w = (Inr (), w)" for a k w by (simp add: demo_plugin_def)
  have v: "valid_config \<lparr>ConfigVersion = SupportedVersion, Mappings = demo_mappings\<rparr>"
    by (simp add: valid_config_def valid_mapping_def valid_base_def valid_sync_back_def valid_patch_def
        demo_mapping_def map_patch_def name_sync_back_def bar_sync_back_def no_patches_def)
  have "needs_cache demo_mapping" by (simp add: needs_cache_def demo_mapping_def)
  moreover have "AddEventHandler demo_plugin (mapping_gvk demo_mapping) 0 [] = [''watch Foo'']" 
    by (simp add: demo_plugin_def) code_simp
  ultimately show ?thesis
    using handlers_for_the_name_cache [OF g v, where w = "[]"] by simp
qed

text \<open>C37. When a configuration syncs ConfigMaps but no Secrets, the plugin registers a ConfigMap controller that
  has no configuration: it finds no ConfigMap worth syncing, whatever the name cache holds, and starts
  without a hook.\<close>

theorem config_maps_get_the_secrets:
  assumes "each_io (ensure_mapping_crds P) (Mappings cfg) w = (Inr (), w1)"
    and "NewNameCache P cfg w1 = (Inr (nc :: unit nameCache), w2)"
    and "register_mappings P ctx (Mappings cfg) ([], []) w2 = (Inr ([], configmaps), w3)"
    and "configmaps \<noteq> []" "\<not> containsStr (OptionsControllers ctx) ''-configmaps''"
    and "idle = CreateForceSyncController ctx (core_v1 ''ConfigMap'') []"
  shows "run_configuration P ctx cfg w =
      fatal_io ''Error registering ConfigMap ForceSyncController'' (RegisterSyncer P (ForceSyncBase idle)) w3
    \<and> \<not> shouldSync Suffix cache idle obj
    \<and> fs_Start idle add cache = cache"
proof -
  have n: "fatal_io msg (NewNameCache P cfg) w1 = (Inr (nc :: unit nameCache), w2)" for msg
    using assms(2) by (simp add: fatal_io_def)
  have "run_configuration P ctx cfg w = register_force_sync P ctx ''ConfigMap'' ''-configmaps'' configmaps [] w3"
    unfolding run_configuration_def
    by (simp add: bind_io_def [of _ _ w] assms(1))
      (simp add: bind_io_def n assms(3) register_force_sync_def [of _ _ "''Secret''"] return_io_def)
  then show ?thesis
    using assms(4-6) by (simp add: register_force_sync_def shouldSync_def CreateForceSyncController_def fs_Start_def)
qed

theorem config_maps_get_the_secrets_witness:
  "run_configuration demo_plugin demo_ctx \<lparr>ConfigVersion = SupportedVersion, Mappings = demo_mappings\<rparr> []
    = (Inr (), [''watch Foo'', ''sync Foo'', ''back Bar'', ''force ConfigMap''])"
proof -
  let ?cfg = "\<lparr>ConfigVersion = SupportedVersion, Mappings = demo_mappings\<rparr>"
  let ?idle = "CreateForceSyncController demo_ctx (core_v1 ''ConfigMap'') []"
  have crds: "each_io (ensure_mapping_crds demo_plugin) (Mappings ?cfg) [] = (Inr (), [])"
    by (simp add: ensure_mapping_crds_def demo_plugin_def demo_mapping_def return_io_def bind_io_def)
  have cache: "NewNameCache demo_plugin ?cfg [] = (Inr (emptyNameCache :: unit nameCache), [''watch Foo''])"
    by (simp add: NewNameCache_def uses_cache_def demo_mapping_def no_patches_def map_patch_def wants_sync_def
        bind_io_def lift_io_def return_io_def fatal_io_def demo_plugin_def mapping_gvk_def) code_simp
  have reg: "register_mappings demo_plugin demo_ctx (Mappings ?cfg) ([], []) [''watch Foo''] =
      (Inr ([], [\<lparr>fsParent = demo_mapping, fsPatch = map_patch\<rparr>]), [''watch Foo'', ''sync Foo'', ''back Bar''])"
    using register_mappings_planned [where track = "\<lambda>s w. w @ [controller_label s]", OF demo_registers demo_plan(1),
        of "[]" "[]" "[''watch Foo'']"]
    by (simp only: demo_plan Config.simps append_Cons append_Nil)
  have "\<not> containsStr (OptionsControllers demo_ctx) ''-configmaps''" by (simp add: demo_ctx_def)
  from config_maps_get_the_secrets [OF crds cache reg _ this refl, THEN conjunct1] show ?thesis
    by (simp add: fatal_io_def demo_registers controller_label_def CreateForceSyncController_def)
qed

section \<open>Waiting for the cache\<close>


text \<open>A cache of one object, whose version a schedule can change.\<close>

definition one_object :: "string \<Rightarrow> object_meta" where
  "one_object version = \<lparr>om_key = web_nn, om_UID = ''u'', om_ResourceVersion = version, om_DeletionTimestamp = None\<rparr>"

definition version_view :: "string \<Rightarrow> NamespacedName \<Rightarrow> object_meta option" where
  "version_view version nn = (if nn = web_nn then Some (one_object version) else None)"

definition version_client :: "string DelegatingClient" where
  "version_client = \<lparr>
     dc_Get = (\<lambda>nn w. (case version_view w nn of None \<Rightarrow> Inl (Err (Api NotFound [])) | Some m \<Rightarrow> Inr m, w)),
     dc_Create = (\<lambda>obj w. (Inr (), w)), dc_Patch = (\<lambda>obj w. (Inr (), w)), dc_Update = (\<lambda>obj w. (Inr (), w)),
     dc_Delete = (\<lambda>obj w. (Inr (), w)), dc_StatusUpdate = (\<lambda>obj w. (Inr (), w)),
     dc_StatusPatch = (\<lambda>obj w. (Inr (), w)), Recognized = (\<lambda>obj. True), IsNotRegisteredError = (\<lambda>e. False)\<rparr>"


text \<open>The versions are compared as strings: an update that made version 10 is seen in a cache at version 9.\<close>

lemma versions_are_strings:
  "update_seen (one_object ''10'') (one_object ''9'')" "\<not> update_seen (one_object ''9'') (one_object ''10'')"
  by (simp_all add: update_seen_def one_object_def)

end
