(* ===== verification/StartUp.thy ===== *)
theory StartUp
  imports PluginProperties
begin

text \<open>
  What the plugin refuses to start with: \<^verbatim>\<open>main\<close> ends in a fatal error before anything runs when the
  configuration is not one all of whose controllers can be created.
\<close>

section \<open>A registration that succeeds\<close>

lemma fatal_io_Inr [simp]: "fatal_io msg m w = (Inr x, w') \<longleftrightarrow> m w = (Inr x, w')"
  by (auto simp: fatal_io_def errorf_Inr split: prod.splits)

lemma lift_io_Inr: "lift_io r w = (Inr x, w') \<longleftrightarrow> r = Inr x \<and> w' = w"
  by (auto simp: lift_io_def)

lemma each_io_Inr:
  "each_io f xs w = (Inr (), w') \<Longrightarrow> x \<in> set xs \<Longrightarrow> \<exists>w1 w2. f x w1 = (Inr (), w2)"
  by (induction xs arbitrary: w) (auto simp: bind_io_Inr)

lemma collect_force_sync_total: "collect_force_sync m ps acc = Inr acc' \<Longrightarrow> None \<notin> set ps"
proof (induction ps arbitrary: acc)
  case (Cons p ps)
  then show ?case by (cases p; cases acc) (auto simp: Let_def simp del: split_paired_All split_paired_Ex)
qed simp

lemma register_mapping_Inr:
  assumes "register_mapping P ctx m (secrets, configmaps) w = (Inr acc, w')"
  shows "can_create P ctx m
    \<and> acc = (secrets @ planned_configs Secret P ctx m, configmaps @ planned_configs ConfigMap P ctx m)"
proof (cases "MFromVirtualCluster m")
  case None
  with assms show ?thesis
    by (simp add: register_mapping_def can_create_def planned_configs_def return_io_def)
next
  case (Some fvc)
  with assms obtain s w1 w2 w3 where s: "CreateFromVirtualSyncer (RegexpCompile P) (NewRequirement P) ctx fvc = Inr s"
    and acc: "collect_force_sync (fv_config s) (Patches (fv_config s)) (secrets, configmaps) = Inr acc"
    and bks: "each_io (register_back_sync P ctx (fv_config s)) (SyncBacks (fv_config s)) w2 = (Inr (), w3)"
    by (auto simp: register_mapping_def bind_io_Inr lift_io_Inr return_io_def)
  have ps: "None \<notin> set (Patches (fv_config s))" by (rule collect_force_sync_total [OF acc])
  have "\<exists>sb. c = Some sb \<and> Selectors sb \<noteq> []" if "c \<in> set (SyncBacks (fv_config s))" for c
    using each_io_Inr [OF bks that]
    by (cases c) (auto simp: register_back_sync_def bind_io_Inr lift_io_Inr CreateBackSyncer_def split: if_splits)
  then have bs: "None \<notin> set (SyncBacks (fv_config s))" "list_all (\<lambda>c. Selectors (the c) \<noteq> []) (SyncBacks (fv_config s))"
    by (fastforce simp: list_all_iff)+
  show ?thesis
    using acc Some s ps bs
    by (simp add: can_create_def planned_configs_def created_def force_configs_def collect_force_sync_filter [OF ps] Let_def)
qed

lemma register_mappings_Inr:
  "register_mappings P ctx ms (secrets, configmaps) w = (Inr acc, w') \<Longrightarrow> list_all (can_create P ctx) ms
    \<and> acc = (secrets @ concat (map (planned_configs Secret P ctx) ms),
        configmaps @ concat (map (planned_configs ConfigMap P ctx) ms))"
proof (induction ms arbitrary: secrets configmaps w)
  case Nil
  then show ?case by (simp add: return_io_def)
next
  case (Cons m ms)
  then obtain acc1 w1 where m: "register_mapping P ctx m (secrets, configmaps) w = (Inr acc1, w1)"
    and ms: "register_mappings P ctx ms acc1 w1 = (Inr acc, w')" by (auto simp: bind_io_Inr)
  note one = register_mapping_Inr [OF m]
  then have "register_mappings P ctx ms (secrets @ planned_configs Secret P ctx m, configmaps @ planned_configs ConfigMap P ctx m) w1
      = (Inr acc, w')" using ms by simp
  from Cons.IH [OF this] one show ?case by simp
qed

text \<open>
  A configuration the plugin can run with: it is valid, every controller of every mapping can be created,
  and vcluster's own syncer of Secrets (or ConfigMaps) is on where a patch asks for a Secret (a ConfigMap).
\<close>

definition runnable :: "('p, 'w) plugin_api \<Rightarrow> 'w RegisterContext \<Rightarrow> Config \<Rightarrow> bool" where
  "runnable P ctx c \<longleftrightarrow> valid_config c \<and> list_all (can_create P ctx) (Mappings c)
   \<and> (concat (map (planned_configs Secret P ctx) (Mappings c)) \<noteq> [] \<longrightarrow> ''-secrets'' \<notin> set (OptionsControllers ctx))
   \<and> (concat (map (planned_configs ConfigMap P ctx) (Mappings c)) \<noteq> [] \<longrightarrow> ''-configmaps'' \<notin> set (OptionsControllers ctx))"

lemma register_force_sync_Inr:
  "register_force_sync P ctx kind disabled found config w = (Inr (), w') \<Longrightarrow> found \<noteq> [] \<Longrightarrow>
     disabled \<notin> set (OptionsControllers ctx)"
  by (auto simp: register_force_sync_def throw_io_def containsStr_set split: if_splits)

lemma load_configuration_Inr:
  assumes "load_configuration P ctx w = (Inr (), w')" "Environment ctx ''CONFIG'' \<noteq> []"
  shows "\<exists>c. DecodeConfig P (Environment ctx ''CONFIG'') = Inr c \<and> runnable P ctx c"
proof -
  from assms obtain c w1 where c: "ParseConfig (DecodeConfig P) (Environment ctx ''CONFIG'') = Inr c"
    and run: "run_configuration P ctx c w1 = (Inr (), w')"
    by (auto simp: load_configuration_def Let_def bind_io_Inr lift_io_Inr)
  from c have "DecodeConfig P (Environment ctx ''CONFIG'') = Inr c" "valid_config c"
    by (auto simp: ParseConfig_def result_simps validate_ok)
  moreover from run obtain secrets configmaps w2 w3 w4 where
      reg: "register_mappings P ctx (Mappings c) ([], []) w2 = (Inr (secrets, configmaps), w3)"
    and force: "register_force_sync P ctx ''Secret'' ''-secrets'' secrets secrets w3 = (Inr (), w4)"
      "register_force_sync P ctx ''ConfigMap'' ''-configmaps'' configmaps secrets w4 = (Inr (), w')"
    by (auto simp: run_configuration_def bind_io_Inr)
  ultimately show ?thesis
    using register_mappings_Inr [OF reg] force [THEN register_force_sync_Inr] by (auto simp: runnable_def)
qed

section \<open>Nothing starts\<close>

text \<open>Loading a configuration does not start the plugin.\<close>

lemma register_mappings_before_start:
  "register_mappings (P\<lparr>StartPlugin := start\<rparr>) ctx ms acc = register_mappings P ctx ms acc"
proof (induction ms arbitrary: acc)
  case (Cons m ms)
  have "register_back_sync (P\<lparr>StartPlugin := start\<rparr>) ctx = register_back_sync P ctx"
    by (simp add: register_back_sync_def [abs_def])
  then have "register_mapping (P\<lparr>StartPlugin := start\<rparr>) ctx m acc = register_mapping P ctx m acc" for acc
    by (simp add: register_mapping_def split: option.split)
  moreover have "register_mappings (P\<lparr>StartPlugin := start\<rparr>) ctx ms = register_mappings P ctx ms"
    by (rule ext) (rule Cons)
  ultimately show ?case by simp
qed simp

lemma load_before_start: "load_configuration (P\<lparr>StartPlugin := start\<rparr>) ctx = load_configuration P ctx"
proof -
  have "NewNameCache_mappings (P\<lparr>StartPlugin := start\<rparr>) i ms = NewNameCache_mappings P i ms" for i ms
    by (induction ms arbitrary: i) (simp_all cong: if_cong option.case_cong)
  moreover have "ensure_mapping_crds (P\<lparr>StartPlugin := start\<rparr>) = ensure_mapping_crds P"
    by (simp add: ensure_mapping_crds_def [abs_def] cong: if_cong option.case_cong)
  moreover have "register_force_sync (P\<lparr>StartPlugin := start\<rparr>) = register_force_sync P"
    by (simp add: register_force_sync_def [abs_def] cong: if_cong)
  ultimately have "run_configuration (P\<lparr>StartPlugin := start\<rparr>) ctx = run_configuration P ctx"
    by (simp add: run_configuration_def [abs_def] NewNameCache_def register_mappings_before_start)
  then show ?thesis by (simp add: load_configuration_def Let_def cong: if_cong)
qed

text \<open>C35. The plugin does not start with a configuration it cannot run: when the configuration cannot be decoded, is
  invalid, has a mapping whose syncer or back syncers cannot be created, or asks for Secrets or ConfigMaps while
  vcluster does not sync them, the program ends with an error, and what the start of the plugin would do plays
  no part.\<close>

theorem main_fails_closed:
  assumes "InitPlugin P w = (Inr ctx, w')" "Environment ctx ''CONFIG'' \<noteq> []"
    and "\<And>c. DecodeConfig P (Environment ctx ''CONFIG'') = Inr c \<Longrightarrow> \<not> runnable P ctx c"
  shows "(\<exists>e w2. main P w = (Inl e, w2)) \<and> main (P\<lparr>StartPlugin := start\<rparr>) w = main P w"
proof -
  obtain r w2 where load: "load_configuration P ctx w' = (r, w2)" by fastforce
  obtain e where r: "r = Inl e"
    using load_configuration_Inr [of P ctx w' w2] load assms(2,3) by (cases r) auto
  have "main P w = (Inl e, w2)" "main (P\<lparr>StartPlugin := start\<rparr>) w = (Inl e, w2)"
    using assms(1) load r by (simp_all add: main_def bind_io_def fatal_io_def load_before_start)
  then show ?thesis by simp
qed

text \<open>A configuration with a regular expression that does not compile.\<close>

definition bad_regex_config :: Config where
  "bad_regex_config = \<lparr>ConfigVersion = SupportedVersion, Mappings =
     [\<lparr>MFromHostCluster = None, MFromVirtualCluster = Some (no_patches\<lparr>Patches :=
        [Some (emptyPatch\<lparr>Operation := PatchTypeRewriteName, Path := ''spec.name'', Regex := ''(''\<rparr>)]\<rparr>)\<rparr>]\<rparr>"

theorem main_fails_closed_witness:
  "(\<exists>e w2. main (demo_plugin\<lparr>DecodeConfig := \<lambda>s. Inr bad_regex_config\<rparr>) [] = (Inl e, w2))
   \<and> main (demo_plugin\<lparr>DecodeConfig := \<lambda>s. Inr bad_regex_config, StartPlugin := \<lambda>w. (Inr (), [''started''])\<rparr>) []
     = main (demo_plugin\<lparr>DecodeConfig := \<lambda>s. Inr bad_regex_config\<rparr>) []"
proof -
  have "\<not> runnable (demo_plugin\<lparr>DecodeConfig := \<lambda>s. Inr bad_regex_config\<rparr>) demo_ctx bad_regex_config"
    by (simp add: runnable_def bad_regex_config_def can_create_def CreateFromVirtualSyncer_def
        validateFromVirtualConfig_def prepare_patch_def PrepareRegex_def demo_plugin_def no_patches_def emptyPatch_def result_simps)
  then show ?thesis
    by (intro main_fails_closed [where ctx = demo_ctx and w' = "[]"]) (simp_all add: demo_plugin_def demo_ctx_def)
qed

end
