(* ===== verification/Clusters.thy ===== *)
theory Clusters
  imports BackSyncer
begin

text \<open>
  The clusters the controllers work on: what an API server promises about reads and writes, and which
  objects a run of the controllers can change. The promises are a locale for one cluster and one for
  the two of them; a pair of object stores keeps them.
\<close>

section \<open>What a program leaves alone\<close>

text \<open>\<open>leaves V m w\<close>: run from the world \<open>w\<close>, the program \<open>m\<close> does not change what \<open>V\<close> shows.\<close>

definition leaves :: "('w \<Rightarrow> 'v) \<Rightarrow> ('w, 'a) io \<Rightarrow> 'w \<Rightarrow> bool" where
  "leaves V m w \<longleftrightarrow> V (snd (m w)) = V w"

named_theorems leaves_intros \<open>composing programs that leave a part of the world alone\<close>

lemma leaves_basic [leaves_intros]:
  "leaves V (return_io x) w" "leaves V (lift_io r) w" "leaves V (throw_io e) w"
  by (simp_all add: leaves_def io_simps)

lemma leaves_bind [leaves_intros]:
  assumes "leaves V m w" "\<And>x w'. m w = (Inr x, w') \<Longrightarrow> V w' = V w \<Longrightarrow> leaves V (f x) w'"
  shows "leaves V (bind_io m f) w"
  using assms by (cases "m w") (auto simp: leaves_def bind_io_def split: sum.splits)

lemma leaves_wrappers [leaves_intros]:
  "leaves V m w \<Longrightarrow> leaves V (attempt m) w" "leaves V m w \<Longrightarrow> leaves V (wrap_io msg m) w"
  by (auto simp: leaves_def attempt_def wrap_io_def split: prod.splits sum.splits fault.splits)

lemma leaves_if [leaves_intros]:
  "(b \<Longrightarrow> leaves V m w) \<Longrightarrow> (\<not> b \<Longrightarrow> leaves V m' w) \<Longrightarrow> leaves V (if b then m else m') w"
  by simp

lemma attempt_Inr: "attempt m w = (Inr (Inr x), w') \<longleftrightarrow> m w = (Inr x, w')"
  by (auto simp: attempt_def split: prod.splits sum.splits fault.splits)

lemma attempt_Inl: "attempt m w = (Inr (Inl e), w') \<longleftrightarrow> m w = (Inl (Err e), w')"
  by (auto simp: attempt_def split: prod.splits sum.splits fault.splits)

lemma RemoveStatus_nn [simp]: "object_nn (RemoveNestedField [''status''] obj) = object_nn obj"
  by (cases obj) (auto simp: object_nn_def GetName_def GetNamespace_def getNestedString_def nested_def delete_conv')

text \<open>The patcher, when its writes leave the view alone.\<close>

lemma leaves_ApplyPatches:
  assumes "\<And>t p r'. translateMetadata fromObj = Inr t \<Longrightarrow> ApplyPatches E t toObj ps rps nr r = Inr (p, r') \<Longrightarrow>
    \<forall>q w. object_nn q = object_nn p \<longrightarrow> leaves V (StatusApply (toClient s) q) w \<and> leaves V (ApplyPatch (toClient s) q) w"
  shows "leaves V (patcher_ApplyPatches E s fromObj toObj ps rps translateMetadata nr r) w"
proof (cases "bind_result (translateMetadata fromObj) (\<lambda>t. ApplyPatches E t toObj ps rps nr r)")
  case (Inl e)
  then have "translateMetadata fromObj = Inl e
      \<or> (\<exists>t. translateMetadata fromObj = Inr t \<and> ApplyPatches E t toObj ps rps nr r = Inl e)"
    by (auto simp: result_simps)
  then have "\<exists>e'. patcher_ApplyPatches E s fromObj toObj ps rps translateMetadata nr r = lift_io (Inl e')"
    by (rule ApplyPatches_fails_clean)
  then show ?thesis by (auto intro: leaves_intros)
next
  case (Inr x)
  then obtain t p r' where t: "translateMetadata fromObj = Inr t" "ApplyPatches E t toObj ps rps nr r = Inr (p, r')"
    by (cases x) (auto simp: result_simps)
  note w = assms [OF t]
  have sent: "bind_io (lift_io (status_of p)) (\<lambda>afterStatus.
        if afterStatus = None then return_io p
        else bind_io (wrap_io msg (StatusApply (toClient s) p)) (\<lambda>_. return_io (RemoveNestedField [''status''] p))) w
      = (Inr q, w') \<Longrightarrow> object_nn q = object_nn p" for msg w q w'
    by (auto simp: bind_io_def return_io_def lift_io_def split: prod.splits sum.splits if_splits)
  show ?thesis
    by (auto simp: patcher_ApplyPatches_def t toUnstructured_def io_simps_basic w
        dest: sent intro!: leaves_intros)
qed

lemma leaves_ApplyReversePatches:
  assumes "\<And>obj w. leaves V (Update (fromClient s) obj) w" "\<And>obj w. leaves V (StatusUpdate (fromClient s) obj) w"
  shows "leaves V (patcher_ApplyReversePatches E s fromObj otherObj rps nr r) w"
  unfolding patcher_ApplyReversePatches_def Let_def
  by (auto split: prod.splits intro!: leaves_intros assms)

lemma leaves_ApplyReversePatches_at:
  assumes "\<And>p r'. ApplyPatches E fromObj (Some otherObj) rps [] nr r = Inr (p, r') \<Longrightarrow>
    \<forall>q w. object_nn q = object_nn p \<longrightarrow> leaves V (Update (fromClient s) q) w \<and> leaves V (StatusUpdate (fromClient s) q) w"
  shows "leaves V (patcher_ApplyReversePatches E s fromObj otherObj rps nr r) w"
proof (cases "ApplyPatches E fromObj (Some otherObj) rps [] nr r")
  case (Inr x)
  obtain p r' where x: "x = (p, r')" by fastforce
  show ?thesis
    unfolding patcher_ApplyReversePatches_def Let_def toUnstructured_def
    using assms [OF Inr [unfolded x]] Inr x
    by (auto simp: lift_io_def split: prod.splits intro!: leaves_intros)
next
  case (Inl e)
  from errorf_Inl [OF this, of "''error applying reverse patches''"]
  have "\<exists>e'. patcher_ApplyReversePatches E s fromObj otherObj rps nr r = lift_io (Inl e')"
    by (auto simp: patcher_ApplyReversePatches_def toUnstructured_def)
  then show ?thesis by (auto intro: leaves_intros)
qed

lemma with_annotations_entries:
  assumes "obj_ok pObj"
  shows "\<exists>es. GetAnnotations (with_annotations json opt vNN ms pObj) = Some es
    \<and> map_of es MarkerLabel = Some opt \<and> map_of es NameAnnotation = Some (Name vNN)
    \<and> map_of es NamespaceAnnotation = Some (Namespace vNN)"
  using assms
  by (auto simp: with_annotations_def Let_def SetAnnotations_def accessors_meta(4) meta_rules
      update_conv' delete_conv' split: option.splits)

text \<open>A patcher that succeeds has sent the patched object, without its status, as its last request.\<close>

lemma RemoveStatus_labels [simp]: "GetLabels (RemoveNestedField [''status''] obj) = GetLabels obj"
  by (cases obj) (auto simp: GetLabels_def NestedStringMap_def nested_def delete_conv')

lemma wrap_io_Inr: "wrap_io msg m w = (Inr x, w') \<longleftrightarrow> m w = (Inr x, w')"
  by (auto simp: wrap_io_def split: prod.splits)

lemma ApplyPatches_applied:
  assumes "patcher_ApplyPatches E s fromObj toObj ps rps translateMetadata nr r w = (Inr x, w')"
  obtains t p r' q w1 where "translateMetadata fromObj = Inr t" "ApplyPatches E t toObj ps rps nr r = Inr (p, r')"
    "ApplyPatch (toClient s) q w1 = (Inr (), w')" "object_nn q = object_nn p" "GetLabels q = GetLabels p"
proof -
  from assms obtain t where t: "translateMetadata fromObj = Inr t"
    by (cases "translateMetadata fromObj") (auto simp: patcher_ApplyPatches_def bind_io_def lift_io_def
        dest: wrap_Inl split: sum.splits)
  from assms obtain p r' where p: "ApplyPatches E t toObj ps rps nr r = Inr (p, r')"
    by (cases "ApplyPatches E t toObj ps rps nr r") (auto simp: patcher_ApplyPatches_def t toUnstructured_def
        bind_io_def lift_io_def dest: errorf_Inl split: sum.splits)
  from assms show thesis
    by (auto simp: patcher_ApplyPatches_def t p toUnstructured_def bind_io_def lift_io_def return_io_def wrap_io_Inr
        split: prod.splits sum.splits if_splits intro: that [OF t p])
qed

text \<open>An object is gone when it does not exist or is being deleted; it is labelled when it carries the
  label of a controller.\<close>

definition gone :: "goval option \<Rightarrow> bool" where
  "gone v \<longleftrightarrow> (case v of None \<Rightarrow> True | Some obj \<Rightarrow> meta obj ''deletionTimestamp'' \<noteq> None)"

definition labelled :: "string \<Rightarrow> goval \<Rightarrow> bool" where
  "labelled cid obj \<longleftrightarrow> (\<exists>es. GetLabels obj = Some es \<and> map_of es controlledByLabel = Some cid)"

lemma labelled_labels: "labelled cid obj \<Longrightarrow> GetLabels obj \<noteq> None"
  by (auto simp: labelled_def)

lemma labelled_controller: "labelled cid obj \<Longrightarrow> has_controller obj cid"
  by (auto simp: labelled_def has_controller_def str_at_def)

section \<open>One cluster\<close>

text \<open>
  What the client of one cluster promises. \<open>mine\<close> shows the objects of the cluster by address, \<open>other\<close> the rest
  of the world. Every stored object has a name. A read changes nothing, reports the stored object, and reports \<open>NotFound\<close> only for a
  missing one (it may fail otherwise); a write touches the addressed object only, whether it succeeds
  or not; the answer to a merge patch carries the annotations that were sent; an object that was applied
  exists and carries the labels that were sent; one that was deleted is gone.
\<close>

locale cluster =
  fixes c :: "'w Client" and mine :: "'w \<Rightarrow> NamespacedName \<Rightarrow> goval option" and other :: "'w \<Rightarrow> 'o"
  assumes get: "Get c nn w = (r, w') \<Longrightarrow> w' = w \<and> (\<forall>obj. r = Inr obj \<longrightarrow> mine w nn = Some obj)
      \<and> (\<forall>e. r = Inl (Err e) \<and> IsNotFound e \<longrightarrow> mine w nn = None)"
    and listed: "ListByIndex c i w = (r', w') \<Longrightarrow> w' = w"
    and addressed: "mine w nn = Some obj \<Longrightarrow> object_nn obj = nn \<and> obj_ok obj \<and> Name nn \<noteq> []"
    and writes: "m \<in> {ApplyPatch c obj, Update c obj, Delete c obj, StatusApply c obj, StatusUpdate c obj} \<Longrightarrow>
      other (snd (m w)) = other w \<and> (\<forall>nn. nn \<noteq> object_nn obj \<longrightarrow> mine (snd (m w)) nn = mine w nn)"
    and merge: "other (snd (MergePatch c original obj w)) = other w
      \<and> (\<forall>nn. nn \<noteq> object_nn obj \<longrightarrow> mine (snd (MergePatch c original obj w)) nn = mine w nn)"
    and merged: "MergePatch c original obj w = (Inr obj', w') \<Longrightarrow> obj_ok obj \<Longrightarrow>
      obj_ok obj' \<and> object_nn obj' = object_nn obj
      \<and> (\<forall>es k v. GetAnnotations obj = Some es \<and> map_of es k = Some v \<longrightarrow> str_at (GetAnnotations obj') k = v)"
    and applied: "ApplyPatch c obj w = (Inr (), w') \<Longrightarrow> \<exists>obj'. mine w' (object_nn obj) = Some obj'
      \<and> (\<forall>cid. labelled cid obj \<longrightarrow> labelled cid obj')"
    and deleted: "Delete c obj w = (r'', w') \<Longrightarrow> r'' = Inr () \<or> (\<exists>e. r'' = Inl (Err e) \<and> IsNotFound e) \<Longrightarrow>
      gone (mine w' (object_nn obj))"
begin

lemma get_optional_reads:
  "get_optional c nn w = (r, w') \<Longrightarrow> w' = w \<and> (\<forall>v. r = Inr v \<longrightarrow> mine w nn = v)"
  using get [of nn w]
  by (cases "Get c nn w") (auto simp: get_optional_def bind_io_def attempt_def return_io_def throw_io_def
      split: sum.splits fault.splits if_splits)

lemma leaves_get [leaves_intros]: "leaves V (get_optional c nn) w"
  using get_optional_reads [of nn w] by (cases "get_optional c nn w") (simp add: leaves_def)

lemma leaves_Get [leaves_intros]: "leaves V (Get c nn) w"
  using get [of nn w] by (cases "Get c nn w") (simp add: leaves_def)

lemma leaves_list [leaves_intros]: "leaves V (ListByIndex c i) w"
  using listed [of i w] by (cases "ListByIndex c i w") (simp add: leaves_def)

text \<open>A write leaves the rest of the world alone, and every other address.\<close>

lemma leaves_other [leaves_intros]:
  "leaves other (ApplyPatch c obj) w" "leaves other (Update c obj) w" "leaves other (Delete c obj) w"
  "leaves other (StatusApply c obj) w" "leaves other (StatusUpdate c obj) w"
  "leaves other (MergePatch c original obj) w"
  using writes [of _ obj w] merge [of original obj w] by (auto simp: leaves_def)

lemma leaves_mine:
  assumes "object_nn obj \<noteq> nn"
  shows "leaves (\<lambda>w. mine w nn) (ApplyPatch c obj) w" "leaves (\<lambda>w. mine w nn) (Update c obj) w"
    and "leaves (\<lambda>w. mine w nn) (Delete c obj) w" "leaves (\<lambda>w. mine w nn) (StatusApply c obj) w"
    and "leaves (\<lambda>w. mine w nn) (StatusUpdate c obj) w" "leaves (\<lambda>w. mine w nn) (MergePatch c original obj) w"
  using writes [of _ obj w] merge [of original obj w] assms by (auto simp: leaves_def)

lemma leaves_send_patch [leaves_intros]: "leaves other (send_patch c original obj) w"
  by (auto simp: send_patch_def split: sum.splits intro!: leaves_intros)

text \<open>What a sent patch answers: the object as it was sent, or as the server has it now.\<close>

lemma send_patch_answer:
  assumes "send_patch c original obj w = (Inr obj', w')" "obj_ok obj"
  shows "obj_ok obj' \<and> object_nn obj' = object_nn obj
    \<and> (\<forall>es k v. GetAnnotations obj = Some es \<and> map_of es k = Some v \<longrightarrow> str_at (GetAnnotations obj') k = v)"
  using assms merged [of original obj w obj' w']
  by (auto simp: send_patch_def return_io_def throw_io_def str_at_def split: sum.splits if_splits)

end

section \<open>Two clusters\<close>

lemma leaves_at: "leaves V m w \<Longrightarrow> leaves (\<lambda>w. V w nn) m w"
  by (simp add: leaves_def)

text \<open>The patches of a configuration do not move an object that has metadata to another address.\<close>

definition has_metadata :: "goval \<Rightarrow> bool" where
  "has_metadata t \<longleftrightarrow> nested t [''metadata''] \<noteq> None"

lemma has_metadataI:
  "GetLabels t \<noteq> None \<Longrightarrow> has_metadata t" "GetNamespace t \<noteq> [] \<Longrightarrow> has_metadata t" "GetName t \<noteq> [] \<Longrightarrow> has_metadata t"
  by (cases t; auto simp: has_metadata_def GetLabels_def NestedStringMap_def GetNamespace_def GetName_def getNestedString_def
      nested_def split: option.splits)+

definition keeps_address :: "external \<Rightarrow> Patch option list \<Rightarrow> Patch option list \<Rightarrow> 'r NameResolver \<Rightarrow> bool" where
  "keeps_address E ps rps nr \<longleftrightarrow> (\<forall>t obj2 r p r'.
     ApplyPatches E t obj2 ps rps nr r = Inr (p, r') \<longrightarrow> has_metadata t \<longrightarrow> object_nn p = object_nn t)"

lemma keeps_addressD:
  "keeps_address E ps rps nr \<Longrightarrow> ApplyPatches E t obj2 ps rps nr r = Inr (p, r') \<Longrightarrow> GetLabels t \<noteq> None
    \<Longrightarrow> object_nn p = object_nn t"
  using has_metadataI(1) unfolding keeps_address_def by blast

text \<open>The patches of a configuration do not take off the label of the controller.\<close>

definition keeps_owner ::
  "external \<Rightarrow> Patch option list \<Rightarrow> Patch option list \<Rightarrow> 'r NameResolver \<Rightarrow> string \<Rightarrow> bool" where
  "keeps_owner E ps rps nr cid \<longleftrightarrow> (\<forall>t obj2 r p r'.
     ApplyPatches E t obj2 ps rps nr r = Inr (p, r') \<longrightarrow> labelled cid t \<longrightarrow> labelled cid p)"

text \<open>
  The state a reconcile of the syncer aims at, in terms of the virtual object \<open>v\<close> and the host object \<open>p\<close>
  it finds, and of the host object \<open>p'\<close> it leaves.
\<close>

definition fv_settled ::
  "'w RegisterContext \<Rightarrow> 'w fromVirtualController \<Rightarrow> goval option \<Rightarrow> goval option \<Rightarrow> goval option \<Rightarrow> bool" where
  "fv_settled ctx f v p p' \<longleftrightarrow> (case v of
     None \<Rightarrow> gone p' \<or> (p' = p \<and> (\<exists>po. p = Some po \<and> \<not> fv_IsManaged ctx f po))
   | Some vo \<Rightarrow>
       if isControlled vo \<or> (\<exists>po. p = Some po \<and> fv_isExcluded ctx f po) then p' = p
       else if objectMatches f vo then \<exists>po. p' = Some po \<and> \<not> fv_isExcluded ctx f po
       else gone p')"

text \<open>Likewise for the back syncer, with the virtual object \<open>v'\<close> and the host object \<open>p'\<close> it leaves.\<close>

definition bs_settled ::
  "'w RegisterContext \<Rightarrow> 'w backSyncController \<Rightarrow> goval option \<Rightarrow> goval option \<Rightarrow> goval option \<Rightarrow> goval option
     \<Rightarrow> bool" where
  "bs_settled ctx b v p v' p' \<longleftrightarrow> (case v of
     Some vo \<Rightarrow>
       if bs_isExcluded ctx b vo then v' = v \<and> p' = p
       else if p = None then gone v'
       else \<exists>vo'. v' = Some vo' \<and> \<not> bs_isExcluded ctx b vo'
   | None \<Rightarrow> (case p of
       None \<Rightarrow> v' = None \<and> p' = None
     | Some po \<Rightarrow> if containsBackSyncNameAnnotations ctx po then gone p'
         else \<exists>vo'. v' = Some vo' \<and> \<not> bs_isExcluded ctx b vo'))"

lemma bind_attempt_Inr:
  "bind_io (attempt m) (case_sum h g) w = (Inr y, w') \<longleftrightarrow>
     (\<exists>x w1. m w = (Inr x, w1) \<and> g x w1 = (Inr y, w')) \<or> (\<exists>e w1. m w = (Inl (Err e), w1) \<and> h e w1 = (Inr y, w'))"
  by (auto simp: bind_io_def attempt_def split: prod.splits sum.splits fault.splits)

lemma on_patch_error_requeues: "on_patch_error msg e w \<noteq> (Inr done_result, w')"
  by (simp add: on_patch_error_def return_io_def throw_io_def)

lemma translated_labelled:
  assumes "obj_ok obj"
  shows "labelled (fv_getControllerID ctx f) (fv_TranslateMetadata ctx f obj)"
    and "bs_translateMetadata ctx nc b obj = Inr t \<Longrightarrow> labelled (bs_getControllerID ctx b) t"
proof -
  show "labelled (fv_getControllerID ctx f) (fv_TranslateMetadata ctx f obj)"
    using translated_meta [OF assms, of "ClusterSuffix ctx" "TargetNamespace ctx"]
    by (simp add: labelled_def fv_TranslateMetadata_def Let_def SetLabels_def accessors_meta(3) meta_rules update_conv')
  show "labelled (bs_getControllerID ctx b) t" if "bs_translateMetadata ctx nc b obj = Inr t"
  proof -
    from that obtain o2 ls where t: "t = SetLabels (Some (AList.update controlledByLabel (bs_getControllerID ctx b) ls)) o2"
      and o2: "obj_ok o2"
      using assms by (auto simp: bs_translateMetadata_def Let_def result_simps SetName_def SetNamespace_def
          SetAnnotations_def obj_ok_rules split: if_splits)
    show ?thesis
      using o2 by (simp add: labelled_def t SetLabels_def accessors_meta(3) meta_rules update_conv')
  qed
qed

text \<open>An event is current when the object it reports is the stored one; a deletion is always current.\<close>

fun event_current :: "(NamespacedName \<Rightarrow> goval option) \<Rightarrow> watch_event \<Rightarrow> bool" where
  "event_current store (DeleteEvent obj) = True"
| "event_current store (CreateEvent obj) = (case obj of None \<Rightarrow> True | Some o' \<Rightarrow> store (object_nn o') = Some o')"
| "event_current store (UpdateEvent old obj) = (case obj of None \<Rightarrow> True | Some o' \<Rightarrow> store (object_nn o') = Some o')"
| "event_current store (GenericEvent obj) = (case obj of None \<Rightarrow> True | Some o' \<Rightarrow> store (object_nn o') = Some o')"

text \<open>The two clusters of the plugin, for namespaced kinds; a write to one is no write to the other.\<close>

locale clusters =
    V: cluster "VirtualClient ctx" vview pview + P: cluster "PhysicalClient ctx" pview vview
  for ctx :: "'w RegisterContext" and vview :: "'w \<Rightarrow> NamespacedName \<Rightarrow> goval option"
    and pview :: "'w \<Rightarrow> NamespacedName \<Rightarrow> goval option" +
  assumes namespaced: "vview w nn \<noteq> None \<Longrightarrow> Namespace nn \<noteq> []"
begin

text \<open>A reconcile of the syncer leaves the host objects of other controllers alone.\<close>

lemma DeleteObject_leaves:
  "object_nn pObj \<noteq> nn \<Longrightarrow> leaves (\<lambda>w. pview w nn) (DeleteObject ctx pObj) w"
  by (auto simp: DeleteObject_def split: sum.splits intro!: leaves_intros P.leaves_mine)

lemma translated_labels:
  assumes "obj_ok obj"
  shows "GetLabels (fv_TranslateMetadata ctx f obj) \<noteq> None"
    and "bs_translateMetadata ctx nc b obj = Inr t \<Longrightarrow> GetLabels t \<noteq> None"
  by (fact labelled_labels [OF translated_labelled(1) [OF assms]]) (fact labelled_labels [OF translated_labelled(2) [OF assms]])

lemma fv_apply_leaves:
  assumes "toClient (fv_patcher f) = PhysicalClient ctx"
    and "keeps_address E (Patches (fv_config f)) (ReversePatches (fv_config f)) (fv_resolver ctx f vObj)"
    and "obj_ok vObj" "GetNamespace vObj \<noteq> []" "VirtualToPhysical ctx (object_nn vObj) \<noteq> nn"
  shows "leaves (\<lambda>w. pview w nn) (fv_apply E ctx f vObj pObj) w"
  unfolding fv_apply_def
proof (rule leaves_ApplyPatches, intro allI impI)
  fix t p r' q w
  assume t: "Inr (fv_TranslateMetadata ctx f vObj) = (Inr t :: goval result)"
    "ApplyPatches E t pObj (Patches (fv_config f)) (ReversePatches (fv_config f)) (fv_resolver ctx f vObj) () = Inr (p, r')"
    "object_nn q = object_nn p"
  have tt: "t = fv_TranslateMetadata ctx f vObj" using t(1) by simp
  have "object_nn p = object_nn t"
    by (rule keeps_addressD [OF assms(2) t(2)]) (unfold tt, rule translated_labels(1) [OF assms(3)])
  then have "object_nn q = object_nn (fv_TranslateMetadata ctx f vObj)" using t(3) tt by simp
  then have "object_nn q \<noteq> nn"
    using assms(5) VirtualToPhysical_translate [OF assms(3,4), of ctx f] by (simp add: object_nn_def)
  then show "leaves (\<lambda>w. pview w nn) (StatusApply (toClient (fv_patcher f)) q) w
      \<and> leaves (\<lambda>w. pview w nn) (ApplyPatch (toClient (fv_patcher f)) q) w"
    by (simp add: assms(1) P.leaves_mine)
qed

lemma on_patch_error_leaves [leaves_intros]: "leaves U (on_patch_error msg e) w"
  by (auto simp: on_patch_error_def intro!: leaves_intros)

lemma fv_Reconcile_leaves:
  assumes "fromClient (fv_patcher f) = VirtualClient ctx" "toClient (fv_patcher f) = PhysicalClient ctx"
    and "\<And>vObj. keeps_address E (Patches (fv_config f)) (ReversePatches (fv_config f)) (fv_resolver ctx f vObj)"
    and "pview w nn = Some obj" "fv_isExcluded ctx f obj"
  shows "leaves (\<lambda>w. pview w nn) (fv_Reconcile E ctx nc f req) w"
  unfolding fv_Reconcile_def
proof (rule leaves_bind, rule V.leaves_get, rule leaves_bind, rule P.leaves_get)
  fix v w1 p w2
  assume v: "get_optional (VirtualClient ctx) req w = (Inr v, w1)"
    and p: "get_optional (PhysicalClient ctx) (VirtualToPhysical ctx req) w1 = (Inr p, w2)"
  have same: "w2 = w" "vview w req = v" "pview w (VirtualToPhysical ctx req) = p"
    using V.get_optional_reads [OF v] P.get_optional_reads [OF p] by auto
  have vo: "obj_ok vo \<and> object_nn vo = req \<and> GetNamespace vo \<noteq> []" if "v = Some vo" for vo
    using V.addressed [of w req vo] namespaced [of w req] same(2) that by (auto simp: object_nn_def)
  have po: "object_nn po = VirtualToPhysical ctx req" if "p = Some po" for po
    using P.addressed [of w _ po] same(3) that by auto
  have ne: "VirtualToPhysical ctx req \<noteq> nn" if "p = None \<or> (\<exists>po. p = Some po \<and> \<not> fv_isExcluded ctx f po)"
    using that same(3) assms(4,5) by auto
  have applied: "leaves (\<lambda>w. pview w nn) (fv_apply E ctx f vo pObj) w'"
    if "v = Some vo" "VirtualToPhysical ctx req \<noteq> nn" for vo pObj w'
    using that vo [OF that(1)] by (intro fv_apply_leaves assms(2,3)) auto
  have reverse: "leaves (\<lambda>w. pview w nn) (patcher_ApplyReversePatches E (fv_patcher f) vo po rps nr r) w'" for vo po rps nr r w'
    by (rule leaves_ApplyReversePatches) (simp_all add: assms(1) V.leaves_other [THEN leaves_at])
  show "leaves (\<lambda>w. pview w nn) (case (v, p) of (None, None) \<Rightarrow> return_io done_result
      | (None, Some p) \<Rightarrow> SyncUp ctx f p | (Some v, None) \<Rightarrow> SyncDown E ctx f v
      | (Some v, Some p) \<Rightarrow> Sync E ctx nc f p v) w2"
  proof (cases v)
    case None
    then show ?thesis
      using ne po by (cases p) (auto simp: SyncUp_def intro!: leaves_intros DeleteObject_leaves)
  next
    case (Some vo)
    show ?thesis
    proof (cases p)
      case None
      with Some show ?thesis
        using ne by (auto simp: SyncDown_def split: sum.splits intro!: leaves_intros applied)
    next
      case p: (Some po)
      show ?thesis
      proof (cases "fv_isExcluded ctx f po")
        case True
        with Some p show ?thesis by (auto simp: Sync_def intro: leaves_intros)
      next
        case False
        have "object_nn po \<noteq> nn" using ne po p False by auto
        with Some p False show ?thesis
          using ne by (auto simp: Sync_def split: sum.splits intro!: leaves_intros applied reverse P.leaves_mine)
      qed
    qed
  qed
qed

text \<open>A reconcile that succeeds has settled the two objects.\<close>

lemma fv_apply_settles:
  assumes "toClient (fv_patcher f) = PhysicalClient ctx"
    and "keeps_address E (Patches (fv_config f)) (ReversePatches (fv_config f)) (fv_resolver ctx f vObj)"
    and "keeps_owner E (Patches (fv_config f)) (ReversePatches (fv_config f)) (fv_resolver ctx f vObj)
      (fv_getControllerID ctx f)"
    and "obj_ok vObj" "GetNamespace vObj \<noteq> []" "fv_apply E ctx f vObj pObj w = (Inr x, w')"
  shows "\<exists>po. pview w' (VirtualToPhysical ctx (object_nn vObj)) = Some po \<and> \<not> fv_isExcluded ctx f po"
  using assms(6) [unfolded fv_apply_def]
proof (rule ApplyPatches_applied)
  fix t p r' q w1
  assume t: "Inr (fv_TranslateMetadata ctx f vObj) = (Inr t :: goval result)"
    "ApplyPatches E t pObj (Patches (fv_config f)) (ReversePatches (fv_config f)) (fv_resolver ctx f vObj) () = Inr (p, r')"
    and q: "ApplyPatch (toClient (fv_patcher f)) q w1 = (Inr (), w')" "object_nn q = object_nn p" "GetLabels q = GetLabels p"
  have tt: "t = fv_TranslateMetadata ctx f vObj" using t(1) by simp
  have "object_nn p = object_nn t"
    by (rule keeps_addressD [OF assms(2) t(2)]) (unfold tt, rule translated_labels(1) [OF assms(4)])
  then have "object_nn q = VirtualToPhysical ctx (object_nn vObj)"
    using q(2) tt VirtualToPhysical_translate [OF assms(4,5), of ctx f] by (simp add: object_nn_def)
  moreover have "labelled (fv_getControllerID ctx f) p"
    using t assms(3) translated_labelled(1) [OF assms(4), of ctx f] unfolding keeps_owner_def by auto
  then have "labelled (fv_getControllerID ctx f) q" using q(3) by (simp add: labelled_def)
  ultimately show ?thesis
    using P.applied [OF q(1) [unfolded assms(1)]] labelled_controller by (fastforce simp: fv_isExcluded_def)
qed

lemma DeleteObject_gone:
  assumes "DeleteObject ctx pObj w = (Inr res, w')"
  shows "gone (pview w' (object_nn pObj))"
proof (cases "Delete (PhysicalClient ctx) pObj w")
  case (Pair r w1)
  with assms show ?thesis
    using P.deleted [OF Pair]
    by (auto simp: DeleteObject_def bind_io_def attempt_def return_io_def throw_io_def
        split: sum.splits fault.splits if_splits)
qed

lemma fv_Reconcile_settles:
  assumes "fromClient (fv_patcher f) = VirtualClient ctx" "toClient (fv_patcher f) = PhysicalClient ctx"
    and "\<And>vObj. keeps_address E (Patches (fv_config f)) (ReversePatches (fv_config f)) (fv_resolver ctx f vObj)"
    and "\<And>vObj. keeps_owner E (Patches (fv_config f)) (ReversePatches (fv_config f)) (fv_resolver ctx f vObj)
      (fv_getControllerID ctx f)"
    and "fv_Reconcile E ctx nc f req w = (Inr done_result, w')"
  shows "fv_settled ctx f (vview w req) (pview w (VirtualToPhysical ctx req)) (pview w' (VirtualToPhysical ctx req))"
proof -
  let ?at = "VirtualToPhysical ctx req"
  from assms(5) obtain v w1 p w2 where v: "get_optional (VirtualClient ctx) req w = (Inr v, w1)"
    and p: "get_optional (PhysicalClient ctx) ?at w1 = (Inr p, w2)"
    and go: "(case (v, p) of (None, None) \<Rightarrow> return_io done_result
      | (None, Some p) \<Rightarrow> SyncUp ctx f p | (Some v, None) \<Rightarrow> SyncDown E ctx f v
      | (Some v, Some p) \<Rightarrow> Sync E ctx nc f p v) w2 = (Inr done_result, w')"
    by (auto simp: fv_Reconcile_def bind_io_Inr)
  have same: "w2 = w" "vview w req = v" "pview w ?at = p"
    using V.get_optional_reads [OF v] P.get_optional_reads [OF p] by auto
  have vo: "obj_ok vo \<and> object_nn vo = req \<and> GetNamespace vo \<noteq> []" if "v = Some vo" for vo
    using V.addressed [of w req vo] namespaced [of w req] same(2) that by (auto simp: object_nn_def)
  have po: "object_nn po = ?at" if "p = Some po" for po
    using P.addressed [of w _ po] same(3) that by auto
  have applied: "\<exists>po. pview w4 ?at = Some po \<and> \<not> fv_isExcluded ctx f po"
    if "v = Some vo" "fv_apply E ctx f vo pObj w3 = (Inr x, w4)" for vo pObj w3 x w4
    using fv_apply_settles [OF assms(2-4) _ _ that(2)] vo [OF that(1)] by simp
  have deleted: "gone (pview w4 ?at)"
    if "p = Some q" "bind_io (Delete (PhysicalClient ctx) q) (\<lambda>_. return_io y) w3 = (Inr res, w4)" for q y w3 res w4
    using P.deleted [of q w3 _ w4] po [OF that(1)] that(2) by (auto simp: bind_io_Inr return_io_def)
  have removed: "gone (pview w4 ?at)" if "p = Some q" "DeleteObject ctx q w3 = (Inr res, w4)" for q w3 res w4
    using DeleteObject_gone [OF that(2)] po [OF that(1)] by simp
  have reverse: "pview w4 ?at = pview w3 ?at"
    if "patcher_ApplyReversePatches E (fv_patcher f) vo q rps nr r w3 = (x, w4)" for vo q rps nr r w3 x w4
    using leaves_ApplyReversePatches [of pview "fv_patcher f" E vo q rps nr r w3] that
    by (simp add: assms(1) V.leaves_other [unfolded leaves_def] leaves_def)
  show ?thesis
  proof (cases v)
    case None
    then show ?thesis
      using go same po
      by (cases p) (auto simp: fv_settled_def SyncUp_def return_io_def gone_def [of None] fv_IsManaged_def removed
          split: if_splits)
  next
    case (Some vo)
    show ?thesis
    proof (cases p)
      case None
      with Some show ?thesis
        using go same by (auto simp: fv_settled_def SyncDown_def return_io_def bind_attempt_Inr gone_def [of None]
            throw_io_def applied split: if_splits)
    next
      case p: (Some q)
      with Some show ?thesis
        using go same by (auto simp: fv_settled_def Sync_def return_io_def bind_attempt_Inr
            on_patch_error_requeues deleted applied dest: reverse split: if_splits)
    qed
  qed
qed

text \<open>A reconcile of the back syncer leaves the virtual objects of other controllers alone.\<close>

lemma bs_apply_leaves:
  assumes "toClient (bs_patcher b) = VirtualClient ctx" "obj_ok pObj"
    and "keeps_address E ps rps nr"
    and "\<And>vNN. bs_PhysicalToVirtual ctx nc b (object_nn pObj) (Some pObj) = Inr vNN \<Longrightarrow> vNN \<noteq> nn"
  shows "leaves (\<lambda>w. vview w nn)
    (patcher_ApplyPatches E (bs_patcher b) pObj toObj ps rps (bs_translateMetadata ctx nc b) nr r) w"
proof (rule leaves_ApplyPatches, intro allI impI)
  fix t p r' q w
  assume t: "bs_translateMetadata ctx nc b pObj = Inr t" "ApplyPatches E t toObj ps rps nr r = Inr (p, r')"
    "object_nn q = object_nn p"
  then have "object_nn q = object_nn t"
    using keeps_addressD [OF assms(3) t(2) translated_labels(2) [OF assms(2) t(1)]] t(3) by simp
  also have "object_nn t \<noteq> nn"
    using bs_translateMetadata_effect(1) [OF assms(2) t(1)] assms(4) by (auto simp: object_nn_def)
  finally show "leaves (\<lambda>w. vview w nn) (StatusApply (toClient (bs_patcher b)) q) w
      \<and> leaves (\<lambda>w. vview w nn) (ApplyPatch (toClient (bs_patcher b)) q) w"
    by (simp add: assms(1) V.leaves_mine)
qed

lemma annotated_answer:
  assumes "addAnnotationsToPhysicalObject json ctx pObj vNN ms w = (Inr pObj1, w')" "obj_ok pObj" "Name vNN \<noteq> []"
    and "\<not> containsBackSyncNameAnnotations ctx pObj"
    and "bs_PhysicalToVirtual ctx nc b (object_nn pObj) (Some pObj) = Inr vNN"
  shows "obj_ok pObj1 \<and> object_nn pObj1 = object_nn pObj
    \<and> bs_PhysicalToVirtual ctx nc b (object_nn pObj1) (Some pObj1) = Inr vNN"
proof -
  let ?a = "with_annotations json (OptionsName ctx) vNN ms pObj"
  have a: "obj_ok ?a" "object_nn ?a = object_nn pObj"
    using assms(2) by (simp_all add: with_annotations_def Let_def SetAnnotations_def obj_ok_rules meta_rules
        object_nn_def accessors_meta(1,2))
  note read = with_annotations_entries [OF assms(2), of json "OptionsName ctx" vNN ms]
  note sent = assms(1) [unfolded addAnnotationsToPhysicalObject_def]
  from P.send_patch_answer [OF sent a(1)] read
  have ans: "obj_ok pObj1" "object_nn pObj1 = object_nn pObj"
    "str_at (GetAnnotations pObj1) MarkerLabel = OptionsName ctx"
    "str_at (GetAnnotations pObj1) NameAnnotation = Name vNN"
    "str_at (GetAnnotations pObj1) NamespaceAnnotation = Namespace vNN"
    by (auto simp: a(2))
  have "GetAnnotations pObj1 \<noteq> None" using ans(4) assms(3) by (auto simp: str_at_def split: option.splits)
  with ans assms(3-5) show ?thesis
    by (auto simp: bs_PhysicalToVirtual_def containsBackSyncNameAnnotations_def annotated_name_def)
qed

lemma bs_Reconcile_leaves:
  assumes "fromClient (bs_patcher b) = PhysicalClient ctx" "toClient (bs_patcher b) = VirtualClient ctx"
    and "keeps_address E (Patches (bs_config b)) (ReversePatches (bs_config b))
      (memorizingHostToVirtualNameResolver nc (bs_parentGVK b))"
    and "vview w nn = Some obj" "bs_isExcluded ctx b obj"
  shows "leaves (\<lambda>w. vview w nn) (bs_Reconcile E J ctx nc b req) w"
  unfolding bs_Reconcile_def
proof (rule leaves_bind, rule P.leaves_get, rule leaves_bind, simp add: leaves_basic, intro leaves_if leaves_basic,
    rule leaves_bind, rule V.leaves_get)
  fix p w1 vNN w2 v w3
  assume p: "get_optional (PhysicalClient ctx) req w = (Inr p, w1)"
    and n: "lift_io (bs_PhysicalToVirtual ctx nc b req p) w1 = (Inr vNN, w2)" "Name vNN \<noteq> []"
    and v: "get_optional (VirtualClient ctx) vNN w2 = (Inr v, w3)"
  have same: "w1 = w" "w2 = w" "w3 = w" "pview w req = p" "vview w vNN = v"
    and nn: "bs_PhysicalToVirtual ctx nc b req p = Inr vNN"
    using V.get_optional_reads [OF v] P.get_optional_reads [OF p] n by (auto simp: lift_io_def)
  have po: "obj_ok po \<and> object_nn po = req" if "p = Some po" for po
    using P.addressed [of w req po] same(4) that by auto
  have ne: "vNN \<noteq> nn" if "v = None \<or> (\<exists>vo. v = Some vo \<and> \<not> bs_isExcluded ctx b vo)"
    using that same(5) assms(4,5) by auto
  have applied: "leaves (\<lambda>w. vview w nn) (patcher_ApplyPatches E (bs_patcher b) qo toObj (Patches (bs_config b))
      (ReversePatches (bs_config b)) (bs_translateMetadata ctx nc b)
      (memorizingHostToVirtualNameResolver nc (bs_parentGVK b)) r) w'"
    if "obj_ok qo" "bs_PhysicalToVirtual ctx nc b (object_nn qo) (Some qo) = Inr vNN" "vNN \<noteq> nn" for qo toObj r w'
    using that by (intro bs_apply_leaves assms(2,3)) auto
  have reverse: "leaves (\<lambda>w. vview w nn) (patcher_ApplyReversePatches E (bs_patcher b) po vo rps nr r) w'" for vo po rps nr r w'
    by (rule leaves_ApplyReversePatches) (simp_all add: assms(1) P.leaves_other [THEN leaves_at])
  have annotate: "leaves (\<lambda>w. vview w nn) (addAnnotationsToPhysicalObject json ctx qo vNN ms) w'"
    "leaves (\<lambda>w. vview w nn) (removeAnnotationsFromPhysicalObject ctx qo) w'" for json qo vNN ms w'
    by (simp_all add: addAnnotationsToPhysicalObject_def removeAnnotationsFromPhysicalObject_def
        P.leaves_send_patch [THEN leaves_at])
  show "leaves (\<lambda>w. vview w nn) (case (v, p) of (None, None) \<Rightarrow> return_io done_result
      | (None, Some p) \<Rightarrow> syncUp E J ctx nc b p | (Some v, None) \<Rightarrow> syncDown ctx b v
      | (Some v, Some p) \<Rightarrow> bs_sync E J ctx nc b p v) w3"
  proof (cases v)
    case (Some vo)
    show ?thesis
    proof (cases "bs_isExcluded ctx b vo")
      case True
      with Some show ?thesis
        by (cases p) (auto simp: leaves_def bs_excluded_untouched)
    next
      case False
      have no: "vNN \<noteq> nn" using ne Some False by blast
      have vo: "object_nn vo = vNN" using V.addressed [of w vNN vo] same(5) Some by simp
      show ?thesis
      proof (cases p)
        case None
        with Some no vo show ?thesis
          by (auto simp: syncDown_def deleteVirtualObject_def split: sum.splits intro!: leaves_intros V.leaves_mine)
      next
        case p: (Some q)
        have "obj_ok q" "bs_PhysicalToVirtual ctx nc b (object_nn q) (Some q) = Inr vNN"
          using po [OF p] nn p by simp_all
        with Some p no show ?thesis
          by (auto simp: bs_sync_def split: sum.splits prod.splits intro!: leaves_intros applied reverse annotate)
      qed
    qed
  next
    case None
    have no: "vNN \<noteq> nn" using ne None by blast
    show ?thesis
    proof (cases p)
      case p: (Some q)
      have q: "obj_ok q" "bs_PhysicalToVirtual ctx nc b (object_nn q) (Some q) = Inr vNN"
        using po [OF p] nn p by simp_all
      have "leaves (\<lambda>w. vview w nn) (syncUp E J ctx nc b q) w3"
        unfolding syncUp_def
        by (auto simp: q(2) n(2) split: sum.splits prod.splits
            intro!: leaves_intros applied annotate P.leaves_other [THEN leaves_at] no
            dest: annotated_answer [OF _ q(1) n(2) _ q(2)])
      with None p show ?thesis by simp
    qed (use None in \<open>auto intro: leaves_intros\<close>)
  qed
qed

lemma deleteVirtualObject_gone:
  assumes "\<not> bs_isExcluded ctx b vObj" "deleteVirtualObject ctx b vObj w = (Inr res, w')"
  shows "gone (vview w' (object_nn vObj))"
proof (cases "Delete (VirtualClient ctx) vObj w")
  case (Pair r w1)
  with assms show ?thesis
    using V.deleted [OF Pair]
    by (auto simp: deleteVirtualObject_def bind_io_def attempt_def return_io_def throw_io_def
        split: sum.splits fault.splits if_splits)
qed

lemma bs_apply_settles:
  assumes "toClient (bs_patcher b) = VirtualClient ctx" "keeps_address E ps rps nr"
    and "keeps_owner E ps rps nr (bs_getControllerID ctx b)" "obj_ok pObj"
    and "bs_PhysicalToVirtual ctx nc b (object_nn pObj) (Some pObj) = Inr vNN"
    and "patcher_ApplyPatches E (bs_patcher b) pObj toObj ps rps (bs_translateMetadata ctx nc b) nr r w = (Inr x, w')"
  shows "\<exists>vo. vview w' vNN = Some vo \<and> \<not> bs_isExcluded ctx b vo"
  using assms(6)
proof (rule ApplyPatches_applied)
  fix t p r' q w1
  assume t: "bs_translateMetadata ctx nc b pObj = Inr t" "ApplyPatches E t toObj ps rps nr r = Inr (p, r')"
    and q: "ApplyPatch (toClient (bs_patcher b)) q w1 = (Inr (), w')" "object_nn q = object_nn p" "GetLabels q = GetLabels p"
  have "object_nn t = vNN"
    using bs_translateMetadata_effect(1) [OF assms(4) t(1)] assms(5) by (auto simp: object_nn_def)
  then have "object_nn q = vNN"
    using keeps_addressD [OF assms(2) t(2) translated_labels(2) [OF assms(4) t(1)]] q(2) by simp
  moreover have "labelled (bs_getControllerID ctx b) p"
    using t(2) assms(3) translated_labelled(2) [OF assms(4) t(1)] unfolding keeps_owner_def by blast
  then have "labelled (bs_getControllerID ctx b) q" using q(3) by (simp add: labelled_def)
  ultimately show ?thesis
    using V.applied [OF q(1) [unfolded assms(1)]] labelled_controller by (fastforce simp: bs_isExcluded_def)
qed

lemma annotate_leaves:
  "addAnnotationsToPhysicalObject json ctx pObj vNN ms w = (r, w') \<Longrightarrow> vview w' = vview w"
  using P.leaves_send_patch [of pObj "with_annotations json (OptionsName ctx) vNN ms pObj" w]
  by (simp add: addAnnotationsToPhysicalObject_def leaves_def)

lemma bs_Reconcile_settles:
  assumes "fromClient (bs_patcher b) = PhysicalClient ctx" "toClient (bs_patcher b) = VirtualClient ctx"
    and "keeps_address E (Patches (bs_config b)) (ReversePatches (bs_config b))
      (memorizingHostToVirtualNameResolver nc (bs_parentGVK b))"
    and "keeps_owner E (Patches (bs_config b)) (ReversePatches (bs_config b))
      (memorizingHostToVirtualNameResolver nc (bs_parentGVK b)) (bs_getControllerID ctx b)"
    and "bs_PhysicalToVirtual ctx nc b req (pview w req) = Inr vNN" "Name vNN \<noteq> []"
    and "bs_Reconcile E J ctx nc b req w = (Inr done_result, w')"
  shows "bs_settled ctx b (vview w vNN) (pview w req) (vview w' vNN) (pview w' req)"
proof -
  from assms(7) obtain p w1 where p: "get_optional (PhysicalClient ctx) req w = (Inr p, w1)"
    by (auto simp: bs_Reconcile_def bind_io_Inr)
  have w1: "w1 = w" "pview w req = p" using P.get_optional_reads [OF p] by auto
  from assms(5-7) p w1 obtain v w2 where v: "get_optional (VirtualClient ctx) vNN w = (Inr v, w2)"
    and go: "(case (v, p) of (None, None) \<Rightarrow> return_io done_result
      | (None, Some p) \<Rightarrow> syncUp E J ctx nc b p | (Some v, None) \<Rightarrow> syncDown ctx b v
      | (Some v, Some p) \<Rightarrow> bs_sync E J ctx nc b p v) w2 = (Inr done_result, w')"
    by (auto simp: bs_Reconcile_def bind_io_Inr return_io_def)
  have w2: "w2 = w" "vview w vNN = v" using V.get_optional_reads [OF v] by auto
  have po: "obj_ok po \<and> object_nn po = req" if "p = Some po" for po
    using P.addressed [of w req po] w1(2) that by auto
  have vo: "object_nn vo = vNN" if "v = Some vo" for vo
    using V.addressed [of w vNN vo] w2(2) that by auto
  have applied: "\<exists>vo. vview w4 vNN = Some vo \<and> \<not> bs_isExcluded ctx b vo"
    if "obj_ok q" "bs_PhysicalToVirtual ctx nc b (object_nn q) (Some q) = Inr vNN"
      "patcher_ApplyPatches E (bs_patcher b) q toObj (Patches (bs_config b)) (ReversePatches (bs_config b))
        (bs_translateMetadata ctx nc b) (memorizingHostToVirtualNameResolver nc (bs_parentGVK b)) r w3 = (Inr x, w4)"
    for q toObj r w3 x w4
    using bs_apply_settles [OF assms(2-4) that] .
  have reverse: "vview w4 = vview w3"
    if "patcher_ApplyReversePatches E (bs_patcher b) q vo rps nr r w3 = (x, w4)" for q vo rps nr r w3 x w4
    using leaves_ApplyReversePatches [of vview "bs_patcher b" E q vo rps nr r w3] that
    by (simp add: assms(1) P.leaves_other [unfolded leaves_def] leaves_def)
  show ?thesis
  proof (cases v)
    case (Some vo)
    show ?thesis
    proof (cases p)
      case None
      with Some show ?thesis
        using go w1 w2 vo [OF Some]
          bs_excluded_untouched(1) [of ctx b vo w]
        by (cases "bs_isExcluded ctx b vo") (auto simp: bs_settled_def syncDown_def
            bind_io_Inr [of "deleteVirtualObject ctx b vo"] return_io_def dest: deleteVirtualObject_gone)
    next
      case p: (Some q)
      have q: "obj_ok q" "bs_PhysicalToVirtual ctx nc b (object_nn q) (Some q) = Inr vNN"
        using po [OF p] assms(5) w1(2) p by simp_all
      from Some p show ?thesis
        using go w1 w2
        by (auto simp: bs_settled_def bs_sync_def return_io_def bind_attempt_Inr on_patch_error_requeues
            bind_io_Inr [of "addAnnotationsToPhysicalObject _ _ _ _ _"]
            dest!: reverse annotate_leaves applied [OF q] split: if_splits prod.splits)
    qed
  next
    case None
    show ?thesis
    proof (cases p)
      case p: (Some q)
      have q: "obj_ok q" "bs_PhysicalToVirtual ctx nc b (object_nn q) (Some q) = Inr vNN" "object_nn q = req"
        using po [OF p] assms(5) w1(2) p by simp_all
      show ?thesis
      proof (cases "containsBackSyncNameAnnotations ctx q")
        case True
        with None p show ?thesis
          using go w1 w2 q(3)
          by (auto simp: bs_settled_def syncUp_def bind_attempt_Inr return_io_def throw_io_def dest: P.deleted)
      next
        case False
        note inv = bind_io_Inr [of "addAnnotationsToPhysicalObject _ _ _ _ _"]
          bind_io_Inr [of "attempt (removeAnnotationsFromPhysicalObject _ _)"]
        from go None p False assms(6) q(2) obtain q1 w3 x ms w4 w5 y
          where a: "addAnnotationsToPhysicalObject (encode_mappings J) ctx q vNN None w = (Inr q1, w3)"
            and u: "patcher_ApplyPatches E (bs_patcher b) q1 None (Patches (bs_config b)) (ReversePatches (bs_config b))
              (bs_translateMetadata ctx nc b) (memorizingHostToVirtualNameResolver nc (bs_parentGVK b)) None w3
              = (Inr (x, ms), w4)"
            and c: "addAnnotationsToPhysicalObject (encode_mappings J) ctx q1 vNN ms w4 = (Inr y, w5)" "w5 = w'"
          unfolding w2(1) by (auto simp: syncUp_def bind_attempt_Inr throw_io_def return_io_def inv split: prod.splits)
        have "\<exists>vo. vview w' vNN = Some vo \<and> \<not> bs_isExcluded ctx b vo"
          using annotated_answer [OF a q(1) assms(6) False q(2)] applied [OF _ _ u] annotate_leaves [OF c(1)] c(2)
          by auto
        with None p False show ?thesis using w1 w2 by (simp add: bs_settled_def)
      qed
    next
      case p: None
      with None show ?thesis using go w1 w2 by (simp add: bs_settled_def return_io_def)
    qed
  qed
qed

text \<open>
  The events. A virtual object may have been replaced since the event that reports it; the deletion of
  an orphan then hits the newer object, so the event must be current.
\<close>

lemma on_virtual_event_leaves:
  assumes "vview w nn = Some obj" "bs_isExcluded ctx b obj" "\<And>req w. vview (add req w) nn = vview w nn"
    and "event_current (vview w) ev"
  shows "leaves (\<lambda>w. vview w nn) (on_virtual_event ctx b add ev) w"
proof -
  have enqueue: "leaves (\<lambda>w. vview w nn) (enqueueVirtual ctx b add (Some vObj) isDelete) w"
    if "isDelete \<or> vview w (object_nn vObj) = Some vObj" for vObj isDelete
  proof (cases "bs_isExcluded ctx b vObj")
    case True
    then show ?thesis by (simp add: leaves_def bs_excluded_untouched)
  next
    case False
    then have "isDelete \<or> object_nn vObj \<noteq> nn" using that assms(1,2) by auto
    moreover have "leaves (\<lambda>w. vview w nn) (\<lambda>w. (Inr (), add req w)) w'" for req w'
      by (simp add: leaves_def assms(3))
    ultimately show ?thesis
      using False by (auto simp: enqueueVirtual_def ignore_error_def split: sum.splits list.splits
          intro!: leaves_intros P.leaves_list V.leaves_mine)
  qed
  have none: "leaves (\<lambda>w. vview w nn) (enqueueVirtual ctx b add None isDelete) w" for isDelete
    by (simp add: enqueueVirtual_def leaves_basic)
  show ?thesis
  proof (cases ev)
    case (CreateEvent o')
    then show ?thesis using enqueue none assms(4) by (cases o') auto
  next
    case (UpdateEvent o1 o')
    then show ?thesis using enqueue none assms(4) by (cases o') auto
  next
    case (DeleteEvent o')
    then show ?thesis using enqueue none by (cases o') auto
  next
    case (GenericEvent o')
    then show ?thesis using enqueue none assms(4) by (cases o') auto
  qed
qed

lemma onPhysicalDelete_leaves:
  assumes "vview w nn = Some obj" "bs_isExcluded ctx b obj"
  shows "leaves (\<lambda>w. vview w nn) (onPhysicalDelete ctx nc b pObj) w"
proof -
  have got: "bs_isExcluded ctx b vObj \<or> object_nn vObj \<noteq> nn"
    if "Get (VirtualClient ctx) v w = (Inr vObj, w')" for v vObj w'
    using V.get [OF that] V.addressed [of w v vObj] assms by auto
  have same: "w' = w" if "Get (VirtualClient ctx) v w = (r, w')" for v r w'
    using V.get [OF that] by blast
  have delete: "leaves (\<lambda>w. vview w nn) (ignore_error (deleteVirtualObject ctx b vObj)) w'"
    if "bs_isExcluded ctx b vObj \<or> object_nn vObj \<noteq> nn" for vObj w'
    using that by (auto simp: ignore_error_def deleteVirtualObject_def split: sum.splits
        intro!: leaves_intros V.leaves_mine)
  show ?thesis
    unfolding onPhysicalDelete_def
    by (rule leaves_bind, simp add: leaves_basic, intro leaves_if leaves_basic, rule leaves_bind)
      (auto simp: attempt_Inr lift_io_def split: sum.splits intro!: leaves_intros V.leaves_Get delete dest: got)
qed

end

section \<open>Runs of the controllers\<close>

text \<open>
  The steps the syncers of a context take, in any order and with any state of the name cache, between
  steps of the environment: users, other controllers and the clusters themselves.
\<close>

inductive syncer_run ::
  "external \<Rightarrow> 'w RegisterContext \<Rightarrow> 'w fromVirtualController set \<Rightarrow> ('w \<Rightarrow> 'w \<Rightarrow> bool) \<Rightarrow> 'w \<Rightarrow> 'w \<Rightarrow> bool"
  for E ctx fs env w where
  start: "syncer_run E ctx fs env w w"
| reconcile: "syncer_run E ctx fs env w w1 \<Longrightarrow> f \<in> fs \<Longrightarrow>
    fv_Reconcile E ctx (nc :: 'w nameCache) f req w1 = (r, w2) \<Longrightarrow> syncer_run E ctx fs env w w2"
| environment: "syncer_run E ctx fs env w w1 \<Longrightarrow> env w1 w2 \<Longrightarrow> syncer_run E ctx fs env w w2"

inductive back_run ::
  "external \<Rightarrow> mappings_json \<Rightarrow> 'w RegisterContext \<Rightarrow> ('w \<Rightarrow> NamespacedName \<Rightarrow> goval option)
     \<Rightarrow> (NamespacedName \<Rightarrow> 'w \<Rightarrow> 'w) \<Rightarrow> 'w backSyncController set \<Rightarrow> ('w \<Rightarrow> 'w \<Rightarrow> bool) \<Rightarrow> 'w \<Rightarrow> 'w \<Rightarrow> bool"
  for E J ctx vview add bs env w where
  start: "back_run E J ctx vview add bs env w w"
| reconcile: "back_run E J ctx vview add bs env w w1 \<Longrightarrow> b \<in> bs \<Longrightarrow>
    bs_Reconcile E J ctx (nc :: 'w nameCache) b req w1 = (r, w2) \<Longrightarrow> back_run E J ctx vview add bs env w w2"
| event: "back_run E J ctx vview add bs env w w1 \<Longrightarrow> b \<in> bs \<Longrightarrow> event_current (vview w1) ev \<Longrightarrow>
    on_virtual_event ctx b add ev w1 = (r', w2) \<Longrightarrow> back_run E J ctx vview add bs env w w2"
| host_deleted: "back_run E J ctx vview add bs env w w1 \<Longrightarrow> b \<in> bs \<Longrightarrow>
    onPhysicalDelete ctx (nc :: 'w nameCache) b pObj w1 = (r', w2) \<Longrightarrow> back_run E J ctx vview add bs env w w2"
| environment: "back_run E J ctx vview add bs env w w1 \<Longrightarrow> env w1 w2 \<Longrightarrow> back_run E J ctx vview add bs env w w2"

end
