(* ===== verification/PluginRuns.thy ===== *)
theory PluginRuns
  imports Clusters
begin

text \<open>
  The controllers of a plugin together: syncers and back syncers work on the same two clusters, and
  each of them writes to both. A syncer writes to the virtual object it reconciles when its reverse
  patches say so, a back syncer annotates, changes and deletes the host objects it brings back. Here is
  what each leaves alone on its far side, and the runs in which all of them take turns.
\<close>

section \<open>What the patches of a controller may do\<close>

text \<open>No patch of a controller moves an object, on the way there nor on the way back.\<close>

definition fv_stays_put :: "external \<Rightarrow> 'w RegisterContext \<Rightarrow> 'w fromVirtualController \<Rightarrow> bool" where
  "fv_stays_put E ctx f \<longleftrightarrow>
     (\<forall>vObj. keeps_address E (Patches (fv_config f)) (ReversePatches (fv_config f)) (fv_resolver ctx f vObj))
   \<and> (\<forall>nc :: 'w nameCache. keeps_address E (ReversePatches (fv_config f)) []
        (hostToVirtualNameResolver nc (fv_gvk f) :: unit NameResolver))"

definition bs_stays_put :: "external \<Rightarrow> 'w RegisterContext \<Rightarrow> 'w backSyncController \<Rightarrow> bool" where
  "bs_stays_put E ctx b \<longleftrightarrow>
     (\<forall>nc :: 'w nameCache. keeps_address E (Patches (bs_config b)) (ReversePatches (bs_config b))
        (memorizingHostToVirtualNameResolver nc (bs_parentGVK b)))
   \<and> (\<forall>ns. keeps_address E (ReversePatches (bs_config b)) []
        (virtualToHostNameResolver (ClusterSuffix ctx) \<lparr>vthNamespace = ns, vthTargetNamespace = []\<rparr> :: unit NameResolver))"

text \<open>A back syncer has no business with a host object that stands for no virtual name.\<close>

definition unselected ::
  "'w RegisterContext \<Rightarrow> 'h nameCache set \<Rightarrow> 'w backSyncController \<Rightarrow> goval \<Rightarrow> bool" where
  "unselected ctx caches b pObj \<longleftrightarrow> (\<forall>nc \<in> caches. \<forall>vNN.
     bs_PhysicalToVirtual ctx nc b (object_nn pObj) (Some pObj) = Inr vNN \<longrightarrow> Name vNN = [])"

section \<open>The far sides\<close>

context clusters
begin

text \<open>A reconcile of a syncer leaves the virtual objects alone that some controller made.\<close>

lemma reverse_leaves:
  assumes "fromClient s = VirtualClient ctx" "keeps_address E rps [] nr" "has_metadata vObj" "object_nn vObj \<noteq> nn"
  shows "leaves (\<lambda>w. vview w nn) (patcher_ApplyReversePatches E s vObj pObj rps nr r) w"
proof (rule leaves_ApplyReversePatches_at)
  fix p r' assume "ApplyPatches E vObj (Some pObj) rps [] nr r = Inr (p, r')"
  then have "object_nn p \<noteq> nn" using assms(2-4) unfolding keeps_address_def by metis
  then show "\<forall>q w. object_nn q = object_nn p \<longrightarrow>
      leaves (\<lambda>w. vview w nn) (Update (fromClient s) q) w \<and> leaves (\<lambda>w. vview w nn) (StatusUpdate (fromClient s) q) w"
    using V.leaves_mine by (simp add: assms(1))
qed

lemma host_writes_leave_virtual:
  assumes "toClient (fv_patcher f) = PhysicalClient ctx"
  shows "leaves (\<lambda>w. vview w nn) (fv_apply E ctx f vObj pObj) w"
    and "leaves (\<lambda>w. vview w nn) (Delete (PhysicalClient ctx) qObj) w"
    and "leaves (\<lambda>w. vview w nn) (DeleteObject ctx qObj) w"
  by (auto simp: fv_apply_def DeleteObject_def assms split: sum.splits
      intro!: leaves_ApplyPatches leaves_intros P.leaves_other [THEN leaves_at])

lemma fv_Reconcile_leaves_virtual:
  assumes "fromClient (fv_patcher f) = VirtualClient ctx" "toClient (fv_patcher f) = PhysicalClient ctx"
    and "keeps_address E (ReversePatches (fv_config f)) [] (hostToVirtualNameResolver nc (fv_gvk f) :: unit NameResolver)"
    and "vview w nn = Some obj" "isControlled obj"
  shows "leaves (\<lambda>w. vview w nn) (fv_Reconcile E ctx nc f req) w"
  unfolding fv_Reconcile_def
proof (rule leaves_bind, rule V.leaves_get, rule leaves_bind, rule P.leaves_get)
  fix v w1 p w2
  assume v: "get_optional (VirtualClient ctx) req w = (Inr v, w1)"
    and p: "get_optional (PhysicalClient ctx) (VirtualToPhysical ctx req) w1 = (Inr p, w2)"
  have same: "vview w req = v" using V.get_optional_reads [OF v] by auto
  have vo: "has_metadata vo \<and> object_nn vo = req" if "v = Some vo" for vo
    using V.addressed [of w req vo] namespaced [of w req] same that has_metadataI(2) [of vo] by (auto simp: object_nn_def)
  have other: "req \<noteq> nn" if "v = Some vo" "\<not> isControlled vo" for vo
    using that same assms(4,5) by auto
  have reverse: "leaves (\<lambda>w. vview w nn) (patcher_ApplyReversePatches E (fv_patcher f) vo po (ReversePatches (fv_config f))
      (hostToVirtualNameResolver nc (fv_gvk f)) ()) w'" if "v = Some vo" "\<not> isControlled vo" for vo po w'
    using vo [OF that(1)] other [OF that] by (intro reverse_leaves assms(1,3)) auto
  note writes = host_writes_leave_virtual [OF assms(2)]
  show "leaves (\<lambda>w. vview w nn) (case (v, p) of (None, None) \<Rightarrow> return_io done_result
      | (None, Some p) \<Rightarrow> SyncUp ctx f p | (Some v, None) \<Rightarrow> SyncDown E ctx f v
      | (Some v, Some p) \<Rightarrow> Sync E ctx nc f p v) w2"
    by (cases v; cases p)
      (auto simp: SyncUp_def SyncDown_def Sync_def split: sum.splits intro!: leaves_intros writes reverse)
qed

text \<open>A reconcile of a back syncer leaves the host objects alone that it does not select.\<close>

lemma back_reverse_leaves:
  assumes "fromClient s = PhysicalClient ctx" "keeps_address E rps [] nr" "has_metadata pObj" "object_nn pObj \<noteq> nn"
  shows "leaves (\<lambda>w. pview w nn) (patcher_ApplyReversePatches E s pObj vObj rps nr r) w"
proof (rule leaves_ApplyReversePatches_at)
  fix p r' assume "ApplyPatches E pObj (Some vObj) rps [] nr r = Inr (p, r')"
  then have "object_nn p \<noteq> nn" using assms(2-4) unfolding keeps_address_def by metis
  then show "\<forall>q w. object_nn q = object_nn p \<longrightarrow>
      leaves (\<lambda>w. pview w nn) (Update (fromClient s) q) w \<and> leaves (\<lambda>w. pview w nn) (StatusUpdate (fromClient s) q) w"
    using P.leaves_mine by (simp add: assms(1))
qed

lemma send_patch_leaves_host:
  "object_nn obj \<noteq> nn \<Longrightarrow> leaves (\<lambda>w. pview w nn) (send_patch (PhysicalClient ctx) original obj) w"
  by (auto simp: send_patch_def split: sum.splits intro!: leaves_intros P.leaves_mine)

lemma annotations_nn:
  "obj_ok obj \<Longrightarrow> obj_ok (SetAnnotations es obj) \<and> object_nn (SetAnnotations es obj) = object_nn obj"
  by (cases es) (simp_all add: SetAnnotations_def obj_ok_rules meta_rules object_nn_def accessors_meta(1,2))

lemma annotate_leaves_host:
  assumes "obj_ok qo" "object_nn qo \<noteq> nn"
  shows "leaves (\<lambda>w. pview w nn) (addAnnotationsToPhysicalObject json ctx qo vNN ms) w"
    and "leaves (\<lambda>w. pview w nn) (removeAnnotationsFromPhysicalObject ctx qo) w"
  using annotations_nn [OF assms(1)] assms(2)
  by (simp_all add: addAnnotationsToPhysicalObject_def removeAnnotationsFromPhysicalObject_def with_annotations_def
      without_markers_def Let_def send_patch_leaves_host)

lemma virtual_writes_leave_host:
  assumes "toClient (bs_patcher b) = VirtualClient ctx"
  shows "leaves (\<lambda>w. pview w nn) (patcher_ApplyPatches E (bs_patcher b) pObj toObj ps rps tr nr r) w"
    and "leaves (\<lambda>w. pview w nn) (deleteVirtualObject ctx b vObj) w"
  by (auto simp: deleteVirtualObject_def assms split: sum.splits
      intro!: leaves_ApplyPatches leaves_intros V.leaves_other [THEN leaves_at])

lemma annotated_ok:
  assumes "addAnnotationsToPhysicalObject json ctx pObj vNN ms w = (Inr pObj1, w')" "obj_ok pObj"
  shows "obj_ok pObj1 \<and> object_nn pObj1 = object_nn pObj"
proof -
  have "obj_ok (with_annotations json (OptionsName ctx) vNN ms pObj)
      \<and> object_nn (with_annotations json (OptionsName ctx) vNN ms pObj) = object_nn pObj"
    using annotations_nn [OF assms(2)] by (simp add: with_annotations_def Let_def)
  with P.send_patch_answer [OF assms(1) [unfolded addAnnotationsToPhysicalObject_def]] show ?thesis by simp
qed

lemma syncUp_leaves_host:
  assumes "toClient (bs_patcher b) = VirtualClient ctx" "obj_ok q" "object_nn q \<noteq> nn"
  shows "leaves (\<lambda>w. pview w nn) (syncUp E J ctx nc b q) w"
proof -
  have answer: "obj_ok q1 \<and> object_nn q1 \<noteq> nn"
    if "addAnnotationsToPhysicalObject json ctx q nn' ms w' = (Inr q1, w4)" for json nn' ms w' q1 w4
    using annotated_ok [OF that assms(2)] assms(3) by simp
  show ?thesis
    unfolding syncUp_def using assms(3)
    by (auto simp: assms(2) split: sum.splits prod.splits dest: answer
        intro!: leaves_intros virtual_writes_leave_host [OF assms(1)] annotate_leaves_host P.leaves_mine)
qed

lemma bs_Reconcile_leaves_host:
  assumes "fromClient (bs_patcher b) = PhysicalClient ctx" "toClient (bs_patcher b) = VirtualClient ctx"
    and "\<And>ns. keeps_address E (ReversePatches (bs_config b)) []
      (virtualToHostNameResolver (ClusterSuffix ctx) \<lparr>vthNamespace = ns, vthTargetNamespace = []\<rparr> :: unit NameResolver)"
    and "pview w nn = Some obj"
    and "\<And>vNN. bs_PhysicalToVirtual ctx nc b nn (Some obj) = Inr vNN \<Longrightarrow> Name vNN = []"
  shows "leaves (\<lambda>w. pview w nn) (bs_Reconcile E J ctx nc b req) w"
  unfolding bs_Reconcile_def
proof (rule leaves_bind, rule P.leaves_get, rule leaves_bind, simp add: leaves_basic, intro leaves_if leaves_basic,
    rule leaves_bind, rule V.leaves_get)
  fix p w1 vNN w2 v w3
  assume p: "get_optional (PhysicalClient ctx) req w = (Inr p, w1)"
    and n: "lift_io (bs_PhysicalToVirtual ctx nc b req p) w1 = (Inr vNN, w2)" "Name vNN \<noteq> []"
  have same: "w1 = w" "pview w req = p" and vNN: "bs_PhysicalToVirtual ctx nc b req p = Inr vNN"
    using P.get_optional_reads [OF p] n(1) by (auto simp: lift_io_def)
  have ne: "req \<noteq> nn" using assms(4,5) same vNN n(2) by auto
  have po: "obj_ok q" "has_metadata q" "object_nn q \<noteq> nn" if "p = Some q" for q
    using P.addressed [of w req q] same(2) that ne has_metadataI(3) [of q] by (auto simp: object_nn_def)
  note writes = virtual_writes_leave_host [OF assms(2)]
  have delete: "leaves (\<lambda>w. pview w nn) (Delete (PhysicalClient ctx) q) w'" if "p = Some q" for q w'
    using po(3) [OF that] by (rule P.leaves_mine)
  have annotate: "leaves (\<lambda>w. pview w nn) (addAnnotationsToPhysicalObject json ctx q nn' ms) w'"
    if "p = Some q" for q json nn' ms w'
    by (rule annotate_leaves_host(1) [OF po(1,3) [OF that]])
  have up: "leaves (\<lambda>w. pview w nn) (syncUp E J ctx nc b q) w'" if "p = Some q" for q w'
    by (rule syncUp_leaves_host [OF assms(2) po(1,3) [OF that]])
  have reverse: "leaves (\<lambda>w. pview w nn) (patcher_ApplyReversePatches E (bs_patcher b) q vo (ReversePatches (bs_config b))
      (virtualToHostNameResolver (ClusterSuffix ctx) \<lparr>vthNamespace = ns, vthTargetNamespace = []\<rparr>) ()) w'"
    if "p = Some q" for q vo ns w'
    by (rule back_reverse_leaves [OF assms(1,3) po(2,3) [OF that]])
  show "leaves (\<lambda>w. pview w nn) (case (v, p) of (None, None) \<Rightarrow> return_io done_result
      | (None, Some p) \<Rightarrow> syncUp E J ctx nc b p | (Some v, None) \<Rightarrow> syncDown ctx b v
      | (Some v, Some p) \<Rightarrow> bs_sync E J ctx nc b p v) w3"
    by (cases v; cases p)
      (auto simp: syncDown_def bs_sync_def split: sum.splits prod.splits
        intro!: leaves_intros writes reverse delete up annotate)
qed

text \<open>Events of virtual objects, and of deleted host objects, change no host object at all.\<close>

lemma events_leave_host:
  assumes "\<And>req w. pview (add req w) nn = pview w nn"
  shows "leaves (\<lambda>w. pview w nn) (on_virtual_event ctx b add ev) w"
    and "leaves (\<lambda>w. pview w nn) (onPhysicalDelete ctx nc b pObj) w"
proof -
  have add: "leaves (\<lambda>w. pview w nn) (\<lambda>w. (Inr (), add req w)) w" for req w
    by (simp add: leaves_def assms)
  have enqueue: "leaves (\<lambda>w. pview w nn) (enqueueVirtual ctx b add vObj isDelete) w" for vObj isDelete w
    by (cases vObj) (auto simp: enqueueVirtual_def ignore_error_def split: sum.splits list.splits
        intro!: leaves_intros P.leaves_list V.leaves_other [THEN leaves_at] add)
  show "leaves (\<lambda>w. pview w nn) (on_virtual_event ctx b add ev) w"
    by (cases ev) (auto intro: enqueue)
  show "leaves (\<lambda>w. pview w nn) (onPhysicalDelete ctx nc b pObj) w"
    unfolding onPhysicalDelete_def deleteVirtualObject_def
    by (rule leaves_bind, simp add: leaves_basic, intro leaves_if leaves_basic, rule leaves_bind)
      (auto simp: lift_io_def ignore_error_def split: sum.splits
        intro!: leaves_intros V.leaves_Get V.leaves_other [THEN leaves_at])
qed

end

section \<open>Runs of all controllers\<close>

text \<open>
  The syncers \<open>fs\<close> and the back syncers \<open>bs\<close> of a context take turns in any order, with events of both
  clusters and steps of the environment between them. A back syncer reconciles with a state of the name
  cache among \<open>caches\<close>; a syncer with any.
\<close>

inductive plugin_run ::
  "external \<Rightarrow> mappings_json \<Rightarrow> 'w RegisterContext \<Rightarrow> ('w \<Rightarrow> NamespacedName \<Rightarrow> goval option)
     \<Rightarrow> (NamespacedName \<Rightarrow> 'w \<Rightarrow> 'w) \<Rightarrow> 'w fromVirtualController set \<Rightarrow> 'w backSyncController set
     \<Rightarrow> 'w nameCache set \<Rightarrow> ('w \<Rightarrow> 'w \<Rightarrow> bool) \<Rightarrow> 'w \<Rightarrow> 'w \<Rightarrow> bool"
  for E J ctx vview add fs bs caches env w where
  start: "plugin_run E J ctx vview add fs bs caches env w w"
| sync: "plugin_run E J ctx vview add fs bs caches env w w1 \<Longrightarrow> f \<in> fs \<Longrightarrow>
    fv_Reconcile E ctx (nc :: 'w nameCache) f req w1 = (r, w2) \<Longrightarrow> plugin_run E J ctx vview add fs bs caches env w w2"
| sync_back: "plugin_run E J ctx vview add fs bs caches env w w1 \<Longrightarrow> b \<in> bs \<Longrightarrow> nc \<in> caches \<Longrightarrow>
    bs_Reconcile E J ctx nc b req w1 = (r, w2) \<Longrightarrow> plugin_run E J ctx vview add fs bs caches env w w2"
| event: "plugin_run E J ctx vview add fs bs caches env w w1 \<Longrightarrow> b \<in> bs \<Longrightarrow> event_current (vview w1) ev \<Longrightarrow>
    on_virtual_event ctx b add ev w1 = (r', w2) \<Longrightarrow> plugin_run E J ctx vview add fs bs caches env w w2"
| host_deleted: "plugin_run E J ctx vview add fs bs caches env w w1 \<Longrightarrow> b \<in> bs \<Longrightarrow>
    onPhysicalDelete ctx (nc :: 'w nameCache) b pObj w1 = (r', w2) \<Longrightarrow> plugin_run E J ctx vview add fs bs caches env w w2"
| environment: "plugin_run E J ctx vview add fs bs caches env w w1 \<Longrightarrow> env w1 w2 \<Longrightarrow>
    plugin_run E J ctx vview add fs bs caches env w w2"

text \<open>The runs of one sort of controller are runs of all of them.\<close>

lemma syncer_run_plugin_run: "syncer_run E ctx fs env w w' \<Longrightarrow> plugin_run E J ctx vview add fs bs caches env w w'"
  by (induction rule: syncer_run.induct) (auto intro: plugin_run.intros)

lemma back_run_plugin_run:
  "back_run E J ctx vview add bs env w w' \<Longrightarrow> plugin_run E J ctx vview add fs bs UNIV env w w'"
  by (induction rule: back_run.induct) (auto intro: plugin_run.intros)

text \<open>What every step leaves alone, a run leaves alone.\<close>

lemma plugin_run_keeps:
  assumes "plugin_run E J ctx vview add fs bs caches env w w'" "U w = v"
    and "\<And>f nc req w. f \<in> fs \<Longrightarrow> U w = v \<Longrightarrow> leaves U (fv_Reconcile E ctx (nc :: 'w nameCache) f req) w"
    and "\<And>b nc req w. b \<in> bs \<Longrightarrow> nc \<in> caches \<Longrightarrow> U w = v \<Longrightarrow> leaves U (bs_Reconcile E J ctx nc b req) w"
    and "\<And>b ev w. b \<in> bs \<Longrightarrow> event_current (vview w) ev \<Longrightarrow> U w = v \<Longrightarrow> leaves U (on_virtual_event ctx b add ev) w"
    and "\<And>b nc pObj w. b \<in> bs \<Longrightarrow> U w = v \<Longrightarrow> leaves U (onPhysicalDelete ctx (nc :: 'w nameCache) b pObj) w"
    and "\<And>w1 w2. env w1 w2 \<Longrightarrow> U w2 = U w1"
  shows "U (w' :: 'w) = v"
  using assms(1)
proof induction
  case start
  then show ?case using assms(2) .
next
  case (sync w1 f nc req r w2)
  then show ?case using assms(3) [of f w1 nc req] by (simp add: leaves_def)
next
  case (sync_back w1 b nc req r w2)
  then show ?case using assms(4) [of b nc w1 req] by (simp add: leaves_def)
next
  case (event w1 b ev r' w2)
  then show ?case using assms(5) [of b w1 ev] by (simp add: leaves_def)
next
  case (host_deleted w1 b nc pObj r' w2)
  then show ?case using assms(6) [of b w1 nc pObj] by (simp add: leaves_def)
next
  case (environment w1 w2)
  then show ?case using assms(7) [of w1 w2] by simp
qed

context clusters begin

lemma run_spares_virtual:
  assumes "\<And>f. f \<in> fs \<Longrightarrow> fromClient (fv_patcher f) = VirtualClient ctx \<and> toClient (fv_patcher f) = PhysicalClient ctx
      \<and> fv_stays_put E ctx f"
    and "\<And>b. b \<in> bs \<Longrightarrow> fromClient (bs_patcher b) = PhysicalClient ctx \<and> toClient (bs_patcher b) = VirtualClient ctx
      \<and> bs_stays_put E ctx b"
    and "\<And>req w. vview (add req w) nn = vview w nn" "\<And>w1 w2. env w1 w2 \<Longrightarrow> vview w2 nn = vview w1 nn"
    and "plugin_run E J ctx vview add fs bs caches env w w'" "vview w nn = Some obj" "isControlled obj"
    and "\<And>b. b \<in> bs \<Longrightarrow> bs_isExcluded ctx b obj"
  shows "vview w' nn = Some obj"
  using assms(5)
proof (rule plugin_run_keeps [where U = "\<lambda>w. vview w nn" and v = "Some obj"])
  show "leaves (\<lambda>w. vview w nn) (fv_Reconcile E ctx (nc :: 'w nameCache) f req) w" if "f \<in> fs" "vview w nn = Some obj"
    for f nc req w
    using assms(1) [OF that(1)] that(2) assms(7)
    by (intro fv_Reconcile_leaves_virtual) (auto simp: fv_stays_put_def)
  show "leaves (\<lambda>w. vview w nn) (bs_Reconcile E J ctx (nc :: 'w nameCache) b req) w" if "b \<in> bs" "vview w nn = Some obj" for b nc req w
    using assms(2) [OF that(1)] that(2) assms(8) [OF that(1)]
    by (intro bs_Reconcile_leaves) (auto simp: bs_stays_put_def)
  show "leaves (\<lambda>w. vview w nn) (on_virtual_event ctx b add ev) w"
    if "b \<in> bs" "event_current (vview w) ev" "vview w nn = Some obj" for b ev w
    by (rule on_virtual_event_leaves [OF that(3) assms(8) [OF that(1)] assms(3) that(2)])
  show "leaves (\<lambda>w. vview w nn) (onPhysicalDelete ctx (nc :: 'w nameCache) b pObj) w"
    if "b \<in> bs" "vview w nn = Some obj" for b nc pObj w
    by (rule onPhysicalDelete_leaves [OF that(2) assms(8) [OF that(1)]])
qed (fact assms)+

lemma run_spares_host:
  assumes "\<And>f. f \<in> fs \<Longrightarrow> fromClient (fv_patcher f) = VirtualClient ctx \<and> toClient (fv_patcher f) = PhysicalClient ctx
      \<and> fv_stays_put E ctx f"
    and "\<And>b. b \<in> bs \<Longrightarrow> fromClient (bs_patcher b) = PhysicalClient ctx \<and> toClient (bs_patcher b) = VirtualClient ctx
      \<and> bs_stays_put E ctx b"
    and "\<And>req w. pview (add req w) nn = pview w nn" "\<And>w1 w2. env w1 w2 \<Longrightarrow> pview w2 nn = pview w1 nn"
    and "plugin_run E J ctx vview add fs bs caches env w w'" "pview w nn = Some obj"
    and "\<And>f. f \<in> fs \<Longrightarrow> fv_isExcluded ctx f obj" "\<And>b. b \<in> bs \<Longrightarrow> unselected ctx caches b obj"
  shows "pview w' nn = Some obj"
  using assms(5)
proof (rule plugin_run_keeps [where U = "\<lambda>w. pview w nn" and v = "Some obj"])
  show "leaves (\<lambda>w. pview w nn) (fv_Reconcile E ctx (nc :: 'w nameCache) f req) w" if "f \<in> fs" "pview w nn = Some obj"
    for f nc req w
    using assms(1) [OF that(1)] that(2) assms(7) [OF that(1)]
    by (intro fv_Reconcile_leaves) (auto simp: fv_stays_put_def)
  show "leaves (\<lambda>w. pview w nn) (bs_Reconcile E J ctx (nc :: 'w nameCache) b req) w"
    if "b \<in> bs" "nc \<in> caches" "pview w nn = Some obj" for b nc req w
    using assms(2) [OF that(1)] that(2,3) assms(8) [OF that(1)] P.addressed [OF that(3)]
    by (intro bs_Reconcile_leaves_host) (auto simp: bs_stays_put_def unselected_def)
  show "leaves (\<lambda>w. pview w nn) (on_virtual_event ctx b add ev) w"
    if "b \<in> bs" "event_current (vview w) ev" "pview w nn = Some obj" for b ev w
    by (rule events_leave_host(1) [OF assms(3)])
  show "leaves (\<lambda>w. pview w nn) (onPhysicalDelete ctx (nc :: 'w nameCache) b pObj) w"
    if "b \<in> bs" "pview w nn = Some obj" for b nc pObj w
    by (rule events_leave_host(2) [OF assms(3)])
qed (fact assms)+

end

end
