(* ===== verification/ObjectStore.thy ===== *)
theory ObjectStore
  imports Clusters
begin

text \<open>
  A pair of object stores that keeps the promises of \<open>clusters\<close>: each cluster is an association list from
  addresses to objects, a request that breaks the rules of the API fails and changes nothing. Any plugin
  context can be connected to it.
\<close>

section \<open>One store\<close>

type_synonym objects = "(NamespacedName \<times> goval) list"

text \<open>An object counts when it is well-formed and stands at its own address in a namespace.\<close>

definition admissible :: "goval \<Rightarrow> bool" where
  "admissible obj \<longleftrightarrow> obj_ok obj \<and> GetNamespace obj \<noteq> [] \<and> GetName obj \<noteq> []"

definition stored_at :: "objects \<Rightarrow> NamespacedName \<Rightarrow> goval option" where
  "stored_at store nn = (case map_of store nn of
     None \<Rightarrow> None
   | Some obj \<Rightarrow> if admissible obj \<and> object_nn obj = nn then Some obj else None)"

definition store_object :: "goval \<Rightarrow> objects \<Rightarrow> objects" where
  "store_object obj store = AList.update (object_nn obj) obj store"

definition drop_object :: "NamespacedName \<Rightarrow> objects \<Rightarrow> objects" where
  "drop_object nn store = AList.delete nn store"

lemma stored_at_store [simp]:
  "admissible obj \<Longrightarrow> stored_at (store_object obj store) nn = (if nn = object_nn obj then Some obj else stored_at store nn)"
  by (auto simp: stored_at_def store_object_def update_conv')

lemma stored_at_drop [simp]:
  "stored_at (drop_object nn store) nn' = (if nn' = nn then None else stored_at store nn')"
  by (auto simp: stored_at_def drop_object_def delete_conv')

lemma stored_at_ok:
  "stored_at store nn = Some obj \<Longrightarrow> object_nn obj = nn \<and> admissible obj"
  by (auto simp: stored_at_def split: option.splits if_splits)

text \<open>The status a request sends replaces the stored one.\<close>

definition with_status :: "goval \<Rightarrow> goval \<Rightarrow> goval" where
  "with_status obj old = (case nested obj [''status''] of
     None \<Rightarrow> RemoveNestedField [''status''] old
   | Some st \<Rightarrow> SetNestedField st [''status''] old)"

lemma with_status_ok: "admissible old \<Longrightarrow> admissible (with_status obj old) \<and> object_nn (with_status obj old) = object_nn old"
  by (auto simp: admissible_def obj_ok_iff with_status_def object_nn_def GetName_def GetNamespace_def
      getNestedString_def nested_def update_conv' delete_conv' split: option.splits)

section \<open>Two stores\<close>

record cluster_pair =
  virtual_objects :: objects
  host_objects :: objects

text \<open>
  The client of one of them, given how to read and change the store and the registered field index. A
  write of an object that does not exist is \<open>NotFound\<close>, of an inadmissible one \<open>Invalid\<close>.
\<close>

definition change_store ::
  "('w \<Rightarrow> objects) \<Rightarrow> ((objects \<Rightarrow> objects) \<Rightarrow> 'w \<Rightarrow> 'w) \<Rightarrow> goval \<Rightarrow> bool \<Rightarrow> (objects \<Rightarrow> objects) \<Rightarrow> ('w, unit) io" where
  "change_store sel upd obj create f w =
     (if \<not> admissible obj then (Inl (Err (Api Invalid (GetName obj))), w)
      else if \<not> create \<and> stored_at (sel w) (object_nn obj) = None
        then (Inl (Err (Api NotFound (GetName obj))), w)
      else (Inr (), upd f w))"

definition write_status :: "goval \<Rightarrow> objects \<Rightarrow> objects" where
  "write_status obj store = (case stored_at store (object_nn obj) of
     None \<Rightarrow> store
   | Some old \<Rightarrow> store_object (with_status obj old) store)"

definition store_client ::
  "('w \<Rightarrow> objects) \<Rightarrow> ((objects \<Rightarrow> objects) \<Rightarrow> 'w \<Rightarrow> 'w) \<Rightarrow> (goval \<Rightarrow> string list) \<Rightarrow> 'w Client" where
  "store_client sel upd ix = \<lparr>
     Get = (\<lambda>nn w. (case stored_at (sel w) nn of None \<Rightarrow> Inl (Err (Api NotFound (Name nn))) | Some obj \<Rightarrow> Inr obj, w)),
     ApplyPatch = (\<lambda>obj. change_store sel upd obj True (store_object obj)),
     MergePatch = (\<lambda>original obj. bind_io (change_store sel upd obj False (store_object obj)) (\<lambda>_. return_io obj)),
     MergeData = (\<lambda>original obj. Inr (if deep_equal original obj then ''{}'' else ''{...}'')),
     Update = (\<lambda>obj. change_store sel upd obj False (store_object obj)),
     Delete = (\<lambda>obj. change_store sel upd obj False (drop_object (object_nn obj))),
     StatusApply = (\<lambda>obj. change_store sel upd obj False (write_status obj)),
     StatusUpdate = (\<lambda>obj. change_store sel upd obj False (write_status obj)),
     ListByIndex = (\<lambda>i w. (Inr (filter (\<lambda>obj. i \<in> set (ix obj)) (map snd (sel w))), w))\<rparr>"

definition connect :: "cluster_pair RegisterContext \<Rightarrow> cluster_pair RegisterContext" where
  "connect ctx = ctx\<lparr>
     VirtualClient := store_client virtual_objects virtual_objects_update (\<lambda>obj. []),
     PhysicalClient := store_client host_objects host_objects_update (IndexByVirtualName ctx)\<rparr>"

definition virtual_at :: "cluster_pair \<Rightarrow> NamespacedName \<Rightarrow> goval option" where
  "virtual_at w = stored_at (virtual_objects w)"

definition host_at :: "cluster_pair \<Rightarrow> NamespacedName \<Rightarrow> goval option" where
  "host_at w = stored_at (host_objects w)"

text \<open>The promises of one cluster, for any store inside a world.\<close>

lemma write_status_elsewhere: "nn \<noteq> object_nn obj \<Longrightarrow> stored_at (write_status obj store) nn = stored_at store nn"
  using stored_at_ok [of store "object_nn obj"] with_status_ok
  by (auto simp: write_status_def split: option.splits)

lemma change_store_leaves:
  assumes "\<And>f w. sel (upd f w) = f (sel w)" "\<And>f w. V (upd f w) = V w"
    and "\<And>nn store. admissible obj \<Longrightarrow> nn \<noteq> object_nn obj \<Longrightarrow> stored_at (f store) nn = stored_at store nn"
  shows "V (snd (change_store sel upd obj cr f w)) = V w
    \<and> (\<forall>nn. nn \<noteq> object_nn obj \<longrightarrow> stored_at (sel (snd (change_store sel upd obj cr f w))) nn = stored_at (sel w) nn)"
  using assms by (simp add: change_store_def)

lemma store_cluster:
  assumes lens: "\<And>f w. sel (upd f w) = f (sel w)" "\<And>f w. V (upd f w) = V w"
  shows "cluster (store_client sel upd ix) (\<lambda>w. stored_at (sel w)) V"
proof
  fix nn w r w'
  assume "Get (store_client sel upd ix) nn w = (r, w')"
  then show "w' = w \<and> (\<forall>obj. r = Inr obj \<longrightarrow> stored_at (sel w) nn = Some obj)
      \<and> (\<forall>e. r = Inl (Err e) \<and> IsNotFound e \<longrightarrow> stored_at (sel w) nn = None)"
    by (auto simp: store_client_def split: option.splits)
next
  fix i w r w'
  assume "ListByIndex (store_client sel upd ix) i w = (r, w')"
  then show "w' = w" by (simp add: store_client_def)
next
  fix w nn obj
  assume "stored_at (sel w) nn = Some obj"
  then show "object_nn obj = nn \<and> obj_ok obj \<and> Name nn \<noteq> []"
    using stored_at_ok [of "sel w" nn obj] by (auto simp: admissible_def object_nn_def)
next
  fix m obj w
  assume "m \<in> {ApplyPatch (store_client sel upd ix) obj, Update (store_client sel upd ix) obj,
    Delete (store_client sel upd ix) obj, StatusApply (store_client sel upd ix) obj, StatusUpdate (store_client sel upd ix) obj}"
  then show "V (snd (m w)) = V w \<and> (\<forall>nn. nn \<noteq> object_nn obj \<longrightarrow> stored_at (sel (snd (m w))) nn = stored_at (sel w) nn)"
    by (auto simp: store_client_def write_status_elsewhere
        intro!: change_store_leaves [where sel = sel and upd = upd and V = V, OF lens, THEN conjunct1]
          change_store_leaves [where sel = sel and upd = upd and V = V, OF lens, THEN conjunct2, rule_format])
next
  fix original obj w
  show "V (snd (MergePatch (store_client sel upd ix) original obj w)) = V w
    \<and> (\<forall>nn. nn \<noteq> object_nn obj \<longrightarrow>
      stored_at (sel (snd (MergePatch (store_client sel upd ix) original obj w))) nn = stored_at (sel w) nn)"
    by (simp add: store_client_def bind_io_def return_io_def change_store_def lens)
next
  fix original obj w obj' w'
  assume "MergePatch (store_client sel upd ix) original obj w = (Inr obj', w')" "obj_ok obj"
  then show "obj_ok obj' \<and> object_nn obj' = object_nn obj
      \<and> (\<forall>es k v. GetAnnotations obj = Some es \<and> map_of es k = Some v \<longrightarrow> str_at (GetAnnotations obj') k = v)"
    by (auto simp: store_client_def bind_io_def return_io_def change_store_def str_at_def split: if_splits)
next
  fix obj w w'
  assume "ApplyPatch (store_client sel upd ix) obj w = (Inr (), w')"
  then show "\<exists>obj'. stored_at (sel w') (object_nn obj) = Some obj' \<and> (\<forall>cid. labelled cid obj \<longrightarrow> labelled cid obj')"
    by (auto simp: store_client_def change_store_def lens split: if_splits)
next
  fix obj w r w'
  assume "Delete (store_client sel upd ix) obj w = (r, w')" "r = Inr () \<or> (\<exists>e. r = Inl (Err e) \<and> IsNotFound e)"
  then show "gone (stored_at (sel w') (object_nn obj))"
    by (auto simp: store_client_def change_store_def lens gone_def IsNotFound_def split: if_splits)
qed

interpretation stores: clusters "connect ctx" virtual_at host_at for ctx
proof -
  have "cluster (VirtualClient (connect ctx)) virtual_at host_at"
    using store_cluster [of virtual_objects virtual_objects_update host_at "\<lambda>obj. []"]
    by (simp add: connect_def virtual_at_def [abs_def] host_at_def)
  moreover have "cluster (PhysicalClient (connect ctx)) host_at virtual_at"
    using store_cluster [of host_objects host_objects_update virtual_at "IndexByVirtualName ctx"]
    by (simp add: connect_def virtual_at_def host_at_def [abs_def])
  ultimately show "clusters (connect ctx) virtual_at host_at"
    by (auto simp: clusters_def clusters_axioms_def virtual_at_def object_nn_def admissible_def dest: stored_at_ok)
qed

end
