(* ===== verification/RunProperties.thy ===== *)
theory RunProperties
  imports PluginProperties PluginRuns ObjectStore
begin

text \<open>
  Properties of the controllers at work: what a sequence of their steps, in any order and interleaved with
  other users of the clusters, leaves untouched, and what one successful reconcile achieves.
\<close>

section \<open>Objects of others\<close>

lemma created_clients:
  "CreateFromVirtualSyncer compile requirement ctx c = Inr f \<Longrightarrow>
     fromClient (fv_patcher f) = VirtualClient ctx \<and> toClient (fv_patcher f) = PhysicalClient ctx"
  "CreateBackSyncer ctx c' parent = Inr b \<Longrightarrow>
     fromClient (bs_patcher b) = PhysicalClient ctx \<and> toClient (bs_patcher b) = VirtualClient ctx"
  by (auto simp: CreateFromVirtualSyncer_def CreateBackSyncer_def result_simps split: if_splits)

text \<open>No run of the syncers touches a host object that none of them owns: the object is the same after any
  number of reconciles of any objects, with any state of the name cache, as long as others leave it alone.\<close>

lemma other_host_objects_survive:
  assumes "clusters ctx vview pview"
    and "\<forall>f \<in> fs. \<exists>c. CreateFromVirtualSyncer compile requirement ctx c = Inr f"
    and "\<forall>f \<in> fs. \<forall>vObj. keeps_address E (Patches (fv_config f)) (ReversePatches (fv_config f)) (fv_resolver ctx f vObj)"
    and "\<forall>w1 w2. env w1 w2 \<longrightarrow> pview w2 nn = pview w1 nn"
    and "syncer_run E ctx fs env w w'" "pview w nn = Some obj" "\<forall>f \<in> fs. fv_isExcluded ctx f obj"
  shows "pview w' nn = Some obj"
  using assms(5)
proof induction
  case (reconcile w1 f nc req r w2)
  have c: "fromClient (fv_patcher f) = VirtualClient ctx" "toClient (fv_patcher f) = PhysicalClient ctx"
    using assms(2) reconcile.hyps(2) created_clients(1) by blast+
  have "leaves (\<lambda>w. pview w nn) (fv_Reconcile E ctx nc f req) w1"
    by (rule clusters.fv_Reconcile_leaves [OF assms(1) c])
      (use assms(3,7) reconcile in auto)
  with reconcile show ?case by (simp add: leaves_def)
qed (use assms(4,6) in auto)

text \<open>No run of the back syncers touches a virtual object that none of them owns, through reconciles, current
  events of virtual objects and deletions of host objects.\<close>

lemma other_virtual_objects_survive:
  assumes "clusters ctx vview pview"
    and "\<forall>b \<in> bs. \<exists>c parent. CreateBackSyncer ctx c parent = Inr b"
    and "\<forall>b \<in> bs. \<forall>nc :: 'w nameCache. keeps_address E (Patches (bs_config b)) (ReversePatches (bs_config b))
      (memorizingHostToVirtualNameResolver nc (bs_parentGVK b))"
    and "\<forall>req w. vview (add req w) = vview w" "\<forall>w1 w2. env w1 w2 \<longrightarrow> vview w2 nn = vview w1 nn"
    and "back_run E J ctx vview add bs env w w'" "vview w nn = Some obj" "\<forall>b \<in> bs. bs_isExcluded ctx b obj"
  shows "vview (w' :: 'w) nn = Some obj"
  using assms(6)
proof induction
  case (reconcile w1 b nc req r w2)
  have c: "fromClient (bs_patcher b) = PhysicalClient ctx" "toClient (bs_patcher b) = VirtualClient ctx"
    using assms(2) reconcile.hyps(2) created_clients(2) by blast+
  have "leaves (\<lambda>w. vview w nn) (bs_Reconcile E J ctx nc b req) w1"
    by (rule clusters.bs_Reconcile_leaves [OF assms(1) c])
      (use assms(3,8) reconcile in auto)
  with reconcile show ?case by (simp add: leaves_def)
next
  case (event w1 b ev r' w2)
  have "leaves (\<lambda>w. vview w nn) (on_virtual_event ctx b add ev) w1"
    by (rule clusters.on_virtual_event_leaves [OF assms(1)]) (use assms(4,8) event in auto)
  with event show ?case by (simp add: leaves_def)
next
  case (host_deleted w1 b nc pObj r' w2)
  have "leaves (\<lambda>w. vview w nn) (onPhysicalDelete ctx nc b pObj) w1"
    by (rule clusters.onPhysicalDelete_leaves [OF assms(1)]) (use assms(8) host_deleted in auto)
  with host_deleted show ?case by (simp add: leaves_def)
qed (use assms(5,7) in auto)

text \<open>No run of the plugin touches the objects of others, when the patches of the controllers move no object.\<close>

lemma plugin_spares_others:
  assumes "clusters ctx vview pview"
    and "\<forall>f \<in> fs. (\<exists>c. CreateFromVirtualSyncer compile requirement ctx c = Inr f) \<and> fv_stays_put E ctx f"
    and "\<forall>b \<in> bs. (\<exists>c parent. CreateBackSyncer ctx c parent = Inr b) \<and> bs_stays_put E ctx b"
    and "\<forall>req w. vview (add req w) = vview w \<and> pview (add req w) = pview w"
    and "plugin_run E J ctx vview add fs bs caches env w w'"
  shows "((\<forall>w1 w2. env w1 w2 \<longrightarrow> vview w2 nn = vview w1 nn) \<longrightarrow> vview w nn = Some obj \<longrightarrow> isControlled obj \<longrightarrow>
      (\<forall>b \<in> bs. bs_isExcluded ctx b obj) \<longrightarrow> vview w' nn = Some obj)
    \<and> ((\<forall>w1 w2. env w1 w2 \<longrightarrow> pview w2 nn = pview w1 nn) \<longrightarrow> pview w nn = Some obj \<longrightarrow>
      (\<forall>f \<in> fs. fv_isExcluded ctx f obj) \<longrightarrow> (\<forall>b \<in> bs. unselected ctx caches b obj) \<longrightarrow> pview w' nn = Some obj)"
proof -
  note fs = assms(2) [THEN bspec] and bs = assms(3) [THEN bspec]
  have f: "fromClient (fv_patcher f) = VirtualClient ctx \<and> toClient (fv_patcher f) = PhysicalClient ctx
      \<and> fv_stays_put E ctx f" if "f \<in> fs" for f
    using fs [OF that] created_clients(1) by blast
  have b: "fromClient (bs_patcher b) = PhysicalClient ctx \<and> toClient (bs_patcher b) = VirtualClient ctx
      \<and> bs_stays_put E ctx b" if "b \<in> bs" for b
    using bs [OF that] created_clients(2) by blast
  show ?thesis
  proof (intro conjI impI)
    assume "\<forall>w1 w2. env w1 w2 \<longrightarrow> vview w2 nn = vview w1 nn" "vview w nn = Some obj" "isControlled obj"
      "\<forall>b \<in> bs. bs_isExcluded ctx b obj"
    then show "vview w' nn = Some obj"
      using assms(4) by (intro clusters.run_spares_virtual [OF assms(1) f b _ _ assms(5)]) simp_all
  next
    assume "\<forall>w1 w2. env w1 w2 \<longrightarrow> pview w2 nn = pview w1 nn" "pview w nn = Some obj"
      "\<forall>f \<in> fs. fv_isExcluded ctx f obj" "\<forall>b \<in> bs. unselected ctx caches b obj"
    then show "pview w' nn = Some obj"
      using assms(4) by (intro clusters.run_spares_host [OF assms(1) f b _ _ assms(5)]) simp_all
  qed
qed

section \<open>What a reconcile achieves\<close>



section \<open>Two stores at work\<close>

text \<open>A codec that knows some objects, by their names; it keeps every object it can encode.\<close>

definition document_codec :: "(string \<Rightarrow> goval option) \<Rightarrow> external" where
  "document_codec docs = codec\<lparr>
     json_Marshal := (\<lambda>v. if docs (GetName v) = Some v then Inr (GetName v) else Inl (Plain ''unknown object'')),
     yaml_Unmarshal_node := (\<lambda>s. Inr (YNode DocumentNode [] [] [YNode ScalarNode [] s []])),
     yaml_Marshal_node := (\<lambda>t. case t of
         YNode _ _ _ [YNode _ _ s _] \<Rightarrow> Inr s | _ \<Rightarrow> Inl (Plain ''unknown document'')),
     jsonyaml_Unmarshal_object := (\<lambda>s. case docs s of None \<Rightarrow> Inl (Plain ''unknown name'') | Some v \<Rightarrow> Inr v)\<rparr>"

lemma document_codec_node:
  "NewJSONNode (document_codec docs) v h =
     (if docs (GetName v) = Some v
      then Inr (Suc (length h), h @ [\<lparr>nkind = ScalarNode, ntag = [], nvalue = GetName v, ncontent = []\<rparr>,
        \<lparr>nkind = DocumentNode, ntag = [], nvalue = [], ncontent = [length h]\<rparr>])
      else fail (''failed marshaling struct: unknown object''))"
  by (simp add: NewJSONNode_def node_from_text_def document_codec_def alloc_def)

lemma document_codec_text:
  "marshal_node (document_codec docs) (\<lparr>nkind = ScalarNode, ntag = [], nvalue = s, ncontent = []\<rparr> #
    \<lparr>nkind = DocumentNode, ntag = [], nvalue = [], ncontent = [0]\<rparr> # h) (Suc 0) = Inr s"
  by (simp add: marshal_node_def read_tree_def document_codec_def node_at_def)

lemma document_codec_keeps:
  "ApplyPatches (document_codec docs) t obj2 [] [] nr r = Inr (p, r') \<Longrightarrow> p = t"
  by (auto simp: ApplyPatches_def document_codec_node patch_nodes_def document_codec_text result_simps
      document_codec_def [THEN arg_cong, of jsonyaml_Unmarshal_object] split: if_splits option.splits)

lemma document_codec_encodes:
  assumes "docs (GetName t) = Some t"
  shows "ApplyPatches (document_codec docs) t None [] [] nr r = Inr (t, r)"
  using assms
  by (simp add: ApplyPatches_def document_codec_node patch_nodes_def document_codec_text
      document_codec_def [THEN arg_cong, of jsonyaml_Unmarshal_object] result_simps)

text \<open>A context connected to two stores, with one virtual object and a host object of someone else.\<close>

definition pair_ctx :: "cluster_pair RegisterContext" where
  "pair_ctx = connect \<lparr>VirtualClient = store_client virtual_objects virtual_objects_update (\<lambda>obj. []),
     PhysicalClient = store_client host_objects host_objects_update (\<lambda>obj. []),
     TargetNamespace = ''host'', ClusterSuffix = ''vc'', Environment = (\<lambda>v. ''plugin''),
     OptionsName = ''vc'', OptionsControllers = []\<rparr>"

definition pair_syncer :: "cluster_pair fromVirtualController" where
  "pair_syncer = \<lparr>fv_patcher = \<lparr>fromClient = VirtualClient pair_ctx, toClient = PhysicalClient pair_ctx,
       statusIsSubresource = True\<rparr>,
     fv_gvk = FromAPIVersionAndKind ''v1'' ''Foo'', fv_config = no_patches, fv_selector = None,
     fv_targetNamespace = ''host''\<rparr>"

lemma pair_syncer_created:
  "CreateFromVirtualSyncer (\<lambda>s. Inl (Plain s)) (\<lambda>k v. None) pair_ctx no_patches = Inr pair_syncer"
  by (simp add: CreateFromVirtualSyncer_def validateFromVirtualConfig_def no_patches_def pair_syncer_def
      pair_ctx_def connect_def result_simps)

definition others_nn :: NamespacedName where
  "others_nn = \<lparr>Namespace = ''host'', Name = ''others''\<rparr>"

definition others_object :: goval where
  "others_object = VMap [(''metadata'', VMap [(''name'', VStr ''others''), (''namespace'', VStr ''host''),
     (''labels'', VMap [(controlledByLabel, VStr ''someone'')])])]"

definition web_on_host :: goval where
  "web_on_host = fv_TranslateMetadata pair_ctx pair_syncer web_object"

definition host_nn :: NamespacedName where
  "host_nn = VirtualToPhysical pair_ctx web_nn"

definition before_sync :: cluster_pair where
  "before_sync = \<lparr>virtual_objects = [(web_nn, web_object), (others_nn, others_object)], host_objects = [(others_nn, others_object)]\<rparr>"

definition after_sync :: cluster_pair where
  "after_sync = \<lparr>virtual_objects = [(web_nn, web_object), (others_nn, others_object)],
     host_objects = [(others_nn, others_object), (host_nn, web_on_host)]\<rparr>"

abbreviation sync_codec :: external where
  "sync_codec \<equiv> document_codec [''web'' \<mapsto> web_object, Name host_nn \<mapsto> web_on_host]"

lemma web_parts: "GetNamespace web_object = ''default''" "GetName web_object = ''web''" "object_nn web_object = web_nn"
  by (simp_all add: web_object_def web_nn_def object_nn_def GetNamespace_def GetName_def getNestedString_def nested_def)

text \<open>The translation of the metadata keeps the status.\<close>

lemma status_of_meta [simp]:
  "status_of (SetNestedField v (meta_field f) obj) = status_of obj"
  "status_of (RemoveNestedField (meta_field f) obj) = status_of obj"
  by (cases obj; auto simp: status_of_def update_conv' delete_conv' split: option.splits goval.splits)+

lemma status_of_translated: "status_of (fv_TranslateMetadata ctx f obj) = status_of obj"
  by (simp add: fv_TranslateMetadata_def Let_def TranslateMetadata_def setupMetadataWithName_def SetLabels_def
      SetAnnotations_def SetName_def SetNamespace_def set_string_map_def set_or_remove_def ResetObjectMetadata_def
      split: option.splits)

lemma pair_ctx_parts:
  "TargetNamespace pair_ctx = ''host''" "ClusterSuffix pair_ctx = ''vc''" "OptionsName pair_ctx = ''vc''"
  "VirtualClient pair_ctx = store_client virtual_objects virtual_objects_update (\<lambda>obj. [])"
  "PhysicalClient pair_ctx = store_client host_objects host_objects_update (IndexByVirtualName pair_ctx)"
  "controller_id (Environment pair_ctx) [] = ''plugin''"
  by (simp_all add: pair_ctx_def connect_def controller_id_def GetPluginName_def IndexByVirtualName_def [abs_def]
      containsBackSyncNameAnnotations_def)

lemma pair_syncer_parts:
  "toClient (fv_patcher pair_syncer) = PhysicalClient pair_ctx" "statusIsSubresource (fv_patcher pair_syncer)"
  "Patches (fv_config pair_syncer) = []" "ReversePatches (fv_config pair_syncer) = []" "fv_selector pair_syncer = None"
  by (simp_all add: pair_syncer_def no_patches_def)

lemma host_nn: "host_nn = \<lparr>Namespace = ''host'', Name = ''web-x-default-x-vc''\<rparr>"
proof -
  have "PhysicalName ''vc'' ''web'' ''default'' = ''web-x-default-x-vc''"
    by (subst PhysicalName_short) (simp_all add: short_name_def)
  then show ?thesis by (simp add: host_nn_def VirtualToPhysical_def pair_ctx_parts web_nn_def)
qed

lemma host_nn_others: "host_nn \<noteq> others_nn"
  by (simp add: host_nn others_nn_def)

lemma web_on_host_parts:
  "object_nn web_on_host = host_nn" "obj_ok web_on_host" "\<not> fv_isExcluded pair_ctx pair_syncer web_on_host"
  "status_of web_on_host = Inr None" "admissible web_on_host"
proof -
  show nn: "object_nn web_on_host = host_nn"
    using VirtualToPhysical_translate [OF web_object_ok, of pair_ctx pair_syncer]
    by (simp add: web_on_host_def host_nn_def object_nn_def web_parts web_nn_def)
  show ok: "obj_ok web_on_host"
    using translated_meta(1) [OF web_object_ok]
    by (simp add: web_on_host_def fv_TranslateMetadata_def Let_def SetLabels_def obj_ok_rules)
  show "\<not> fv_isExcluded pair_ctx pair_syncer web_on_host"
    unfolding web_on_host_def by (rule fv_TranslateMetadata_own(1) [OF web_object_ok])
  show "status_of web_on_host = Inr None"
    unfolding web_on_host_def status_of_translated by code_simp
  show "admissible web_on_host" using nn ok by (auto simp: admissible_def object_nn_def host_nn)
qed

lemma syncs_web:
  "fv_Reconcile sync_codec pair_ctx (emptyNameCache :: cluster_pair nameCache) pair_syncer web_nn before_sync
    = (Inr done_result, after_sync)"
proof -
  have v: "get_optional (VirtualClient pair_ctx) web_nn before_sync = (Inr (Some web_object), before_sync)"
    by (simp add: get_optional_def bind_io_def attempt_def return_io_def pair_ctx_parts store_client_def before_sync_def
        stored_at_def admissible_def web_object_ok web_parts)
  have p: "get_optional (PhysicalClient pair_ctx) (VirtualToPhysical pair_ctx web_nn) before_sync = (Inr None, before_sync)"
    by (simp add: host_nn_def [symmetric] get_optional_def bind_io_def attempt_def return_io_def
        pair_ctx_parts store_client_def before_sync_def stored_at_def others_nn_def host_nn IsNotFound_def)
  have a: "ApplyPatches sync_codec web_on_host None [] [] (fv_resolver pair_ctx pair_syncer web_object) () = Inr (web_on_host, ())"
    using web_on_host_parts(1) by (intro document_codec_encodes) (auto simp: object_nn_def host_nn)
  have s: "ApplyPatch (PhysicalClient pair_ctx) web_on_host before_sync = (Inr (), after_sync)"
    by (simp add: pair_ctx_parts store_client_def change_store_def web_on_host_parts before_sync_def
        after_sync_def store_object_def others_nn_def host_nn)
  have "fv_apply sync_codec pair_ctx pair_syncer web_object None before_sync = (Inr (web_on_host, ()), after_sync)"
    by (simp add: fv_apply_def patcher_ApplyPatches_def toUnstructured_def web_on_host_def [symmetric] a
        pair_syncer_parts web_on_host_parts bind_io_def wrap_io_def return_io_def io_simps_basic s)
  moreover have "\<not> isControlled web_object" by code_simp
  ultimately show ?thesis
    by (simp add: fv_Reconcile_def bind_io_def v p SyncDown_def objectMatches_def pair_syncer_parts attempt_def return_io_def)
qed

lemma document_codec_marks:
  "keeps_address (document_codec docs) [] [] nr" "keeps_owner (document_codec docs) [] [] nr cid"
  by (auto simp: keeps_address_def keeps_owner_def dest: document_codec_keeps)

lemma others_parts:
  "object_nn others_object = others_nn" "admissible others_object" "GetLabels others_object = Some [(controlledByLabel, ''someone'')]"
proof -
  show nn: "object_nn others_object = others_nn"
    by (simp add: others_object_def others_nn_def object_nn_def GetNamespace_def GetName_def getNestedString_def nested_def)
  show "admissible others_object"
    using nn by (auto simp: admissible_def object_nn_def others_nn_def obj_ok_iff others_object_def)
  show "GetLabels others_object = Some [(controlledByLabel, ''someone'')]"
    by (simp add: others_object_def GetLabels_def NestedStringMap_def nested_def)
qed

lemma controller_of_others: "cid \<noteq> ''someone'' \<Longrightarrow> \<not> has_controller others_object cid"
  by (simp add: has_controller_def others_parts str_at_def)

lemma other_host_objects_survive_example:
  "syncer_run sync_codec pair_ctx {pair_syncer} (\<lambda>w1 w2. False) before_sync after_sync
    \<and> host_at after_sync others_nn = Some others_object"
proof -
  have run: "syncer_run sync_codec pair_ctx {pair_syncer} (\<lambda>w1 w2. False) before_sync after_sync"
    by (rule syncer_run.reconcile [OF syncer_run.start _ syncs_web]) simp
  have "clusters pair_ctx virtual_at host_at"
    unfolding pair_ctx_def by (rule stores.clusters_axioms)
  then have "host_at after_sync others_nn = Some others_object"
  proof (rule other_host_objects_survive [OF _ _ _ _ run])
    show "host_at before_sync others_nn = Some others_object"
      by (simp add: host_at_def before_sync_def stored_at_def others_parts)
    show "\<forall>f \<in> {pair_syncer}. fv_isExcluded pair_ctx f others_object"
      by (simp add: fv_isExcluded_def controller_of_others fv_getControllerID_def pair_syncer_def no_patches_def pair_ctx_parts)
  qed (use pair_syncer_created in \<open>auto simp: pair_syncer_parts document_codec_marks\<close>)
  with run show ?thesis by blast
qed


text \<open>A virtual object whose host object is gone, beside one of someone else.\<close>

definition pair_back :: "cluster_pair backSyncController" where
  "pair_back = \<lparr>bs_patcher = \<lparr>fromClient = PhysicalClient pair_ctx, toClient = VirtualClient pair_ctx,
       statusIsSubresource = True\<rparr>,
     bs_parentGVK = FromAPIVersionAndKind ''v1'' ''Foo'', bs_config = name_sync_back, bs_targetNamespace = ''host''\<rparr>"

lemma pair_back_created: "CreateBackSyncer pair_ctx name_sync_back no_patches = Inr pair_back"
  by (simp add: CreateBackSyncer_def name_sync_back_def bar_sync_back_def no_patches_def pair_back_def pair_ctx_parts)

definition before_cleanup :: cluster_pair where
  "before_cleanup = \<lparr>virtual_objects = [(web_nn, owned_web), (others_nn, others_object)],
     host_objects = [(others_nn, others_object)]\<rparr>"

definition after_cleanup :: cluster_pair where
  "after_cleanup = \<lparr>virtual_objects = [(others_nn, others_object)], host_objects = [(others_nn, others_object)]\<rparr>"

definition pair_cache :: "cluster_pair nameCache" where
  "pair_cache = fst (ExchangeMapping foo_gvk
     (index_mappings web_object ([(''web-x-default-x-vc'', ''default/web'')],
       [(''web-x-default-x-vc/metadata.name'', ''default/web'')])) (emptyNameCache, before_cleanup))"

lemma pair_back_parts:
  "Patches (bs_config pair_back) = []" "ReversePatches (bs_config pair_back) = []" "bs_parentGVK pair_back = foo_gvk"
  "bs_getControllerID pair_ctx pair_back = ''plugin''"
proof -
  have "FromAPIVersionAndKind ''v1'' ''Foo'' = foo_gvk" by code_simp
  then show "bs_parentGVK pair_back = foo_gvk" by (simp add: pair_back_def)
qed (simp_all add: pair_back_def name_sync_back_def bar_sync_back_def bs_getControllerID_def pair_ctx_parts)

lemma owned_web_parts:
  "object_nn owned_web = web_nn" "admissible owned_web" "\<not> bs_isExcluded pair_ctx pair_back owned_web"
proof -
  show nn: "object_nn owned_web = web_nn"
    by (simp add: owned_web_def web_nn_def object_nn_def GetNamespace_def GetName_def getNestedString_def nested_def)
  show "admissible owned_web"
    using nn by (auto simp: admissible_def object_nn_def web_nn_def obj_ok_iff owned_web_def)
  show "\<not> bs_isExcluded pair_ctx pair_back owned_web"
    by (simp add: bs_isExcluded_def has_controller_def pair_back_parts owned_web_def GetLabels_def
        NestedStringMap_def nested_def str_at_def)
qed

lemma web_name: "bs_PhysicalToVirtual pair_ctx pair_cache pair_back host_nn None = Inr web_nn"
proof -
  have "select_name pair_cache foo_gvk ''web-x-default-x-vc'' (Selectors name_sync_back) = Inr web_nn"
    by code_simp
  moreover have "bs_config pair_back = name_sync_back" by (simp add: pair_back_def)
  ultimately show ?thesis by (simp add: bs_PhysicalToVirtual_def pair_back_parts host_nn)
qed

lemma cleans_web:
  "bs_Reconcile E J pair_ctx pair_cache pair_back host_nn before_cleanup = (Inr done_result, after_cleanup)"
proof -
  have p: "get_optional (PhysicalClient pair_ctx) host_nn before_cleanup = (Inr None, before_cleanup)"
    by (simp add: get_optional_def bind_io_def attempt_def return_io_def pair_ctx_parts store_client_def
        before_cleanup_def stored_at_def IsNotFound_def host_nn_others)
  have v: "get_optional (VirtualClient pair_ctx) web_nn before_cleanup = (Inr (Some owned_web), before_cleanup)"
    by (simp add: get_optional_def bind_io_def attempt_def return_io_def pair_ctx_parts store_client_def
        before_cleanup_def stored_at_def owned_web_parts)
  have d: "Delete (VirtualClient pair_ctx) owned_web before_cleanup = (Inr (), after_cleanup)"
    by (simp add: pair_ctx_parts store_client_def change_store_def owned_web_parts before_cleanup_def stored_at_def
        drop_object_def after_cleanup_def) (simp add: web_nn_def others_nn_def)
  have "Name web_nn \<noteq> []" by (simp add: web_nn_def)
  then show ?thesis
    by (simp add: bs_Reconcile_def bind_io_def p lift_io_def web_name v syncDown_def deleteVirtualObject_def
        owned_web_parts attempt_def d return_io_def)
qed

lemma other_virtual_objects_survive_example:
  "back_run sync_codec no_mappings pair_ctx virtual_at (\<lambda>req w. w) {pair_back} (\<lambda>w1 w2. False)
      before_cleanup after_cleanup
    \<and> virtual_at after_cleanup others_nn = Some others_object"
proof -
  have run: "back_run sync_codec no_mappings pair_ctx virtual_at (\<lambda>req w. w) {pair_back} (\<lambda>w1 w2. False)
      before_cleanup after_cleanup"
    by (rule back_run.reconcile [OF back_run.start _ cleans_web]) simp
  have "clusters pair_ctx virtual_at host_at"
    unfolding pair_ctx_def by (rule stores.clusters_axioms)
  then have "virtual_at after_cleanup others_nn = Some others_object"
  proof (rule other_virtual_objects_survive [OF _ _ _ _ _ run])
    show "virtual_at before_cleanup others_nn = Some others_object"
      by (simp add: virtual_at_def before_cleanup_def stored_at_def others_parts) (simp add: web_nn_def others_nn_def)
    show "\<forall>b \<in> {pair_back}. bs_isExcluded pair_ctx b others_object"
      by (simp add: bs_isExcluded_def controller_of_others pair_back_parts)
  qed (use pair_back_created in \<open>auto simp: pair_back_parts document_codec_marks\<close>)
  with run show ?thesis by blast
qed


text \<open>The back syncer has nothing to do with the host object of someone else.\<close>

lemma others_unselected: "unselected pair_ctx {pair_cache} pair_back others_object"
proof -
  have "select_name pair_cache foo_gvk ''others'' (Selectors name_sync_back) = Inr emptyNN"
    by code_simp
  moreover have "\<not> containsBackSyncNameAnnotations pair_ctx others_object"
    by (simp add: containsBackSyncNameAnnotations_def others_object_def GetAnnotations_def NestedStringMap_def nested_def)
  moreover have "bs_config pair_back = name_sync_back" by (simp add: pair_back_def)
  ultimately show ?thesis
    by (simp add: unselected_def bs_PhysicalToVirtual_def others_parts others_nn_def pair_back_parts)
qed

end
