(* ===== verification/PatchFrame.thy ===== *)
theory PatchFrame
  imports PatchFields
begin

text \<open>
  Patches and the metadata. The metadata of an object is a subtree of its document, hung from the root
  under the key \<^verbatim>\<open>metadata\<close>. \<open>framed\<close> says that the subtree is intact and closed off from the rest of the
  document, \<open>free\<close> which nodes an operation may change or share, and \<open>stays\<close> that a step keeps both. Here
  are the predicates, and the edits of the node store that keep them: new nodes, the content of a node
  outside the frame, and a field of the root that is replaced, removed or added.
\<close>

section \<open>Mappings as lists of fields\<close>

fun flat :: "(addr \<times> addr) list \<Rightarrow> addr list" where
  "flat [] = []"
| "flat ((k, v) # es) = k # v # flat es"

lemma flat_append [simp]: "flat (es @ es') = flat es @ flat es'"
  by (induction es rule: flat.induct) simp_all

lemma length_flat [simp]: "length (flat es) = 2 * length es"
  by (induction es rule: flat.induct) simp_all

lemma set_flat: "set (flat es) = fst ` set es \<union> snd ` set es"
  by (induction es rule: flat.induct) auto

lemma mapping_keys_flat [simp]: "mapping_keys (flat es) = map fst es"
  by (induction es rule: flat.induct) simp_all

lemma flat_exists: "even (length cs) \<Longrightarrow> \<exists>es. cs = flat es"
proof (induction cs rule: mapping_keys.induct)
  case 1
  show ?case by (rule exI [of _ "[]"]) simp
next
  case (3 k v rest)
  then obtain es where "rest = flat es" by auto
  then have "k # v # rest = flat ((k, v) # es)" by simp
  then show ?case by blast
qed auto

lemma find_key_flat:
  "find_key h n (flat es) = Inr (Some v) \<Longrightarrow> \<exists>k. (k, v) \<in> set es \<and> value_at h k = n"
  by (induction es rule: flat.induct) (auto split: if_splits)

text \<open>The first field with a given value, by its position in the list of children.\<close>

lemma flat_split:
  assumes "m \<in> snd ` set es" "m \<notin> fst ` set es"
  obtains ea k eb where "es = ea @ (k, m) # eb" "m \<notin> set (flat ea)" "k \<noteq> m"
proof -
  from assms(1) have "\<exists>x \<in> set es. snd x = m" by (auto simp del: split_paired_Ex)
  from split_list_first_prop [OF this] obtain ea e eb where
    e: "es = ea @ e # eb" "snd e = m" "\<forall>x \<in> set ea. snd x \<noteq> m" by blast
  show thesis
    by (rule that [of ea "fst e" eb]) (use e assms(2) in \<open>auto simp: set_flat\<close>)
qed

section \<open>The part that stays\<close>

record region =
  rg_doc :: addr
  rg_root :: addr
  rg_key :: addr
  rg_value :: addr
  rg_nodes :: "addr set"
  rg_node :: "addr \<Rightarrow> ynode"

text \<open>Among the fields of the root one belongs to the metadata, and no key is a value.\<close>

definition marked :: "region \<Rightarrow> heap \<Rightarrow> addr \<times> addr \<Rightarrow> bool" where
  "marked R h e \<longleftrightarrow> fst e \<in> rg_nodes R \<or> snd e \<in> rg_nodes R \<or> value_at h (fst e) = ''metadata''"

definition entry_list :: "region \<Rightarrow> heap \<Rightarrow> (addr \<times> addr) list \<Rightarrow> bool" where
  "entry_list R h es \<longleftrightarrow> filter (marked R h) es = [(rg_key R, rg_value R)] \<and> {rg_key R, rg_value R} \<subseteq> rg_nodes R
     \<and> value_at h (rg_key R) = ''metadata'' \<and> fst ` set es \<inter> snd ` set es = {}"

definition root_keys :: "region \<Rightarrow> heap \<Rightarrow> addr set" where
  "root_keys R h = set (mapping_keys (content h (rg_root R)))"

text \<open>No node but the root points into the metadata or to a key of the root, and none to the root itself.\<close>

definition framed :: "region \<Rightarrow> heap \<Rightarrow> bool" where
  "framed R h \<longleftrightarrow> closed_heap h \<and> inner h
     \<and> (\<forall>x \<in> rg_nodes R. x < length h \<and> node_at h x = rg_node R x \<and> set (content h x) \<subseteq> rg_nodes R)
     \<and> {rg_doc R, rg_root R} \<inter> rg_nodes R = {}
     \<and> kind_at h (rg_doc R) = DocumentNode \<and> content h (rg_doc R) = [rg_root R]
     \<and> kind_at h (rg_root R) = MappingNode \<and> (\<exists>es. content h (rg_root R) = flat es \<and> entry_list R h es)
     \<and> (\<forall>q. q \<noteq> rg_doc R \<longrightarrow> rg_root R \<notin> set (content h q))
     \<and> (\<forall>q. q \<notin> rg_nodes R \<union> {rg_root R} \<longrightarrow> set (content h q) \<inter> rg_nodes R = {})
     \<and> (\<forall>q. q \<noteq> rg_root R \<longrightarrow> set (content h q) \<inter> root_keys R h = {})"

text \<open>Nodes outside of the frame, and those of them that the operations may work on.\<close>

definition outer :: "region \<Rightarrow> addr \<Rightarrow> bool" where
  "outer R a \<longleftrightarrow> a \<notin> rg_nodes R \<and> a \<noteq> rg_root R \<and> a \<noteq> rg_doc R"

definition free :: "region \<Rightarrow> heap \<Rightarrow> addr \<Rightarrow> bool" where
  "free R h m \<longleftrightarrow> outer R m \<and> m < length h \<and> kind_at h m \<noteq> DocumentNode \<and> m \<notin> root_keys R h"

text \<open>A step of an operation: the frame stays, and what was free stays free.\<close>

definition stays :: "region \<Rightarrow> heap \<Rightarrow> heap \<Rightarrow> bool" where
  "stays R h h' \<longleftrightarrow> framed R h' \<and> length h \<le> length h' \<and> (\<forall>a < length h. kind_at h' a = kind_at h a)
     \<and> (\<forall>k \<in> root_keys R h'. k < length h \<longrightarrow> k \<in> root_keys R h)"

lemma stays_refl: "framed R h \<Longrightarrow> stays R h h"
  by (simp add: stays_def)

lemma stays_trans: "stays R h h' \<Longrightarrow> stays R h' h'' \<Longrightarrow> stays R h h''"
  by (fastforce simp: stays_def)

lemma stays_framed: "stays R h h' \<Longrightarrow> framed R h'"
  by (simp add: stays_def)

lemma stays_free: "stays R h h' \<Longrightarrow> free R h m \<Longrightarrow> free R h' m"
  by (auto simp: stays_def free_def)

lemma framedD:
  assumes "framed R h"
  shows "closed_heap h" "inner h" "c \<in> set (content h q) \<Longrightarrow> kind_at h c \<noteq> DocumentNode"
    and "x \<in> rg_nodes R \<Longrightarrow> x < length h" "x \<in> rg_nodes R \<Longrightarrow> node_at h x = rg_node R x"
    and "x \<in> rg_nodes R \<Longrightarrow> c \<in> set (content h x) \<Longrightarrow> c \<in> rg_nodes R"
    and "rg_doc R \<notin> rg_nodes R" "rg_root R \<notin> rg_nodes R" "rg_root R \<noteq> rg_doc R"
    and "kind_at h (rg_doc R) = DocumentNode" "content h (rg_doc R) = [rg_root R]"
    and "kind_at h (rg_root R) = MappingNode" "rg_root R < length h" "rg_doc R < length h"
    and "rg_root R \<in> set (content h q) \<Longrightarrow> q = rg_doc R"
    and "c \<in> rg_nodes R \<Longrightarrow> c \<in> set (content h q) \<Longrightarrow> q \<notin> rg_nodes R \<Longrightarrow> q = rg_root R"
    and "c \<in> root_keys R h \<Longrightarrow> c \<in> set (content h q) \<Longrightarrow> q = rg_root R"
proof -
  from assms have cl: "closed_heap h" and inn: "inner h"
    and nodes: "\<forall>x \<in> rg_nodes R. x < length h \<and> node_at h x = rg_node R x \<and> set (content h x) \<subseteq> rg_nodes R"
    and out: "{rg_doc R, rg_root R} \<inter> rg_nodes R = {}"
    and d: "kind_at h (rg_doc R) = DocumentNode" "content h (rg_doc R) = [rg_root R]"
    and r: "kind_at h (rg_root R) = MappingNode"
    and up: "\<forall>q. q \<noteq> rg_doc R \<longrightarrow> rg_root R \<notin> set (content h q)"
    and cut: "\<forall>q. q \<notin> rg_nodes R \<union> {rg_root R} \<longrightarrow> set (content h q) \<inter> rg_nodes R = {}"
    and own: "\<forall>q. q \<noteq> rg_root R \<longrightarrow> set (content h q) \<inter> root_keys R h = {}"
    unfolding framed_def by - (elim conjE, assumption)+
  show "closed_heap h" "inner h" "kind_at h (rg_doc R) = DocumentNode" "content h (rg_doc R) = [rg_root R]"
    "kind_at h (rg_root R) = MappingNode"
    by fact+
  show "c \<in> set (content h q) \<Longrightarrow> kind_at h c \<noteq> DocumentNode" using inn innerD by blast
  show "x \<in> rg_nodes R \<Longrightarrow> x < length h" "x \<in> rg_nodes R \<Longrightarrow> node_at h x = rg_node R x" using nodes by simp_all
  show "x \<in> rg_nodes R \<Longrightarrow> c \<in> set (content h x) \<Longrightarrow> c \<in> rg_nodes R" using nodes by blast
  show "rg_doc R \<notin> rg_nodes R" "rg_root R \<notin> rg_nodes R" using out by simp_all
  show "rg_root R \<noteq> rg_doc R" using d(1) r by auto
  show "rg_root R < length h" using cl closed_heapD [of h "rg_root R" "rg_doc R"] d(2) by simp
  show "rg_doc R < length h" using content_in_range [of "rg_root R" h "rg_doc R"] d(2) by simp
  show "rg_root R \<in> set (content h q) \<Longrightarrow> q = rg_doc R" using up by blast
  show "c \<in> rg_nodes R \<Longrightarrow> c \<in> set (content h q) \<Longrightarrow> q \<notin> rg_nodes R \<Longrightarrow> q = rg_root R"
    using cut by (metis Un_iff disjoint_iff singletonD)
  show "c \<in> root_keys R h \<Longrightarrow> c \<in> set (content h q) \<Longrightarrow> q = rg_root R"
    using own by (metis disjoint_iff)
qed

lemma framed_fields:
  assumes "framed R h"
  obtains es where "content h (rg_root R) = flat es" "entry_list R h es" "root_keys R h = fst ` set es"
  using assms unfolding framed_def root_keys_def by (metis mapping_keys_flat set_map)

lemma framedI:
  assumes "closed_heap h" "inner h" "content h (rg_root R) = flat es" "entry_list R h es"
    and "\<And>x. x \<in> rg_nodes R \<Longrightarrow> x < length h \<and> node_at h x = rg_node R x \<and> set (content h x) \<subseteq> rg_nodes R"
    and "rg_doc R \<notin> rg_nodes R" "rg_root R \<notin> rg_nodes R"
    and "kind_at h (rg_doc R) = DocumentNode" "content h (rg_doc R) = [rg_root R]" "kind_at h (rg_root R) = MappingNode"
    and "\<And>q. q \<noteq> rg_doc R \<Longrightarrow> rg_root R \<notin> set (content h q)"
    and "\<And>q. q \<notin> rg_nodes R \<union> {rg_root R} \<Longrightarrow> set (content h q) \<inter> rg_nodes R = {}"
    and "\<And>q. q \<noteq> rg_root R \<Longrightarrow> set (content h q) \<inter> fst ` set es = {}"
  shows "framed R h"
proof -
  have "\<forall>x \<in> rg_nodes R. x < length h \<and> node_at h x = rg_node R x \<and> set (content h x) \<subseteq> rg_nodes R"
    using assms(5) by blast
  moreover have "{rg_doc R, rg_root R} \<inter> rg_nodes R = {}" using assms(6,7) by simp
  moreover have "root_keys R h = fst ` set es" by (simp add: root_keys_def assms(3))
  ultimately show ?thesis
    unfolding framed_def using assms(1-4,8-10,11-13) by metis
qed

text \<open>Everything below a node outside of the frame is free.\<close>

lemma outer_child:
  assumes "framed R h" "outer R x" "c \<in> set (content h x)"
  shows "free R h c"
proof -
  note f = framedD [OF assms(1)]
  have x: "x \<notin> rg_nodes R" "x \<noteq> rg_root R" "x \<noteq> rg_doc R" using assms(2) by (simp_all add: outer_def)
  have "c \<noteq> rg_doc R" using f(3) [OF assms(3)] f(10) by metis
  moreover have "c \<noteq> rg_root R" using f(15) [of x] assms(3) x(3) by metis
  moreover have "c \<notin> rg_nodes R" using f(16) [OF _ assms(3) x(1)] x(2) by metis
  moreover have "c \<notin> root_keys R h" using f(17) [OF _ assms(3)] x(2) by metis
  ultimately show ?thesis
    using f(3) [OF assms(3)] closed_heapD [OF f(1) assms(3)] by (simp add: free_def outer_def)
qed

lemma free_outer: "free R h m \<Longrightarrow> outer R m"
  by (simp add: free_def)

lemma freeD: "free R h c \<Longrightarrow> c \<notin> rg_nodes R \<and> c \<noteq> rg_root R \<and> c \<notin> root_keys R h"
  by (simp add: free_def outer_def)

lemma free_reach:
  assumes "framed R h" "reach h x m" "free R h x"
  shows "free R h m"
  using assms(2,3) unfolding reach_def
  by (induction rule: rtrancl_induct) (auto simp: child_rel_def dest: free_outer intro: outer_child [OF assms(1)])

lemma free_parent:
  assumes "framed R h" "free R h m" "m \<in> set (content h p)"
  shows "p \<notin> rg_nodes R" "p \<noteq> rg_doc R"
  using framedD(6) [OF assms(1), of p m] framedD(11) [OF assms(1)] assms(2,3) by (auto simp: free_def outer_def)

lemma outer_reach:
  assumes "framed R h" "outer R x" "c \<in> set (content h x)" "reach h c m"
  shows "free R h m"
  using free_reach [OF assms(1,4) outer_child [OF assms(1-3)]] .

section \<open>New nodes\<close>

lemma entry_list_cong:
  assumes "\<And>k. k \<in> fst ` set es \<Longrightarrow> value_at h' k = value_at h k" "entry_list R h es"
  shows "entry_list R h' es"
proof -
  have "filter (marked R h') es = filter (marked R h) es"
    using assms(1) by (intro filter_cong) (simp_all add: marked_def)
  moreover have "(rg_key R, rg_value R) \<in> set es"
    using assms(2) unfolding entry_list_def by (metis filter_is_subset list.set_intros(1) subsetD)
  then have "value_at h' (rg_key R) = value_at h (rg_key R)" using assms(1) by force
  ultimately show ?thesis using assms(2) by (simp add: entry_list_def)
qed

lemma marked_entry:
  assumes "entry_list R h es" "e \<in> set es" "marked R h e"
  shows "e = (rg_key R, rg_value R)"
proof -
  have "e \<in> set (filter (marked R h) es)" using assms(2,3) by simp
  moreover have "filter (marked R h) es = [(rg_key R, rg_value R)]" using assms(1) by (simp add: entry_list_def)
  ultimately show ?thesis by simp
qed

lemma framed_alloc:
  assumes f: "framed R h" and n: "\<And>c. c \<in> set (ncontent n) \<Longrightarrow> free R h c"
  shows "stays R h (h @ [n])"
proof -
  let ?h = "h @ [n]"
  note d = framedD [OF f]
  obtain es where es: "content h (rg_root R) = flat es" "entry_list R h es" "root_keys R h = fst ` set es"
    by (rule framed_fields [OF f])
  have same: "node_at ?h a = node_at h a" if "a \<noteq> length h" for a using that by (simp add: node_at_alloc)
  have at: "node_at ?h (length h) = n" by (simp add: node_at_alloc)
  have low: "c < length h" if "c \<in> set (content h a)" for a c using closed_heapD [OF d(1) that] .
  have old: "node_at ?h a = node_at h a" if "a < length h" for a using same that by simp
  have child: "c < length h \<and> kind_at h c \<noteq> DocumentNode \<and> outer R c \<and> c \<notin> fst ` set es" if "c \<in> set (ncontent n)" for c
    using n [OF that] es(3) by (simp add: free_def)
  have kids: "(c \<in> set (content h q) \<and> q \<noteq> length h) \<or> (q = length h \<and> c \<in> set (ncontent n))"
    if "c \<in> set (content ?h q)" for c q
    using that same [of q] at by (cases "q = length h") auto
  have root: "content ?h (rg_root R) = content h (rg_root R)" using old d(13) by simp
  have "closed_heap ?h"
    unfolding closed_heap_def using kids low child by (fastforce)
  moreover have "inner ?h"
    unfolding inner_def
  proof (intro allI impI ballI)
    fix q c assume "c \<in> set (content ?h q)"
    from kids [OF this] show "kind_at ?h c \<noteq> DocumentNode"
      using d(3) [of c q] low [of c q] child [of c] old [of c] by auto
  qed
  moreover have "entry_list R ?h es"
    by (rule entry_list_cong [OF _ es(2)]) (use low [of _ "rg_root R"] old es(1) in \<open>auto simp: set_flat\<close>)
  moreover have "x < length ?h \<and> node_at ?h x = rg_node R x \<and> set (content ?h x) \<subseteq> rg_nodes R" if "x \<in> rg_nodes R" for x
    using that old [OF d(4) [OF that]] d(4-6) [of x] by auto
  moreover have "rg_root R \<notin> set (content ?h q)" if "q \<noteq> rg_doc R" for q
    using kids [of "rg_root R" q] d(15) [of q] that child [of "rg_root R"] by (auto simp: outer_def)
  moreover have "set (content ?h q) \<inter> rg_nodes R = {}" if "q \<notin> rg_nodes R \<union> {rg_root R}" for q
    using kids [of _ q] d(16) [of _ q] that n freeD by blast
  moreover have "set (content ?h q) \<inter> fst ` set es = {}" if "q \<noteq> rg_root R" for q
    using kids [of _ q] d(17) [of _ q] that child es(3) by blast
  moreover have "kind_at ?h (rg_doc R) = DocumentNode" "content ?h (rg_doc R) = [rg_root R]" "kind_at ?h (rg_root R) = MappingNode"
    using old d(10-14) by simp_all
  moreover have "content ?h (rg_root R) = flat es" using root es(1) by simp
  ultimately have "framed R ?h" using d(7,8) by (intro framedI)
  then show ?thesis using old root by (simp add: stays_def root_keys_def)
qed

lemma free_alloc:
  assumes "framed R h" "nkind n \<noteq> DocumentNode"
  shows "free R (h @ [n]) (length h)"
proof -
  note d = framedD [OF assms(1)]
  obtain es where es: "content h (rg_root R) = flat es" "entry_list R h es" "root_keys R h = fst ` set es"
    by (rule framed_fields [OF assms(1)])
  have "length h \<notin> root_keys R (h @ [n])"
    using closed_heapD [OF d(1), of "length h" "rg_root R"] es(1) d(13)
    by (auto simp: root_keys_def node_at_alloc set_flat image_iff)
  then show ?thesis using d(4) [of "length h"] d(13,14) assms(2) by (auto simp: free_def outer_def node_at_alloc)
qed

lemma stays_alloc_tree:
  "alloc_tree t h = (a, h') \<Longrightarrow> nodoc t \<Longrightarrow> framed R h \<Longrightarrow> stays R h h' \<and> free R h' a \<and> length h \<le> a"
  "alloc_trees ts h = (as, h') \<Longrightarrow> list_all nodoc ts \<Longrightarrow> framed R h \<Longrightarrow> stays R h h' \<and> (\<forall>a \<in> set as. free R h' a)"
proof (induction t h and ts h arbitrary: a h' and as h' rule: alloc_tree_alloc_trees.induct)
  case (1 k tag v ts h)
  obtain cs h1 where cs: "alloc_trees ts h = (cs, h1)" by (meson surj_pair)
  let ?n = "\<lparr>nkind = k, ntag = tag, nvalue = v, ncontent = cs\<rparr>"
  have h': "a = length h1" "h' = h1 @ [?n]" using "1.prems"(1) cs by (auto simp: alloc_def)
  have IH: "stays R h h1" "\<forall>a \<in> set cs. free R h1 a" using "1.IH" [OF cs] "1.prems" by auto
  have "stays R h1 h'" unfolding h' using IH(2) by (intro framed_alloc [OF stays_framed [OF IH(1)]]) simp
  moreover have "free R h' a" unfolding h' using "1.prems"(2) by (intro free_alloc [OF stays_framed [OF IH(1)]]) simp
  moreover have "length h \<le> a" using IH(1) h' by (simp add: stays_def)
  ultimately show ?case using IH(1) stays_trans by blast
next
  case (2 h)
  then show ?case using stays_refl by auto
next
  case (3 t ts h)
  obtain c h1 where c: "alloc_tree t h = (c, h1)" by (meson surj_pair)
  obtain cs h2 where cs: "alloc_trees ts h1 = (cs, h2)" by (meson surj_pair)
  have 1: "stays R h h1 \<and> free R h1 c" using "3.IH"(1) [OF c] "3.prems" by simp
  then have "framed R h1" using stays_framed by blast
  then have 2: "stays R h1 h2 \<and> (\<forall>a \<in> set cs. free R h2 a)"
    using "3.IH"(2) [OF c [symmetric] refl cs] "3.prems"(2) by simp
  have "as = c # cs" "h' = h2" using "3.prems"(1) c cs by simp_all
  moreover have "stays R h h2" "free R h2 c" using 1 2 stays_trans stays_free by blast+
  ultimately show ?case using 2 by simp
qed

section \<open>Editing the document\<close>

text \<open>A node outside the frame keeps some children and takes free ones.\<close>

lemma framed_edit:
  assumes f: "framed R h" and q: "outer R q"
    and cs: "\<And>c. c \<in> set cs \<Longrightarrow> c \<in> set (content h q) \<or> free R h c"
  shows "stays R h (set_content h q cs)"
proof -
  let ?h = "set_content h q cs"
  note d = framedD [OF f]
  obtain es where es: "content h (rg_root R) = flat es" "entry_list R h es" "root_keys R h = fst ` set es"
    by (rule framed_fields [OF f])
  have new: "free R h c" if "c \<in> set cs" for c using cs [OF that] outer_child [OF f q] by blast
  have q': "q \<notin> rg_nodes R" "q \<noteq> rg_root R" "q \<noteq> rg_doc R" using q by (simp_all add: outer_def)
  have kids: "c \<in> set (content h x) \<or> (x = q \<and> free R h c)" if "c \<in> set (content ?h x)" for c x
    using that new by (auto simp: content_set_content split: if_splits)
  have nq: "x \<noteq> q" if "x \<in> rg_nodes R" for x using that q'(1) by auto
  have root: "content ?h (rg_root R) = content h (rg_root R)" using q'(2) by (simp add: content_set_content)
  have "closed_heap ?h"
    unfolding closed_heap_def using kids closed_heapD [OF d(1)] by (fastforce simp: free_def)
  moreover have "inner ?h"
    unfolding inner_def using kids d(3) by (fastforce simp: free_def)
  moreover have "entry_list R ?h es" by (rule entry_list_cong [OF _ es(2)]) simp
  moreover have "x < length ?h \<and> node_at ?h x = rg_node R x \<and> set (content ?h x) \<subseteq> rg_nodes R" if "x \<in> rg_nodes R" for x
    using d(4-6) [OF that] nq [OF that] by (auto simp: node_at_set_content)
  moreover have "rg_root R \<notin> set (content ?h x)" if "x \<noteq> rg_doc R" for x
    using kids [of "rg_root R" x] d(15) [of x] that by (auto simp: free_def outer_def)
  moreover have "set (content ?h x) \<inter> rg_nodes R = {}" if "x \<notin> rg_nodes R \<union> {rg_root R}" for x
    using kids [of _ x] d(16) [of _ x] that freeD by blast
  moreover have "set (content ?h x) \<inter> fst ` set es = {}" if "x \<noteq> rg_root R" for x
    using kids [of _ x] d(17) [of _ x] that es(3) freeD by blast
  moreover have "kind_at ?h (rg_doc R) = DocumentNode" "content ?h (rg_doc R) = [rg_root R]" "kind_at ?h (rg_root R) = MappingNode"
    using d(10-12) q'(3) by (simp_all add: content_set_content)
  moreover have "content ?h (rg_root R) = flat es" using root es(1) by simp
  ultimately have "framed R ?h" using d(7,8) by (intro framedI)
  then show ?thesis using root by (simp add: stays_def root_keys_def)
qed

text \<open>The root gets other fields, with free values and no keys but old ones and ones nobody points to.\<close>

lemma framed_root:
  assumes f: "framed R h" and e: "entry_list R h es"
    and es: "\<And>c. c \<in> set (flat es) \<Longrightarrow> c \<in> set (content h (rg_root R)) \<or> free R h c"
    and keys: "\<And>k q. k \<in> fst ` set es \<Longrightarrow> k \<in> root_keys R h \<or> (\<forall>q. k \<notin> set (content h q))"
  shows "framed R (set_content h (rg_root R) (flat es))"
proof -
  let ?r = "rg_root R" let ?h = "set_content h ?r (flat es)"
  note d = framedD [OF f]
  have low: "c < length h \<and> kind_at h c \<noteq> DocumentNode \<and> c \<noteq> ?r" if "c \<in> set (flat es)" for c
    using es [OF that] closed_heapD [OF d(1), of c ?r] d(3) [of c ?r] d(9) d(15) [of ?r] by (auto simp: free_def outer_def)
  have elsewhere: "content ?h x = content h x" if "x \<noteq> ?r" for x using that by (simp add: content_set_content)
  have at: "content ?h ?r = flat es" using d(13) by (simp add: content_set_content)
  have kids: "c \<in> set (content h x) \<or> (x = ?r \<and> c \<in> set (flat es))" if "c \<in> set (content ?h x)" for c x
    using that by (auto simp: content_set_content split: if_splits)
  have "closed_heap ?h"
    unfolding closed_heap_def using kids closed_heapD [OF d(1)] low by fastforce
  moreover have "inner ?h"
    unfolding inner_def using kids d(3) low by fastforce
  moreover have "entry_list R ?h es" by (rule entry_list_cong [OF _ e]) simp
  moreover have "x < length ?h \<and> node_at ?h x = rg_node R x \<and> set (content ?h x) \<subseteq> rg_nodes R" if "x \<in> rg_nodes R" for x
    using d(4-6) [OF that] that d(8) by (auto simp: node_at_set_content)
  moreover have "?r \<notin> set (content ?h q)" if "q \<noteq> rg_doc R" for q
    using kids [of ?r q] low d(15) [of q] that by blast
  moreover have "set (content ?h q) \<inter> rg_nodes R = {}" if "q \<notin> rg_nodes R \<union> {?r}" for q
    using that d(16) [of _ q] elsewhere [of q] by auto
  moreover have "set (content ?h q) \<inter> fst ` set es = {}" if "q \<noteq> ?r" for q
    using keys d(17) [of _ q] elsewhere [OF that] that by fastforce
  moreover have "kind_at ?h (rg_doc R) = DocumentNode" "content ?h (rg_doc R) = [?r]" "kind_at ?h ?r = MappingNode"
    using d(10-12) elsewhere [of "rg_doc R"] d(9) by simp_all
  ultimately show ?thesis using at d(7,8) by (intro framedI)
qed

section \<open>Fields of the root\<close>

text \<open>A free child of the root is the value of a field that is not marked.\<close>

lemma free_field:
  assumes "framed R h" "free R h m" "m \<in> set (content h (rg_root R))"
  obtains ea k eb where "content h (rg_root R) = flat ea @ k # m # flat eb" "entry_list R h (ea @ (k, m) # eb)"
    "\<not> marked R h (k, m)" "root_keys R h = fst ` set (ea @ (k, m) # eb)" "m \<notin> set (flat ea)" "k \<noteq> m"
proof -
  obtain es where es: "content h (rg_root R) = flat es" "entry_list R h es" "root_keys R h = fst ` set es"
    by (rule framed_fields [OF assms(1)])
  have m: "m \<notin> fst ` set es" using freeD [OF assms(2)] es(3) by simp
  then have "m \<in> snd ` set es" using assms(3) es(1) by (simp add: set_flat)
  from flat_split [OF this m] obtain ea k eb where e: "es = ea @ (k, m) # eb" "m \<notin> set (flat ea)" "k \<noteq> m" .
  have "\<not> marked R h (k, m)"
  proof
    assume "marked R h (k, m)"
    then have "m = rg_value R" using marked_entry [OF es(2), of "(k, m)"] e(1) by simp
    then have "m \<in> rg_nodes R" using es(2) by (simp add: entry_list_def)
    then show False using freeD [OF assms(2)] by simp
  qed
  with e es show thesis by (intro that) auto
qed

lemma entry_replaced:
  assumes "entry_list R h (ea @ (k, m) # eb)" "\<not> marked R h (k, m)" "w \<notin> rg_nodes R"
    and "w \<notin> fst ` set (ea @ (k, m) # eb)"
  shows "entry_list R h (ea @ (k, w) # eb)"
proof -
  have "\<not> marked R h (k, w)" using assms(2,3) by (simp add: marked_def)
  then show ?thesis using assms by (auto simp: entry_list_def)
qed

lemma entry_removed:
  assumes "entry_list R h (ea @ (k, m) # eb)" "\<not> marked R h (k, m)"
  shows "entry_list R h (ea @ eb)"
  using assms by (auto simp: entry_list_def)

lemma stays_root:
  assumes "framed R h" "entry_list R h es" "set (flat es) \<subseteq> set (content h (rg_root R)) \<union> Collect (free R h)"
    and "fst ` set es \<subseteq> root_keys R h"
  shows "stays R h (set_content h (rg_root R) (flat es))"
proof -
  have "framed R (set_content h (rg_root R) (flat es))"
    by (rule framed_root [OF assms(1,2)]) (use assms(3,4) in blast)+
  then show ?thesis
    using assms(4) framedD(13) [OF assms(1)] by (auto simp: stays_def root_keys_def content_set_content)
qed

lemma stays_Remove_match:
  assumes f: "framed R h" and m: "free R h m" and r: "Remove_match d m h = Inr h'"
  shows "stays R h h'"
proof -
  obtain p where find: "Find h d (ContainsChild h m) = Inr (Some p)"
    using r by (auto simp: Remove_match_def result_simps split: option.splits)
  then have p: "m \<in> set (content h p)" using Find_sound [OF find] by (simp add: ContainsChild_def)
  from r find have h': "h' = h \<or> (kind_at h p = MappingNode \<and> (\<exists>cs. removeProperty h p m = Inr cs \<and> h' = set_content h p cs))
      \<or> (kind_at h p = SequenceNode \<and> h' = set_content h p (removeChild h p m))"
    by (cases "kind_at h p") (auto simp: Remove_match_def result_simps)
  note d = framedD [OF f]
  show ?thesis
  proof (cases "p = rg_root R")
    case True
    obtain ea k eb where cs: "content h (rg_root R) = flat ea @ k # m # flat eb" "entry_list R h (ea @ (k, m) # eb)"
      "\<not> marked R h (k, m)" "root_keys R h = fst ` set (ea @ (k, m) # eb)" "m \<notin> set (flat ea)" "k \<noteq> m"
      by (rule free_field [OF f m p [unfolded True]])
    have "h' = h \<or> h' = set_content h (rg_root R) (flat (ea @ eb))"
      using h' removeProperty_at [OF cs(1,5,6)] d(12) True by auto
    moreover have "stays R h (set_content h (rg_root R) (flat (ea @ eb)))"
      by (rule stays_root [OF f entry_removed [OF cs(2,3)]]) (use cs(1,4) in auto)
    ultimately show ?thesis using stays_refl [OF f] by blast
  next
    case False
    then have "outer R p" using free_parent [OF f m p] by (simp add: outer_def)
    then have "stays R h (set_content h p cs)" if "set cs \<subseteq> set (content h p)" for cs
      using that by (intro framed_edit [OF f]) auto
    moreover have "set cs \<subseteq> set (content h p)" if "removeProperty h p m = Inr cs" for cs
      using yields_result [OF yields_splice(1) that] .
    moreover have "set (removeChild h p m) \<subseteq> set (content h p)" by (auto simp: removeChild_def)
    ultimately show ?thesis using h' stays_refl [OF f] by blast
  qed
qed

text \<open>A value to be put into the document stands in a document of its own, and is free.\<close>

definition new_value :: "region \<Rightarrow> heap \<Rightarrow> addr \<Rightarrow> bool" where
  "new_value R h v \<longleftrightarrow> (\<exists>w. content h v = [w] \<and> free R h w)"

lemma stays_ReplaceNode:
  assumes f: "framed R h" and m: "free R h m" and v: "new_value R h v" and r: "ReplaceNode d m v h = Inr h'"
  shows "stays R h h'"
proof -
  note d = framedD [OF f]
  obtain w where w: "content h v = [w]" "free R h w" using v by (auto simp: new_value_def)
  consider "h' = h" | p cs where "m \<in> set (content h p)" "replaceChildAtIndex h p m v = Inr cs" "h' = set_content h p cs"
    using r Find_sound [of h d "ContainsChild h m"]
    by (auto simp: ReplaceNode_def result_simps ContainsChild_def split: option.splits)
  then show ?thesis
  proof cases
    case 1
    then show ?thesis using stays_refl [OF f] by simp
  next
    case (2 p cs)
    show ?thesis
    proof (cases "p = rg_root R")
      case True
      obtain ea k eb where c: "content h (rg_root R) = flat ea @ k # m # flat eb" "entry_list R h (ea @ (k, m) # eb)"
        "\<not> marked R h (k, m)" "root_keys R h = fst ` set (ea @ (k, m) # eb)" "m \<notin> set (flat ea)" "k \<noteq> m"
        by (rule free_field [OF f m 2(1) [unfolded True]])
      have "h' = set_content h (rg_root R) (flat (ea @ (k, w) # eb))"
        using 2(2,3) replaceChildAtIndex_at [of h p "flat ea @ [k]" m "flat eb" v] c True w(1) by simp
      moreover have "stays R h (set_content h (rg_root R) (flat (ea @ (k, w) # eb)))"
        by (rule stays_root [OF f entry_replaced [OF c(2,3)]]) (use freeD [OF w(2)] c(1,4) w(2) in auto)
      ultimately show ?thesis by simp
    next
      case False
      then have o: "outer R p" using free_parent [OF f m 2(1)] by (simp add: outer_def)
      have "set cs \<subseteq> set (content h p) \<union> {w}"
        using yields_result [OF yields_splice(3) 2(2)] w(1) by simp
      then have "stays R h (set_content h p cs)" using w(2) by (intro framed_edit [OF f o]) auto
      with 2(3) show ?thesis by simp
    qed
  qed
qed

text \<open>A new field of the root, under another name than the metadata.\<close>

lemma stays_field_added:
  assumes f: "framed R h" and v: "free R h v" and n: "n \<noteq> ''metadata''"
  shows "stays R h (append_content (rg_root R) [length h, v] (h @ [key_node n]))"
proof -
  let ?k = "length h" let ?h = "h @ [key_node n]"
  note d = framedD [OF f]
  obtain es where es: "content h (rg_root R) = flat es" "entry_list R h es" "root_keys R h = fst ` set es"
    by (rule framed_fields [OF f])
  have st: "stays R h ?h" by (rule framed_alloc [OF f]) (simp add: key_node_def)
  note f1 = stays_framed [OF st] and v1 = stays_free [OF st v]
  have root: "content ?h (rg_root R) = flat es" using d(13) es(1) by (simp add: node_at_alloc)
  have low: "c < ?k" if "c \<in> set (content ?h q)" for c q
    using closed_heapD [OF d(1), of c q] that by (auto simp: node_at_alloc key_node_def split: if_splits)
  have fresh: "?k \<notin> set (content ?h q)" for q using low [of ?k q] by auto
  have k: "?k \<notin> rg_nodes R" "?k \<noteq> v" "?k \<notin> set (flat es)"
    using d(4) [of ?k] v fresh [of "rg_root R"] root by (auto simp: free_def)
  have "entry_list R ?h es"
    by (rule entry_list_cong [OF _ es(2)])
      (use k(3) in \<open>auto simp: node_at_alloc set_flat image_iff split: if_splits\<close>)
  moreover have "\<not> marked R ?h (?k, v)"
    using k(1) freeD [OF v] n by (simp add: marked_def node_at_alloc key_node_def)
  moreover have "v \<notin> fst ` set es" using freeD [OF v] es(3) by simp
  ultimately have e: "entry_list R ?h (es @ [(?k, v)])" using k(2,3) by (auto simp: entry_list_def set_flat)
  have "framed R (set_content ?h (rg_root R) (flat (es @ [(?k, v)])))"
  proof (rule framed_root [OF f1 e])
    show "c \<in> set (content ?h (rg_root R)) \<or> free R ?h c" if "c \<in> set (flat (es @ [(?k, v)]))" for c
      using that root v1 free_alloc [OF f, of "key_node n"] by (auto simp: key_node_def)
    show "x \<in> root_keys R ?h \<or> (\<forall>q. x \<notin> set (content ?h q))" if "x \<in> fst ` set (es @ [(?k, v)])" for x q
      using that root fresh by (auto simp: root_keys_def)
  qed
  moreover have "mapping_keys (flat es @ [?k, v]) = map fst es @ [?k]"
    using mapping_keys_flat [of "es @ [(?k, v)]"] by simp
  ultimately show ?thesis
    using root d(13) es(3)
    by (auto simp: stays_def append_content_def root_keys_def content_set_content node_at_alloc)
qed

end
