(* ===== verification/MetadataPaths.thy ===== *)
theory MetadataPaths
  imports PatchFrame
begin

text \<open>
  The operations of a patch at a path that goes to a field of the root other than the metadata: a new
  document leaves the frame of \<open>PatchFrame\<close> alone, the matches of such a path are free nodes, and so are
  the nodes of the other document, so every operation but \<^verbatim>\<open>add\<close> keeps the frame, and so does a list of
  patches. What a \<^verbatim>\<open>copyFromObject\<close> takes from the other document is shared by both from then on.
\<close>

section \<open>New documents\<close>

lemma stays_new_document:
  assumes E: "lawful E" and f: "framed R h" and n: "node_from_text E doc h = Inr (v, h')"
  shows "stays R h h' \<and> new_value R h' v \<and> (\<forall>w \<in> set (content h' v). length h \<le> w)
    \<and> outer R v \<and> v < length h' \<and> kind_at h' v = DocumentNode"
proof -
  note d = framedD [OF f]
  obtain tag s t' where t: "yaml_Unmarshal_node E doc = Inr (YNode DocumentNode tag s [t'])" "nodoc t'"
    and a: "alloc_tree (YNode DocumentNode tag s [t']) h = (v, h')"
    using n E by (fastforce simp: node_from_text_def lawful_def decodes_documents_def doc_tree_def split: sum.splits)
  obtain w h1 where w: "alloc_tree t' h = (w, h1)" by (meson surj_pair)
  have new: "stays R h h1" "free R h1 w" "length h \<le> w" using stays_alloc_tree(1) [OF w t(2) f] by blast+
  have h': "v = length h1" "h' = h1 @ [\<lparr>nkind = DocumentNode, ntag = tag, nvalue = s, ncontent = [w]\<rparr>]"
    using a w by (auto simp: alloc_def)
  have st: "stays R h1 h'" unfolding h' using new(2) by (intro framed_alloc [OF stays_framed [OF new(1)]]) simp
  have v: "content h' v = [w]" "kind_at h' v = DocumentNode" "v < length h'" using h' by (simp_all add: node_at_alloc)
  have "length h \<le> v" using new(1) h'(1) by (simp add: stays_def)
  then have "outer R v" using d(4) [of v] d(13,14) by (auto simp: outer_def)
  moreover have "new_value R h' v" using v(1) stays_free [OF st new(2)] by (simp add: new_value_def)
  ultimately show ?thesis using stays_trans [OF new(1) st] v new(3) by simp
qed

lemma stays_NewNode:
  assumes "lawful E" "framed R h" "NewNode E x h = Inr (v, h') \<or> NewJSONNode E x h = Inr (v, h')"
  shows "stays R h h' \<and> new_value R h' v \<and> (\<forall>w \<in> set (content h' v). length h \<le> w)
    \<and> outer R v \<and> v < length h' \<and> kind_at h' v = DocumentNode"
  using assms(3) stays_new_document [OF assms(1,2), of _ v h']
  by (auto simp: NewNode_def NewJSONNode_def split: sum.splits)

section \<open>Paths to another field\<close>

lemma field_free:
  assumes f: "framed R h" and v: "find_key h n (content h (rg_root R)) = Inr (Some v)" "n \<noteq> ''metadata''"
  shows "free R h v"
proof -
  note d = framedD [OF f]
  obtain es where es: "content h (rg_root R) = flat es" "entry_list R h es" "root_keys R h = fst ` set es"
    by (rule framed_fields [OF f])
  obtain k where k: "(k, v) \<in> set es" "value_at h k = n" using find_key_flat v(1) es(1) by metis
  have "\<not> marked R h (k, v)"
    using marked_entry [OF es(2) k(1)] es(2) k(2) v(2) by (auto simp: entry_list_def)
  then have "v \<notin> rg_nodes R" by (simp add: marked_def)
  moreover have "v \<in> snd ` set es" using k(1) by force
  then have "v \<notin> root_keys R h" "v \<in> set (content h (rg_root R))"
    using es by (auto simp: entry_list_def set_flat)
  moreover from this(2) have "v \<noteq> rg_root R" "v \<noteq> rg_doc R" "v < length h" "kind_at h v \<noteq> DocumentNode"
    using d(9) d(15) [of "rg_root R"] d(3) [of v "rg_root R"] d(10) closed_heapD [OF d(1)] by auto
  ultimately show ?thesis by (simp add: free_def outer_def)
qed

text \<open>A path that goes to a field of the root other than the metadata.\<close>

definition path_outside :: "external \<Rightarrow> string \<Rightarrow> bool" where
  "path_outside E path \<longleftrightarrow>
     (\<exists>n rest. compile_path E path = Inr (PRoot (PChild n rest)) \<and> n \<noteq> ''metadata'')"

lemma outside_matches:
  assumes f: "framed R h" and p: "path_outside E path" and ms: "FindMatches E h (rg_doc R) path = Inr ms" "m \<in> set ms"
  shows "free R h m"
proof -
  note d = framedD [OF f]
  obtain n rest where c: "compile_path E path = Inr (PRoot (PChild n rest))" "n \<noteq> ''metadata''"
    using p by (auto simp: path_outside_def)
  have "path_find (eval_filter E) h (rg_doc R) (PChild n rest) (rg_root R) = Inr ms"
    using ms(1) c(1) d(10,11) by (simp add: FindMatches_def path_Find_def result_simps)
  then obtain v where v: "find_key h n (content h (rg_root R)) = Inr (Some v)"
    "path_find (eval_filter E) h (rg_doc R) rest v = Inr ms"
    using d(12) ms(2) by (auto simp: result_simps split: option.splits)
  show ?thesis
    by (rule free_reach [OF f path_find_reach [OF v(2) ms(2)] field_free [OF f v(1) c(2)]])
qed

text \<open>Matches of a query from a free node are free.\<close>

lemma free_matches:
  assumes "framed R h" "free R h x" "FindMatches E h x path = Inr ms" "m \<in> set ms"
  shows "free R h m"
  using free_reach [OF assms(1) FindMatches_reach [OF assms(3,4)] assms(2)] .

text \<open>The other object is a document outside of the frame, whose nodes are free.\<close>

definition other_document :: "region \<Rightarrow> heap \<Rightarrow> addr option \<Rightarrow> bool" where
  "other_document R h obj2 \<longleftrightarrow> (\<forall>e. obj2 = Some e \<longrightarrow> outer R e \<and> e < length h \<and> kind_at h e = DocumentNode)"

lemma other_document_stays: "stays R h h' \<Longrightarrow> other_document R h obj2 \<Longrightarrow> other_document R h' obj2"
  by (auto simp: other_document_def stays_def)

lemma other_matches:
  assumes "lawful E" "framed R h" "other_document R h (Some e)" "path \<noteq> []"
    and "FindMatches E h e path = Inr ms" "m \<in> set ms"
  shows "free R h m"
proof -
  have e: "outer R e" "kind_at h e = DocumentNode" using assms(3) by (simp_all add: other_document_def)
  obtain q where q: "path_find (eval_filter E) h e (PRoot q) e = Inr ms"
    using assms(1,4,5) by (fastforce simp: FindMatches_def path_Find_def result_simps lawful_def compiles_rooted_def)
  then obtain c cs where c: "content h e = c # cs" "path_find (eval_filter E) h e q c = Inr ms"
    using e(2) by (auto split: list.splits)
  show ?thesis using outer_reach [OF assms(2) e(1) _ path_find_reach [OF c(2) assms(6)]] c(1) by simp
qed

section \<open>Operations\<close>

lemma stays_loop:
  assumes "framed R (fst s)" "fold_result f xs s = Inr s'"
    and step: "\<And>x s1 s2. x \<in> set xs \<Longrightarrow> stays R (fst s) (fst s1) \<Longrightarrow> f x s1 = Inr s2 \<Longrightarrow> stays R (fst s1) (fst s2)"
  shows "stays R (fst s) (fst s')"
  by (rule fold_result_inv [OF assms(2), where P = "\<lambda>s'. stays R (fst s) (fst s')"])
    (use stays_refl [OF assms(1)] step stays_trans in blast)+

lemma if_validated_Inr:
  "if_validated E d m p body h = Inr h' \<Longrightarrow> h' = h \<or> body h = Inr h'"
  by (auto simp: if_validated_def result_simps split: if_splits)

lemma stays_Remove:
  assumes "framed R h" "path_outside E (Path p)" "Remove E (rg_doc R) p h = Inr h'"
  shows "stays R h h'"
proof -
  obtain ms where ms: "FindMatches E h (rg_doc R) (Path p) = Inr ms"
    and loop: "fold_result (\<lambda>m. if_validated E (rg_doc R) (Some m) p (Remove_match (rg_doc R) m)) ms h = Inr h'"
    using assms(3) by (auto simp: Remove_def result_simps)
  show ?thesis
  proof (rule fold_result_inv [OF loop, where P = "stays R h"])
    fix m h1 h2
    assume m: "m \<in> set ms" and s: "stays R h h1"
      and step: "if_validated E (rg_doc R) (Some m) p (Remove_match (rg_doc R) m) h1 = Inr h2"
    have "free R h1 m" using stays_free [OF s outside_matches [OF assms(1,2) ms m]] .
    then have "stays R h1 h2"
      using if_validated_Inr [OF step] stays_Remove_match [OF stays_framed [OF s]] stays_refl [OF stays_framed [OF s]] by blast
    then show "stays R h h2" by (rule stays_trans [OF s])
  qed (rule stays_refl [OF assms(1)])
qed

lemma ReplaceNode_frame:
  assumes "ReplaceNode d m v h = Inr h'" "m \<notin> set (content h x)"
  shows "node_at h' x = node_at h x" "length h' = length h"
  using assms Find_sound [of h d "ContainsChild h m"]
  by (auto simp: ReplaceNode_def ContainsChild_def result_simps node_at_set_content split: option.splits)

lemma stays_Replace:
  assumes E: "lawful E" and f: "framed R h" and p: "path_outside E (Path p)"
    and r: "Replace E (rg_doc R) p h = Inr h'"
  shows "stays R h h'"
proof -
  let ?d = "rg_doc R"
  obtain ms v h1 where ms: "FindMatches E h ?d (Path p) = Inr ms" and n: "NewNode E (Value p) h = Inr (v, h1)"
    and loop: "fold_result (\<lambda>m. if_validated E ?d (Some m) p (ReplaceNode ?d m v)) ms h1 = Inr h'"
    using r by (auto simp: Replace_def result_simps)
  have st: "stays R h h1" and new: "new_value R h1 v" and fresh: "\<forall>w \<in> set (content h1 v). length h \<le> w"
    using stays_NewNode [OF E f] n by blast+
  have "stays R h1 h' \<and> content h' v = content h1 v"
  proof (rule fold_result_inv [OF loop, where P = "\<lambda>h2. stays R h1 h2 \<and> content h2 v = content h1 v"])
    fix m h2 h3
    assume m: "m \<in> set ms" and P: "stays R h1 h2 \<and> content h2 v = content h1 v"
      and step: "if_validated E ?d (Some m) p (ReplaceNode ?d m v) h2 = Inr h3"
    have st2: "stays R h1 h2" and c: "content h2 v = content h1 v" using P by blast+
    have free: "free R h m" using outside_matches [OF f p ms m] .
    then have "m \<notin> set (content h2 v)" using c fresh by (force simp: free_def)
    moreover have "new_value R h2 v" using new c stays_free [OF st2] by (auto simp: new_value_def)
    ultimately have "stays R h2 h3 \<and> content h3 v = content h2 v" if "ReplaceNode ?d m v h2 = Inr h3"
      using stays_ReplaceNode [OF stays_framed [OF st2] stays_free [OF stays_trans [OF st st2] free] _ that]
        ReplaceNode_frame(1) [OF that] by simp
    then show "stays R h1 h3 \<and> content h3 v = content h1 v"
      using if_validated_Inr [OF step] st2 c stays_trans by auto
  qed (use stays_refl [OF stays_framed [OF st]] in simp)
  then show ?thesis using stays_trans [OF st] by blast
qed

text \<open>Copies go into a field of the root, that is created when it is missing.\<close>

definition root_child :: "external \<Rightarrow> string \<Rightarrow> bool" where
  "root_child E path \<longleftrightarrow> getChildName path \<noteq> ''metadata''
     \<and> compile_path E (getParentPath path) \<in> {Inr PIdentity, Inr (PRoot PIdentity)}"

lemma stays_createPath:
  assumes f: "framed R h" and v: "free R h v" and p: "root_child E path"
    and r: "createPath E (rg_doc R) path v h = Inr h'"
  shows "stays R h h'"
proof -
  note d = framedD [OF f]
  have "getParents E h (rg_doc R) path \<in> {Inr [rg_doc R], Inr [rg_root R]}"
    using p d(10-12) by (auto simp: root_child_def getParents_def path_Find_def)
  then obtain m where m: "getParents E h (rg_doc R) path = Inr [m]" "m = rg_doc R \<or> m = rg_root R" by auto
  have "unpack_document h v = Inr v" using v by (simp add: unpack_document_def free_def)
  then have "attach_child (rg_doc R) path v m h = Inr h'"
    using r m(1) by (subst (asm) createPath.simps) (simp add: result_simps)
  then have "h' = append_content (rg_root R) [length h, v] (h @ [key_node (getChildName path)])"
    using m(2) d(10-12) by (auto simp: attach_child_def alloc_def first_child_def result_simps)
  then show ?thesis using stays_field_added [OF f v] p by (simp add: root_child_def)
qed

lemma stays_Copy_replace:
  assumes f: "framed R h" and m: "free R h m" and v: "free R h v" and r: "Copy_replace d m v h = Inr h'"
  shows "stays R h h'"
proof -
  let ?n = "\<lparr>nkind = DocumentNode, ntag = [], nvalue = [], ncontent = [v]\<rparr>"
  have st: "stays R h (h @ [?n])" using v by (intro framed_alloc [OF f]) simp
  have "new_value R (h @ [?n]) (length h)" using stays_free [OF st v] by (simp add: new_value_def node_at_alloc)
  moreover have "ReplaceNode d m (length h) (h @ [?n]) = Inr h'" using r by (simp add: Copy_replace_def alloc_def)
  ultimately show ?thesis
    using stays_ReplaceNode [OF stays_framed [OF st] stays_free [OF st m]] stays_trans [OF st] by blast
qed

lemma stays_CopyFromObject:
  assumes E: "lawful E" and f: "framed R h" and e: "other_document R h obj2"
    and p: "path_outside E (Path p)" "root_child E (Path p)"
    and r: "CopyFromObject E (rg_doc R) obj2 p h = Inr h'"
  shows "stays R h h'"
proof (cases obj2)
  case None
  with r stays_refl [OF f] show ?thesis by (simp add: CopyFromObject_def)
next
  case (Some e2)
  let ?d = "rg_doc R" let ?from = "if FromPath p = [] then Path p else FromPath p"
  have "Path p \<noteq> []"
  proof
    assume "Path p = []"
    with p(1) obtain n rest where "compile_path E [] = Inr (PRoot (PChild n rest))" by (auto simp: path_outside_def)
    with E show False by (fastforce simp: lawful_def compiles_rooted_def)
  qed
  then have src: "?from \<noteq> []" by simp
  from r Some obtain ms fs where ms: "FindMatches E h ?d (Path p) = Inr ms" and fs: "FindMatches E h e2 ?from = Inr fs"
    and body: "(if length fs = 1 \<and> ms = []
      then if_validated E ?d None p (createPath E ?d (Path p) (hd fs)) h
      else fold_result (\<lambda>m. if_validated E ?d (Some m) p
        (if length fs = 1 then Copy_replace ?d m (hd fs) else Copy_missing ?d m)) ms h) = Inr h'"
    by (auto simp: CopyFromObject_def Let_def result_simps split: if_splits)
  have taken: "free R h (hd fs)" if "length fs = 1"
    using that by (intro other_matches [OF E f e [unfolded Some] src fs]) (cases fs; simp)
  show ?thesis
  proof (cases "length fs = 1 \<and> ms = []")
    case True
    then have "h' = h \<or> createPath E ?d (Path p) (hd fs) h = Inr h'"
      using body if_validated_Inr [of E ?d None p "createPath E ?d (Path p) (hd fs)" h h'] by simp
    then show ?thesis using stays_createPath [OF f _ p(2)] taken True stays_refl [OF f] by blast
  next
    case False
    have loop: "fold_result (\<lambda>m. if_validated E ?d (Some m) p
        (if length fs = 1 then Copy_replace ?d m (hd fs) else Copy_missing ?d m)) ms h = Inr h'"
      using body unfolding if_not_P [OF False] .
    show ?thesis
    proof (rule fold_result_inv [OF loop, where P = "stays R h"])
      fix m h1 h2
      assume m: "m \<in> set ms" and s: "stays R h h1"
        and "if_validated E ?d (Some m) p (if length fs = 1 then Copy_replace ?d m (hd fs) else Copy_missing ?d m) h1 = Inr h2"
      from if_validated_Inr [OF this(3)] have step: "h2 = h1
          \<or> (if length fs = 1 then Copy_replace ?d m (hd fs) else Copy_missing ?d m) h1 = Inr h2" .
      have fr: "free R h1 m" using stays_free [OF s outside_matches [OF f p(1) ms m]] .
      have "stays R h1 h2"
      proof (cases "length fs = 1")
        case True
        with step show ?thesis
          using stays_Copy_replace [OF stays_framed [OF s] fr stays_free [OF s taken [OF True]]] stays_refl [OF stays_framed [OF s]]
          by auto
      next
        case False
        with step have "h2 = h1" by (auto simp: Copy_missing_def result_simps split: option.splits)
        then show ?thesis using stays_refl [OF stays_framed [OF s]] by simp
      qed
      then show "stays R h h2" by (rule stays_trans [OF s])
    qed (rule stays_refl [OF f])
  qed
qed

text \<open>The rewrites, for every match that is free.\<close>

lemma stays_new_replaced:
  assumes "lawful E" "framed R h" "free R h m"
    and "NewNode E x h = Inr (v, h1) \<or> NewJSONNode E x h = Inr (v, h1)" "ReplaceNode obj m v h1 = Inr h'"
  shows "stays R h h'"
proof -
  have st: "stays R h h1" "new_value R h1 v" using stays_NewNode [OF assms(1,2,4)] by blast+
  show ?thesis
    by (rule stays_trans [OF st(1) stays_ReplaceNode [OF stays_framed [OF st(1)] stays_free [OF st(1) assms(3)] st(2) assms(5)]])
qed

lemma stays_replace_with_value:
  "lawful E \<Longrightarrow> framed R h \<Longrightarrow> free R h m \<Longrightarrow> replace_with_value E obj m x r h = Inr s' \<Longrightarrow> stays R h (fst s')"
  by (auto simp: replace_with_value_def result_simps intro: stays_new_replaced)

lemma stays_translate:
  assumes "lawful E" "framed R (fst s)" "free R (fst s) m"
  shows "ValidateAndTranslateName E obj m patch resolver ns s = Inr s' \<Longrightarrow> stays R (fst s) (fst s')"
    and "ValidateAndTranslateNamespace E obj m patch resolver s = Inr s' \<Longrightarrow> stays R (fst s) (fst s')"
proof -
  have st: "stays R (fst s) (fst s')" if "s' = s \<or> (\<exists>x r. replace_with_value E obj m x r (fst s) = Inr s')"
    using that
  proof (elim disjE exE)
    fix x r assume "replace_with_value E obj m x r (fst s) = Inr s'"
    then show ?thesis by (rule stays_replace_with_value [OF assms])
  qed (simp add: stays_refl [OF assms(2)])
  show "ValidateAndTranslateName E obj m patch resolver ns s = Inr s' \<Longrightarrow> stays R (fst s) (fst s')"
    by (rule st) (cases s; auto simp: ValidateAndTranslateName_def result_simps split: if_splits)
  show "ValidateAndTranslateNamespace E obj m patch resolver s = Inr s' \<Longrightarrow> stays R (fst s) (fst s')"
    by (rule st) (cases s; auto simp: ValidateAndTranslateNamespace_def result_simps split: if_splits)
qed

lemma stays_scalars:
  assumes "framed R (fst s)" "for_scalars body ms s = Inr s'" "\<forall>m \<in> set ms. free R (fst s) m"
    and body: "\<And>m s1 s2. framed R (fst s1) \<Longrightarrow> free R (fst s1) m \<Longrightarrow> body m s1 = Inr s2 \<Longrightarrow> stays R (fst s1) (fst s2)"
  shows "stays R (fst s) (fst s')"
proof (rule stays_loop [OF assms(1,2) [unfolded for_scalars_def]])
  fix m s1 s2
  assume "m \<in> set ms" and st: "stays R (fst s) (fst s1)"
    and step: "(if kind_at (fst s1) m \<noteq> ScalarNode then Inr s1 else body m s1) = Inr s2"
  then show "stays R (fst s1) (fst s2)"
    using body [OF stays_framed [OF st] stays_free [OF st]] assms(3) stays_refl [OF stays_framed [OF st]]
    by (cases s2) (auto split: if_splits)
qed

lemma stays_ProcessRewrite:
  assumes E: "lawful E" and f: "framed R (fst s)" and x: "free R (fst s) obj"
    and r: "ProcessRewrite E obj patch resolver s = Inr s'"
  shows "stays R (fst s) (fst s')"
proof -
  obtain ns ms s1 where ms: "FindMatches E (fst s) obj (NamePath patch) = Inr ms"
    and s1: "for_scalars (\<lambda>m. ValidateAndTranslateName E obj m patch resolver ns) ms s = Inr s1"
    and rest: "s' = s1 \<or> (\<exists>ms'. FindMatches E (fst s1) obj (NamespacePath patch) = Inr ms' \<and>
        for_scalars (\<lambda>m. ValidateAndTranslateNamespace E obj m patch resolver) ms' s1 = Inr s')"
    using r by (fastforce simp: ProcessRewrite_def result_simps split: if_splits)
  have st: "stays R (fst s) (fst s1)"
    using free_matches [OF f x ms] by (intro stays_scalars [OF f s1] stays_translate(1) [OF E]) auto
  note f1 = stays_framed [OF st] and x1 = stays_free [OF st x]
  have "stays R (fst s1) (fst s')"
    using rest
  proof
    assume "\<exists>ms'. FindMatches E (fst s1) obj (NamespacePath patch) = Inr ms' \<and>
        for_scalars (\<lambda>m. ValidateAndTranslateNamespace E obj m patch resolver) ms' s1 = Inr s'"
    then obtain ms' where ms': "FindMatches E (fst s1) obj (NamespacePath patch) = Inr ms'"
      "for_scalars (\<lambda>m. ValidateAndTranslateNamespace E obj m patch resolver) ms' s1 = Inr s'" by blast
    show ?thesis
      using free_matches [OF f1 x1 ms'(1)] by (intro stays_scalars [OF f1 ms'(2)] stays_translate(2) [OF E]) auto
  qed (use stays_refl [OF f1] in simp)
  then show ?thesis by (rule stays_trans [OF st])
qed

lemma stays_RewriteName:
  assumes E: "lawful E" and f: "framed R (fst s)" and p: "path_outside E (Path patch)"
    and r: "RewriteName E (rg_doc R) patch resolver s = Inr s'"
  shows "stays R (fst s) (fst s')"
proof -
  obtain ms where ms: "FindMatches E (fst s) (rg_doc R) (Path patch) = Inr ms"
    and loop: "fold_result (RewriteName_match E (rg_doc R) patch resolver) ms s = Inr s'"
    using r by (auto simp: RewriteName_def result_simps)
  show ?thesis
  proof (rule stays_loop [OF f loop])
    fix m s1 s2
    assume m: "m \<in> set ms" and st: "stays R (fst s) (fst s1)"
      and step: "RewriteName_match E (rg_doc R) patch resolver m s1 = Inr s2"
    have f1: "framed R (fst s1)" "free R (fst s1) m"
      using stays_framed [OF st] stays_free [OF st outside_matches [OF f p ms m]] by blast+
    have sub: "stays R (fst s1) (fst s3)"
      if "fold_result (\<lambda>subNode. ProcessRewrite E subNode patch resolver) (content (fst s1) m) s1 = Inr s3" for s3
    proof (rule stays_loop [OF f1(1) that])
      fix c s4 s5
      assume c: "c \<in> set (content (fst s1) m)" and st4: "stays R (fst s1) (fst s4)"
        and "ProcessRewrite E c patch resolver s4 = Inr s5"
      then show "stays R (fst s4) (fst s5)"
        using stays_ProcessRewrite [OF E stays_framed [OF st4] stays_free [OF st4 outer_child [OF f1(1) free_outer [OF f1(2)] c]]]
        by blast
    qed
    show "stays R (fst s1) (fst s2)"
      using step sub stays_translate(1) [OF E f1] stays_ProcessRewrite [OF E f1] stays_refl [OF f1(1)]
      by (auto simp: RewriteName_match_def split: node_kind.splits)
  qed
qed

lemma stays_rewrite_loop:
  assumes f: "framed R (fst s)" and p: "path_outside E (Path patch)"
    and r: "bind_result (wrap msg (FindMatches E (fst s) (rg_doc R) (Path patch)))
      (\<lambda>ms. fold_result (rewrite_match E (rg_doc R) patch k body) ms s) = Inr s'"
    and body: "\<And>m s1 s2. framed R (fst s1) \<Longrightarrow> free R (fst s1) m \<Longrightarrow> body m s1 = Inr s2 \<Longrightarrow> stays R (fst s1) (fst s2)"
  shows "stays R (fst s) (fst s')"
proof -
  obtain ms where ms: "FindMatches E (fst s) (rg_doc R) (Path patch) = Inr ms"
    and loop: "fold_result (rewrite_match E (rg_doc R) patch k body) ms s = Inr s'"
    using r by (auto simp: result_simps)
  show ?thesis
  proof (rule stays_loop [OF f loop])
    fix m s1 s2
    assume m: "m \<in> set ms" and st: "stays R (fst s) (fst s1)" and "rewrite_match E (rg_doc R) patch k body m s1 = Inr s2"
    then show "stays R (fst s1) (fst s2)"
      using body [OF stays_framed [OF st] stays_free [OF st outside_matches [OF f p ms m]]]
        stays_refl [OF stays_framed [OF st]]
      by (cases s2) (auto simp: rewrite_match_def result_simps split: if_splits)
  qed
qed

lemma stays_RewriteLabels:
  assumes E: "lawful E" and f: "framed R (fst s)" and p: "path_outside E (Path patch)"
  shows "RewriteLabelKey E (rg_doc R) patch resolver s = Inr s' \<Longrightarrow> stays R (fst s) (fst s')"
    and "RewriteLabelSelector E (rg_doc R) patch resolver s = Inr s' \<Longrightarrow> stays R (fst s) (fst s')"
    and "RewriteLabelExpressionsSelector E (rg_doc R) patch resolver s = Inr s' \<Longrightarrow> stays R (fst s) (fst s')"
  unfolding RewriteLabelKey_def RewriteLabelSelector_def RewriteLabelExpressionsSelector_def
  by (erule stays_rewrite_loop [OF f p]; clarsimp simp: result_simps stays_refl split: if_splits;
      auto dest: stays_replace_with_value [OF E] intro: stays_new_replaced [OF E] stays_refl)+

section \<open>Lists of patches\<close>

text \<open>
  The patches that leave the metadata alone: no additions (adding at an existing scalar of the root shifts
  its keys), a path to or below another field, and copies only into a field of the object itself.
\<close>

definition outside_metadata :: "external \<Rightarrow> Patch \<Rightarrow> bool" where
  "outside_metadata E p \<longleftrightarrow> Operation p \<noteq> PatchTypeAdd \<and> path_outside E (Path p)
     \<and> (Operation p = PatchTypeCopyFromObject \<longrightarrow> root_child E (Path p))"

lemma stays_applyPatch:
  assumes E: "lawful E" and f: "framed R (fst s)" and e: "other_document R (fst s) obj2"
    and p: "\<forall>q. patch = Some q \<longrightarrow> outside_metadata E q"
    and r: "applyPatch E (rg_doc R) obj2 resolver patch s = Inr s'"
  shows "stays R (fst s) (fst s')"
proof -
  obtain q where q: "patch = Some q" using r by (cases patch) (auto simp: applyPatch_def)
  with p have o: "path_outside E (Path q)" "Operation q \<noteq> PatchTypeAdd"
    "Operation q = PatchTypeCopyFromObject \<Longrightarrow> root_child E (Path q)" by (auto simp: outside_metadata_def)
  note rs = stays_RewriteName [OF E f o(1)] stays_RewriteLabels [OF E f o(1)] stays_Replace [OF E f o(1)] stays_Remove [OF f o(1)]
    stays_CopyFromObject [OF E f e o(1) o(3)]
  from r show ?thesis
    unfolding applyPatch_def q option.case
    by (split if_split_asm; (use o rs in \<open>auto simp: on_heap_def result_simps split: if_splits\<close>)?)+
qed

lemma stays_patch_nodes:
  assumes E: "lawful E" and f: "framed R (fst s)" and e: "other_document R (fst s) obj2"
    and ps: "\<forall>q. Some q \<in> set ps \<longrightarrow> outside_metadata E q"
    and rps: "\<forall>q. Some q \<in> set rps \<longrightarrow> Path q = [] \<or> Ignore q = Some False \<or> path_outside E (Path q)"
    and r: "patch_nodes E (rg_doc R) obj2 ps rps resolver s = Inr s'"
  shows "stays R (fst s) (fst s')"
proof -
  let ?d = "rg_doc R"
  obtain s1 where s1: "fold_result (\<lambda>p s. wrap ''apply patch'' (applyPatch E ?d obj2 resolver p s)) ps s = Inr s1"
    and s': "fold_result (ignorePatch E ?d obj2 resolver) rps s1 = Inr s'"
    using r by (auto simp: patch_nodes_def result_simps)
  have st: "stays R (fst s) (fst s1)"
  proof (rule stays_loop [OF f s1])
    fix p s2 s3
    assume "p \<in> set ps" and st: "stays R (fst s) (fst s2)"
      and "wrap ''apply patch'' (applyPatch E ?d obj2 resolver p s2) = Inr s3"
    then show "stays R (fst s2) (fst s3)"
      using ps by (intro stays_applyPatch [OF E stays_framed [OF st] other_document_stays [OF st e]]) auto
  qed
  have "stays R (fst s1) (fst s')"
  proof (rule stays_loop [OF stays_framed [OF st] s'])
    fix p s2 s3
    assume p: "p \<in> set rps" and st2: "stays R (fst s1) (fst s2)" and i: "ignorePatch E ?d obj2 resolver p s2 = Inr s3"
    obtain q where q: "p = Some q" using i by (cases p) (auto simp: ignorePatch_def)
    note st3 = stays_trans [OF st st2]
    show "stays R (fst s2) (fst s3)"
    proof (cases "Path q = [] \<or> Ignore q = Some False")
      case True
      with i q show ?thesis using stays_refl [OF stays_framed [OF st2]] by (simp add: ignorePatch_def)
    next
      case False
      with rps p q have "path_outside E (Path q)" by blast
      moreover have "applyPatch E ?d obj2 resolver (Some (emptyPatch\<lparr>Operation := PatchTypeRemove, Path := Path q\<rparr>)) s2 = Inr s3"
        using i q False by (simp add: ignorePatch_def)
      ultimately show ?thesis
        by (intro stays_applyPatch [OF E stays_framed [OF st2] other_document_stays [OF st3 e]])
          (auto simp: outside_metadata_def emptyPatch_def)
    qed
  qed
  then show ?thesis by (rule stays_trans [OF st])
qed

end
