(* ===== verification/MetadataFrame.thy ===== *)
theory MetadataFrame
  imports MetadataPaths
begin

text \<open>
  The metadata of a patched object. \<open>metadata_codec\<close> is what the JSON codecs do with objects; a decoded object
  is framed, and a framed document encodes to an object with the same metadata, so the object that
  \<^verbatim>\<open>ApplyPatches\<close> returns has the metadata it was given.
\<close>

section \<open>From an object to its document and back\<close>

fun node_text :: "ytree \<Rightarrow> string" where
  "node_text (YNode k tag name ts) = name"

fun fields_named :: "(ytree \<Rightarrow> goval) \<Rightarrow> string \<Rightarrow> ytree list \<Rightarrow> goval list" where
  "fields_named sem name (k # v # ts) = (if node_text k = name then [sem v] else []) @ fields_named sem name ts"
| "fields_named sem name _ = []"

text \<open>
  What the JSON codecs do with the metadata of objects, where \<open>sem\<close> is the value a tree stands for: an
  object with metadata becomes a mapping with one such field, and a mapping with one such field becomes
  an object with this metadata, wherever the field stands.
\<close>

definition metadata_codec :: "external \<Rightarrow> (ytree \<Rightarrow> goval) \<Rightarrow> bool" where
  "metadata_codec E sem \<longleftrightarrow>
     (\<forall>m mv doc t. map_of m ''metadata'' = Some mv \<longrightarrow> json_Marshal E (VMap m) = Inr doc \<longrightarrow>
        yaml_Unmarshal_node E doc = Inr t \<longrightarrow>
        (\<exists>tag s tag' s' ts. t = YNode DocumentNode tag s [YNode MappingNode tag' s' ts]
           \<and> even (length ts) \<and> fields_named sem ''metadata'' ts = [mv]))
   \<and> (\<forall>tag s tag' s' ts mv doc v. even (length ts) \<longrightarrow> fields_named sem ''metadata'' ts = [mv] \<longrightarrow>
        yaml_Marshal_node E (YNode DocumentNode tag s [YNode MappingNode tag' s' ts]) = Inr doc \<longrightarrow>
        jsonyaml_Unmarshal_object E doc = Inr v \<longrightarrow>
        (\<exists>m. v = VMap m \<and> map_of m ''metadata'' = Some mv))"

lemma trees_at_related: "trees_at h ts as \<longleftrightarrow> list_all2 (\<lambda>a t. tree_at h t a) as ts"
  by (induction ts arbitrary: as) (auto split: list.splits simp: list_all2_Cons2)

lemma read_trees_related:
  "read_trees_fuel n h cs = Inr ts \<Longrightarrow> list_all2 (\<lambda>a t. read_tree_fuel n h a = Inr t) cs ts"
  by (induction cs arbitrary: ts) (auto simp: result_simps)

lemma tree_at_text: "tree_at h t a \<Longrightarrow> value_at h a = node_text t"
  by (cases t) simp

lemma read_tree_text: "read_tree_fuel n h a = Inr t \<Longrightarrow> value_at h a = node_text t"
  by (cases n) (auto simp: result_simps)

text \<open>The fields of a name, in the nodes and in the trees they stand for.\<close>

lemma fields_related:
  assumes text_of: "\<And>a t. P a t \<Longrightarrow> value_at h a = node_text t"
  shows "list_all2 P (flat es) ts \<Longrightarrow>
    list_all2 (\<lambda>e x. \<exists>T. P (snd e) T \<and> sem T = x) (filter (\<lambda>e. value_at h (fst e) = n) es) (fields_named sem n ts)"
proof (induction es arbitrary: ts rule: flat.induct)
  case (2 k v es)
  then obtain t1 t2 ts' where "ts = t1 # t2 # ts'" "P k t1" "P v t2" "list_all2 P (flat es) ts'"
    by (auto simp: list_all2_Cons1)
  then show ?case using 2 text_of [of k t1] by auto
qed simp

lemma distinct_flat:
  assumes "distinct (flat es)" "e \<in> set es" "e' \<in> set es" "{fst e, snd e} \<inter> {fst e', snd e'} \<noteq> {}"
  shows "e = e'"
  using assms by (induction es rule: flat.induct) (force simp: set_flat)+

lemma distinct_flat_keys: "distinct (flat es) \<Longrightarrow> fst ` set es \<inter> snd ` set es = {}"
  by (induction es rule: flat.induct) (auto simp: set_flat)

text \<open>A decoded object is framed, around the tree of its metadata.\<close>

lemma decoded_frame:
  assumes E: "lawful E" "metadata_codec E sem" and m: "map_of m ''metadata'' = Some mv"
    and n: "NewJSONNode E (VMap m) [] = Inr (d, h)"
  shows "\<exists>R T. framed R h \<and> rg_doc R = d \<and> rg_value R \<in> rg_nodes R \<and> tree_at h T (rg_value R) \<and> sem T = mv"
proof -
  obtain doc t where t: "json_Marshal E (VMap m) = Inr doc" "yaml_Unmarshal_node E doc = Inr t" "alloc_tree t [] = (d, h)"
    using n by (auto simp: NewJSONNode_def node_from_text_def split: sum.splits)
  have "doc_tree t" using E(1) t(2) by (simp add: lawful_def decodes_documents_def)
  then have s: "sound h" using alloc_doc_tree [OF t(3) _ sound_Nil] by blast
  have wf: "wf_heap h" and inn: "inner h" and cl: "closed_heap h" using s by (auto simp: sound_def wf_heap_def)
  have sh: "tree_shaped h" using alloc_tree_shaped(1) [OF t(3) tree_shaped_Nil] by (simp add: closed_heap_def)
  obtain tag s tag' s' ts where ts: "t = YNode DocumentNode tag s [YNode MappingNode tag' s' ts]" "even (length ts)"
    "fields_named sem ''metadata'' ts = [mv]"
    using E(2) t(1,2) m unfolding metadata_codec_def by blast
  have "tree_at h t d" using alloc_tree_at(1) [OF t(3)] .
  then obtain r where d: "kind_at h d = DocumentNode" "content h d = [r]" "kind_at h r = MappingNode"
    "trees_at h ts (content h r)"
    by (auto simp: ts(1) split: list.splits)
  note rel = d(4) [unfolded trees_at_related]
  let ?cs = "content h r"
  obtain es where es: "?cs = flat es" using flat_exists ts(2) list_all2_lengthD [OF rel] by metis
  let ?named = "filter (\<lambda>e. value_at h (fst e) = ''metadata'') es"
  have "list_all2 (\<lambda>e x. \<exists>T. tree_at h T (snd e) \<and> sem T = x) ?named (fields_named sem ''metadata'' ts)"
    by (rule fields_related [where P = "\<lambda>a t. tree_at h t a", OF tree_at_text rel [unfolded es]])
  then obtain kd mt T where named: "?named = [(kd, mt)]" and T: "tree_at h T mt" "sem T = mv"
    unfolding ts(3) by (auto simp: list_all2_Cons2)
  have "(kd, mt) \<in> set ?named" by (simp only: named list.set) simp
  then have kv: "(kd, mt) \<in> set es" "value_at h kd = ''metadata''" by simp_all
  define R where "R = \<lparr>rg_doc = d, rg_root = r, rg_key = kd, rg_value = mt,
    rg_nodes = {x. reach h kd x \<or> reach h mt x}, rg_node = node_at h\<rparr>"
  have mem: "kd \<in> set ?cs" "mt \<in> set ?cs" using kv(1) es by (force simp: set_flat)+
  have rd: "r \<in> set (content h d)" using d(2) by simp
  have up: "x = r" if "c \<in> set ?cs" "c \<in> set (content h x)" for c x using tree_shapedD(2) [OF sh] that by blast
  have no_r: "\<not> reach h c r" if "c \<in> set ?cs" for c using child_not_reached [OF wf that] .
  have no_d: "\<not> reach h c d" if "c \<in> set ?cs" for c
    using no_r [OF that] reach_step [of h c d r] rd by blast
  have parent: "c \<in> {kd, mt} \<and> x = r \<or> x \<in> rg_nodes R" if c: "c \<in> rg_nodes R" "c \<in> set (content h x)" for c x
  proof -
    from c(1) obtain b where b: "b \<in> {kd, mt}" "reach h b c" by (auto simp: R_def)
    show ?thesis
    proof (cases "c = b")
      case True
      then show ?thesis using up [of c x] b(1) mem c(2) by auto
    next
      case False
      with b(2) obtain y where "reach h b y" "c \<in> set (content h y)"
        unfolding reach_def by (metis (no_types, lifting) child_rel_def mem_Collect_eq prod.simps(2) rtranclE)
      moreover from this have "y = x" using tree_shapedD(2) [OF sh] c(2) by blast
      ultimately show ?thesis using b(1) by (auto simp: R_def)
    qed
  qed
  have no_rd: "d \<notin> rg_nodes R" "r \<notin> rg_nodes R" using no_d no_r mem by (auto simp: R_def)
  have entry: "entry_list R h es"
  proof -
    have "marked R h e \<longleftrightarrow> value_at h (fst e) = ''metadata''" if e: "e \<in> set es" for e
    proof
      assume "marked R h e"
      then consider "value_at h (fst e) = ''metadata''" | "{fst e, snd e} \<inter> rg_nodes R \<noteq> {}" by (auto simp: marked_def)
      then show "value_at h (fst e) = ''metadata''"
      proof cases
        case 2
        then obtain c where c: "c \<in> {fst e, snd e}" "c \<in> rg_nodes R" by blast
        then have "c \<in> {kd, mt}" using parent [of c r] e es no_rd(2) by (auto simp: set_flat)
        then have "e = (kd, mt)"
          using distinct_flat [OF _ e kv(1)] tree_shapedD(1) [OF sh, of r] es c(1) by auto
        then show ?thesis using kv(2) by simp
      qed
    qed (simp add: marked_def)
    then have "filter (marked R h) es = ?named" by (intro filter_cong) simp_all
    moreover have "fst ` set es \<inter> snd ` set es = {}" using distinct_flat_keys tree_shapedD(1) [OF sh, of r] es by simp
    ultimately show ?thesis using named kv(2) by (simp add: entry_list_def R_def)
  qed
  have "framed R h"
  proof (rule framedI)
    show "content h (rg_root R) = flat es" using es by (simp add: R_def)
    show "x < length h \<and> node_at h x = rg_node R x \<and> set (content h x) \<subseteq> rg_nodes R" if "x \<in> rg_nodes R" for x
      using that reach_in_range [OF _ cl] closed_heapD [OF cl] mem by (auto simp: R_def intro: reach_step)
    show "rg_doc R \<notin> rg_nodes R" "rg_root R \<notin> rg_nodes R" using no_rd by (simp_all add: R_def)
    show "rg_root R \<notin> set (content h q)" if "q \<noteq> rg_doc R" for q
      using that tree_shapedD(2) [OF sh rd] by (auto simp: R_def)
    show "set (content h q) \<inter> rg_nodes R = {}" if "q \<notin> rg_nodes R \<union> {rg_root R}" for q
      using that parent by (auto simp: R_def)
    show "set (content h q) \<inter> fst ` set es = {}" if "q \<noteq> rg_root R" for q
      using that up [of _ q] es by (auto simp: R_def set_flat)
  qed (use cl inn entry d in \<open>simp_all add: R_def\<close>)
  then show ?thesis using T by (intro exI [of _ R] exI [of _ T]) (simp add: R_def)
qed

text \<open>A framed document encodes to an object with that metadata.\<close>

lemma framed_encodes:
  assumes E: "metadata_codec E sem" and f: "framed R h" and T: "tree_at h T (rg_value R)"
    and r: "marshal_node E h (rg_doc R) = Inr doc" "jsonyaml_Unmarshal_object E doc = Inr v"
  shows "\<exists>m. v = VMap m \<and> map_of m ''metadata'' = Some (sem T)"
proof -
  let ?cs = "content h (rg_root R)"
  note d = framedD [OF f]
  obtain t where t: "read_tree h (rg_doc R) = Inr t" "yaml_Marshal_node E t = Inr doc"
    using r(1) by (auto simp: marshal_node_def result_simps)
  obtain tr where tr: "read_tree_fuel (length h) h (rg_root R) = Inr tr"
    and td: "t = YNode DocumentNode (ntag (node_at h (rg_doc R))) (value_at h (rg_doc R)) [tr]"
    using t(1) d(10,11) by (auto simp: read_tree_def result_simps)
  obtain n where n: "length h = Suc n" using d(13) by (cases "length h") auto
  obtain ts where ts: "read_trees_fuel n h ?cs = Inr ts"
    and trm: "tr = YNode MappingNode (ntag (node_at h (rg_root R))) (value_at h (rg_root R)) ts"
    using tr d(12) by (auto simp: n result_simps)
  obtain es where es: "?cs = flat es" "entry_list R h es" by (rule framed_fields [OF f])
  let ?e = "(rg_key R, rg_value R)"
  have one: "filter (marked R h) es = [?e]" "value_at h (rg_key R) = ''metadata''"
    using es(2) by (simp_all add: entry_list_def)
  have "filter (\<lambda>e. value_at h (fst e) = ''metadata'') es
      = filter (\<lambda>e. value_at h (fst e) = ''metadata'') (filter (marked R h) es)"
    unfolding filter_filter by (intro filter_cong) (auto simp: marked_def)
  also have "\<dots> = [?e]" using one by simp
  finally have named: "filter (\<lambda>e. value_at h (fst e) = ''metadata'') es = [?e]" .
  have "list_all2 (\<lambda>e x. \<exists>T. read_tree_fuel n h (snd e) = Inr T \<and> sem T = x)
      (filter (\<lambda>e. value_at h (fst e) = ''metadata'') es) (fields_named sem ''metadata'' ts)"
    by (rule fields_related [where P = "\<lambda>a t. read_tree_fuel n h a = Inr t", OF read_tree_text
        read_trees_related [OF ts, unfolded es(1)]])
  then have "list_all2 (\<lambda>e x. \<exists>T. read_tree_fuel n h (snd e) = Inr T \<and> sem T = x) [?e] (fields_named sem ''metadata'' ts)"
    by (simp only: named)
  then have "fields_named sem ''metadata'' ts = [sem T]"
    using tree_at_read(1) [OF T, of n] by (auto simp: list_all2_Cons1)
  moreover have "even (length ts)" using list_all2_lengthD [OF read_trees_related [OF ts], symmetric] es(1) by simp
  ultimately show ?thesis
    using E t(2) r(2) unfolding metadata_codec_def td trm by metis
qed

lemma apply_stages:
  assumes "bind_result (wrap e1 (NewJSONNode E o1 [])) (\<lambda>(node1, h1).
     bind_result (case obj2 of
         None \<Rightarrow> Inr (None, h1)
       | Some o2 \<Rightarrow> bind_result (wrap e2 (NewJSONNode E o2 h1)) (\<lambda>(node2, h2). Inr (Some node2, h2)))
     (\<lambda>(node2, h2). bind_result (patch_nodes E node1 node2 ps rps resolver (h2, s)) (\<lambda>(h3, r').
     bind_result (wrap e3 (marshal_node E h3 node1)) (\<lambda>objYaml.
     bind_result (wrap e4 (lift_error (jsonyaml_Unmarshal_object E objYaml))) (\<lambda>obj1'. Inr (obj1', r')))))) = Inr (p, s')"
  obtains d h1 n2 h2 h3 doc where "NewJSONNode E o1 [] = Inr (d, h1)"
    "n2 = None \<and> h2 = h1 \<or> (\<exists>o2 e. NewJSONNode E o2 h1 = Inr (e, h2) \<and> n2 = Some e)"
    "patch_nodes E d n2 ps rps resolver (h2, s) = Inr (h3, s')"
    "marshal_node E h3 d = Inr doc" "jsonyaml_Unmarshal_object E doc = Inr p"
  using assms by (cases obj2; clarsimp simp: result_simps; blast)

lemma patched_metadata:
  assumes E: "lawful E" "metadata_codec E sem" and m: "map_of m ''metadata'' = Some mv"
    and ps: "\<forall>q. Some q \<in> set ps \<longrightarrow> outside_metadata E q"
    and rps: "\<forall>q. Some q \<in> set rps \<longrightarrow> Path q = [] \<or> Ignore q = Some False \<or> path_outside E (Path q)"
    and r: "ApplyPatches E (VMap m) obj2 ps rps resolver s = Inr (p, s')"
  shows "\<exists>m'. p = VMap m' \<and> map_of m' ''metadata'' = Some mv"
proof -
  obtain d h1 n2 h2 h3 doc where n1: "NewJSONNode E (VMap m) [] = Inr (d, h1)"
    and n2: "n2 = None \<and> h2 = h1 \<or> (\<exists>o2 e. NewJSONNode E o2 h1 = Inr (e, h2) \<and> n2 = Some e)"
    and run: "patch_nodes E d n2 ps rps resolver (h2, s) = Inr (h3, s')"
    and doc: "marshal_node E h3 d = Inr doc" "jsonyaml_Unmarshal_object E doc = Inr p"
    using r unfolding ApplyPatches_def by (rule apply_stages)
  obtain R T where R: "framed R h1" "rg_doc R = d" "rg_value R \<in> rg_nodes R" "tree_at h1 T (rg_value R)" "sem T = mv"
    using decoded_frame [OF E m n1] by blast
  have st2: "stays R h1 h2 \<and> other_document R h2 n2"
    using n2 stays_NewNode [OF E(1) R(1)] stays_refl [OF R(1)] by (auto simp: other_document_def)
  then have "framed R h2" using stays_framed by blast
  with st2 have "stays R h2 h3"
    using stays_patch_nodes [OF E(1) _ _ ps rps, of R "(h2, s)" n2 resolver "(h3, s')"] run R(2) by simp
  with st2 have st: "stays R h1 h3" using stays_trans by blast
  note f1 = R(1) and f3 = stays_framed [OF st]
  have "closed_set (rg_nodes R) h1" using framedD(6) [OF f1] by (auto simp: closed_set_def)
  then have "tree_at h3 T (rg_value R)"
    by (rule tree_at_frame(1) [OF _ _ _ R(4,3)]) (use framedD(5) [OF f1] framedD(5) [OF f3] st in \<open>auto simp: stays_def\<close>)
  from framed_encodes [OF E(2) f3 this] doc R(2,5) show ?thesis by auto
qed

end
