(* ===== verification/MetadataProperties.thy ===== *)
theory MetadataProperties
  imports MetadataFrame RunProperties
begin

text \<open>
  Patches outside the metadata: the patched object has the metadata it was given, so it stays at its
  address and keeps the label of its controller, which is what the properties of runs ask of the patches
  of a configuration. Here they are for the controllers a configuration is registered with. Adding at a field
  of the object that is a scalar is the exception.
\<close>

lemma same_metadata:
  assumes "map_of m' ''metadata'' = map_of m ''metadata''"
  shows "NestedFieldNoCopy (VMap m') (meta_field f) = NestedFieldNoCopy (VMap m) (meta_field f)"
  using assms by simp

lemma same_accessors:
  assumes "map_of m' ''metadata'' = map_of m ''metadata''"
  shows "object_nn (VMap m') = object_nn (VMap m)" "GetLabels (VMap m') = GetLabels (VMap m)"
  using same_metadata [OF assms]
  by (simp_all add: object_nn_def GetName_def GetNamespace_def GetLabels_def getNestedString_def
      NestedStringMap_def nested_def)

lemma has_metadata_map: "has_metadata t \<Longrightarrow> \<exists>m mv. t = VMap m \<and> map_of m ''metadata'' = Some mv"
  by (cases t) (auto simp: has_metadata_def nested_def split: option.splits)

text \<open>The patches of a mapping, all of them at other fields than the metadata.\<close>

definition patches_outside :: "external \<Rightarrow> Patch option list \<Rightarrow> Patch option list \<Rightarrow> bool" where
  "patches_outside E ps rps \<longleftrightarrow> (\<forall>q. Some q \<in> set ps \<longrightarrow> outside_metadata E q)
     \<and> (\<forall>q. Some q \<in> set rps \<longrightarrow> Path q = [] \<or> Ignore q = Some False \<or> path_outside E (Path q))"

lemma outside_keeps_metadata:
  assumes "lawful E" "metadata_codec E sem" "map_of m ''metadata'' = Some mv" "patches_outside E ps rps"
    and "ApplyPatches E (VMap m) obj2 ps rps resolver s = Inr (p, s')"
  shows "\<exists>m'. p = VMap m' \<and> map_of m' ''metadata'' = Some mv"
  using patched_metadata [OF assms(1-3) _ _ assms(5)] assms(4) by (simp add: patches_outside_def)

lemma outside_keeps:
  assumes "lawful E" "metadata_codec E sem" "patches_outside E ps rps"
  shows "keeps_address E ps rps nr" "keeps_owner E ps rps nr cid"
proof -
  have same: "object_nn p = object_nn t \<and> GetLabels p = GetLabels t"
    if r: "ApplyPatches E t obj2 ps rps nr r = Inr (p, r')" and l: "has_metadata t" for t obj2 r p r'
  proof -
    obtain m mv where m: "t = VMap m" "map_of m ''metadata'' = Some mv" using has_metadata_map [OF l] by blast
    from outside_keeps_metadata [OF assms(1,2) m(2) assms(3) r [unfolded m(1)]]
    obtain m' where "p = VMap m'" "map_of m' ''metadata'' = Some mv" by blast
    then show ?thesis using same_accessors [of m' m] m by simp
  qed
  then show "keeps_address E ps rps nr" unfolding keeps_address_def by blast
  have "labelled cid p"
    if r: "ApplyPatches E t obj2 ps rps nr r = Inr (p, r')" and l: "labelled cid t" for t obj2 r p r'
    using same [OF r has_metadataI(1) [OF labelled_labels [OF l]]] l by (simp add: labelled_def)
  then show "keeps_owner E ps rps nr cid" unfolding keeps_owner_def by blast
qed

text \<open>Preparing the patches of a mapping parses their regular expressions, and keeps the rest.\<close>

lemma prepared_patch:
  "prepare_patches compile ps = Inr qs \<Longrightarrow> Some q \<in> set qs \<Longrightarrow>
     \<exists>p. Some p \<in> set ps \<and> Operation q = Operation p \<and> Path q = Path p \<and> Ignore q = Ignore p"
proof (induction ps arbitrary: qs)
  case (Cons p ps)
  then obtain q1 qs1 where qs: "qs = q1 # qs1" "prepare_patch compile p = Inr q1" "prepare_patches compile ps = Inr qs1"
    by (auto simp: result_simps)
  show ?case
  proof (cases "q1 = Some q")
    case True
    then have "\<exists>p'. p = Some p' \<and> Operation q = Operation p' \<and> Path q = Path p' \<and> Ignore q = Ignore p'"
      using qs(2) by (auto simp: prepare_patch_def split: option.splits if_splits sum.splits)
    then show ?thesis by auto
  next
    case False
    with Cons qs show ?thesis by auto
  qed
qed simp

lemma prepared_outside:
  assumes "prepare_patches compile ps = Inr qs" "prepare_patches compile rps = Inr rqs" "patches_outside E ps rps"
  shows "patches_outside E qs rqs"
proof -
  have "outside_metadata E q" if "Some q \<in> set qs" for q
    using prepared_patch [OF assms(1) that] assms(3) by (auto simp: patches_outside_def outside_metadata_def)
  moreover have "Path q = [] \<or> Ignore q = Some False \<or> path_outside E (Path q)" if "Some q \<in> set rqs" for q
    using prepared_patch [OF assms(2) that] assms(3) unfolding patches_outside_def by metis
  ultimately show ?thesis unfolding patches_outside_def by blast
qed

text \<open>The controllers a list of mappings is registered with, by the parts of the configuration they are made of.\<close>

lemma planned_syncer:
  assumes "list_all (can_create P ctx) ms" "FromVirtualBase f \<in> set (concat (map (planned P ctx) ms))"
  shows "\<exists>m c. m \<in> set ms \<and> MFromVirtualCluster m = Some c
    \<and> CreateFromVirtualSyncer (RegexpCompile P) (NewRequirement P) ctx c = Inr f"
proof -
  obtain m where pl: "m \<in> set ms" "FromVirtualBase f \<in> set (planned P ctx m)" using assms(2) by auto
  then obtain c where m: "m \<in> set ms" "MFromVirtualCluster m = Some c" "f = created P ctx c"
    by (cases "MFromVirtualCluster m") (auto simp: planned_def Let_def)
  moreover have "can_create P ctx m" using assms(1) m(1) by (simp add: list_all_iff)
  with m(2) have "CreateFromVirtualSyncer (RegexpCompile P) (NewRequirement P) ctx c = Inr (created P ctx c)"
    by (auto simp: can_create_def created_def split: sum.splits)
  ultimately show ?thesis by blast
qed

lemma created_config:
  assumes "CreateFromVirtualSyncer compile requirement ctx c = Inr f"
  obtains ps rps where "prepare_patches compile (Patches c) = Inr ps" "prepare_patches compile (ReversePatches c) = Inr rps"
    "fv_config f = c\<lparr>Patches := ps, ReversePatches := rps\<rparr>"
  using assms by (auto simp: CreateFromVirtualSyncer_def validateFromVirtualConfig_def result_simps)

lemma planned_back_syncer:
  assumes "list_all (can_create P ctx) ms" "BackBase b \<in> set (concat (map (planned P ctx) ms))"
  shows "\<exists>m c sb parent. m \<in> set ms \<and> MFromVirtualCluster m = Some c \<and> Some sb \<in> set (SyncBacks c)
    \<and> CreateBackSyncer ctx sb parent = Inr b \<and> bs_config b = sb"
proof -
  obtain m where pl: "m \<in> set ms" "BackBase b \<in> set (planned P ctx m)" using assms(2) by auto
  then obtain c where m: "MFromVirtualCluster m = Some c" by (cases "MFromVirtualCluster m") (auto simp: planned_def)
  let ?f = "created P ctx c"
  have cc: "can_create P ctx m" using assms(1) pl(1) by (simp add: list_all_iff)
  with m have f: "CreateFromVirtualSyncer (RegexpCompile P) (NewRequirement P) ctx c = Inr ?f"
    and sbs: "None \<notin> set (SyncBacks (fv_config ?f))" "\<forall>x \<in> set (SyncBacks (fv_config ?f)). Selectors (the x) \<noteq> []"
    by (auto simp: can_create_def created_def list_all_iff split: sum.splits)
  obtain x where x: "x \<in> set (SyncBacks (fv_config ?f))" "b = projr (CreateBackSyncer ctx (the x) (fv_config ?f))"
    using pl(2) m by (auto simp: planned_def Let_def)
  then have "x \<noteq> None" "Selectors (the x) \<noteq> []" using sbs by (metis, blast)
  then obtain sb where sb: "x = Some sb" "Selectors sb \<noteq> []" by auto
  then obtain b' where b': "CreateBackSyncer ctx sb (fv_config ?f) = Inr b'" "bs_config b' = sb"
    by (simp add: CreateBackSyncer_def)
  moreover have "SyncBacks (fv_config ?f) = SyncBacks c" by (rule created_config [OF f]) simp
  ultimately show ?thesis
    using pl(1) m x sb by (intro exI [of _ m] exI [of _ c] exI [of _ sb] exI [of _ "fv_config ?f"]) auto
qed

text \<open>A mapping all of whose patches leave the metadata alone, on the way there and on the way back.\<close>

definition outside_both :: "external \<Rightarrow> 'a SyncBase_scheme \<Rightarrow> bool" where
  "outside_both E b \<longleftrightarrow> patches_outside E (Patches b) (ReversePatches b) \<and> patches_outside E (ReversePatches b) []"

definition mapping_outside :: "external \<Rightarrow> Mapping \<Rightarrow> bool" where
  "mapping_outside E m \<longleftrightarrow> (case MFromVirtualCluster m of
     None \<Rightarrow> True
   | Some c \<Rightarrow> outside_both E c \<and> (\<forall>sb. Some sb \<in> set (SyncBacks c) \<longrightarrow> outside_both E sb))"

lemma created_outside:
  assumes "CreateFromVirtualSyncer compile requirement ctx c = Inr f"
  shows "patches_outside E (Patches c) (ReversePatches c) \<Longrightarrow>
      patches_outside E (Patches (fv_config f)) (ReversePatches (fv_config f))"
    and "outside_both E c \<Longrightarrow> outside_both E (fv_config f)"
proof -
  obtain ps rps where ps: "prepare_patches compile (Patches c) = Inr ps" "prepare_patches compile (ReversePatches c) = Inr rps"
    "fv_config f = c\<lparr>Patches := ps, ReversePatches := rps\<rparr>"
    by (rule created_config [OF assms])
  have nil: "prepare_patches compile [] = Inr []" by simp
  show "patches_outside E (Patches c) (ReversePatches c) \<Longrightarrow>
      patches_outside E (Patches (fv_config f)) (ReversePatches (fv_config f))"
    "outside_both E c \<Longrightarrow> outside_both E (fv_config f)"
    using prepared_outside [OF ps(1,2)] prepared_outside [OF ps(2) nil] by (simp_all add: ps(3) outside_both_def)
qed

lemma configured_stay_put:
  assumes "lawful E" "metadata_codec E sem" "list_all (can_create P ctx) ms" "\<forall>m \<in> set ms. mapping_outside E m"
  shows "FromVirtualBase f \<in> set (concat (map (planned P ctx) ms)) \<Longrightarrow>
      (\<exists>c. CreateFromVirtualSyncer (RegexpCompile P) (NewRequirement P) ctx c = Inr f) \<and> fv_stays_put E ctx f"
    and "BackBase b \<in> set (concat (map (planned P ctx) ms)) \<Longrightarrow>
      (\<exists>c parent. CreateBackSyncer ctx c parent = Inr b) \<and> bs_stays_put E ctx b"
proof -
  show "(\<exists>c. CreateFromVirtualSyncer (RegexpCompile P) (NewRequirement P) ctx c = Inr f) \<and> fv_stays_put E ctx f"
    if f: "FromVirtualBase f \<in> set (concat (map (planned P ctx) ms))"
  proof -
    obtain m c where m: "m \<in> set ms" "MFromVirtualCluster m = Some c"
      "CreateFromVirtualSyncer (RegexpCompile P) (NewRequirement P) ctx c = Inr f"
      using planned_syncer [OF assms(3) f] by blast
    then have "outside_both E c" using assms(4) by (fastforce simp: mapping_outside_def)
    then have "outside_both E (fv_config f)" using created_outside(2) [OF m(3)] by blast
    then show ?thesis using m(3) by (auto simp: fv_stays_put_def outside_both_def intro: outside_keeps(1) [OF assms(1,2)])
  qed
  show "(\<exists>c parent. CreateBackSyncer ctx c parent = Inr b) \<and> bs_stays_put E ctx b"
    if b: "BackBase b \<in> set (concat (map (planned P ctx) ms))"
  proof -
    obtain m c sb parent where m: "m \<in> set ms" "MFromVirtualCluster m = Some c" "Some sb \<in> set (SyncBacks c)"
      "CreateBackSyncer ctx sb parent = Inr b" "bs_config b = sb"
      using planned_back_syncer [OF assms(3) b] by blast
    then have "outside_both E (bs_config b)" using assms(4) by (fastforce simp: mapping_outside_def)
    then show ?thesis using m(4) by (auto simp: bs_stays_put_def outside_both_def intro: outside_keeps(1) [OF assms(1,2)])
  qed
qed

section \<open>A codec for objects with metadata\<close>

text \<open>
  The text format, with encoders that fail when the text does not decode to what they encode, or when
  an object has two fields of the same name.
\<close>

definition checked_codec :: external where
  "checked_codec = codec\<lparr>
     json_Marshal := (\<lambda>v.
       if decode_object (render v) = Inr v \<and> (case v of VMap m \<Rightarrow> distinct (map fst m) | _ \<Rightarrow> True)
       then Inr (render v) else Inl (Plain ''ambiguous'')),
     yaml_Marshal_node := (\<lambda>t. case t of
       YNode DocumentNode _ _ [t'] \<Rightarrow>
         if decode_object (tree_text t) = Inr (tree_value t') then Inr (tree_text t) else Inl (Plain ''ambiguous'')
     | _ \<Rightarrow> Inl (Plain ''no document''))\<rparr>"

lemma checked_codec_lawful: "lawful checked_codec"
  using codec_lawful by (simp add: lawful_def decodes_documents_def compiles_rooted_def checked_codec_def)

lemma entries_fields:
  "even (length ts) \<Longrightarrow> fields_named tree_value k ts = map snd (filter (\<lambda>(n, v). n = k) (entries_value ts))"
  by (induction tree_value k ts rule: fields_named.induct) (auto split: ytree.splits)

lemma distinct_fields:
  "distinct (map fst m) \<Longrightarrow> map_of m k = Some v \<Longrightarrow> map snd (filter (\<lambda>(n, v). n = k) m) = [v]"
proof (induction m)
  case (Cons e m)
  have "filter (\<lambda>(n, v). n = k) m = []" if "k \<notin> fst ` set m"
    using that by (force simp: filter_empty_conv)
  with Cons show ?case by (cases e) (auto split: if_splits)
qed simp

lemma fields_map_of: "map snd (filter (\<lambda>(n, v). n = k) m) = [v] \<Longrightarrow> map_of m k = Some v"
  by (induction m) (auto split: if_splits)

lemma checked_codec_metadata: "metadata_codec checked_codec tree_value"
  unfolding metadata_codec_def
proof (intro conjI allI impI)
  fix m mv doc t
  assume mv: "map_of m ''metadata'' = Some mv" and d: "json_Marshal checked_codec (VMap m) = Inr doc"
    and t: "yaml_Unmarshal_node checked_codec doc = Inr t"
  from d have doc: "doc = render (VMap m)" "decode_object doc = Inr (VMap m)" "distinct (map fst m)"
    by (simp_all add: checked_codec_def split: if_splits)
  have dec: "decode doc = Inr t" using t by (simp add: checked_codec_def codec_def)
  then obtain t' where t': "t = YNode DocumentNode [] [] [t']" "tree_paired t'" using decode_tree by blast
  moreover have "tree_value t' = VMap m"
    using dec doc(2) t'(1) by (auto simp: decode_def decode_object_def simp del: parse.simps tree_value.simps split: option.splits)
  ultimately obtain tag s ts where ts: "t' = YNode MappingNode tag s ts" "entries_value ts = m" "even (length ts)"
    by (cases t') (auto split: if_splits)
  with entries_fields [OF ts(3), of "''metadata''"] distinct_fields [OF doc(3) mv]
  show "\<exists>tag s tag' s' ts. t = YNode DocumentNode tag s [YNode MappingNode tag' s' ts] \<and> even (length ts)
      \<and> fields_named tree_value ''metadata'' ts = [mv]"
    using t'(1) by simp
next
  fix tag s tag' s' ts mv doc v
  assume "even (length ts)" "fields_named tree_value ''metadata'' ts = [mv]"
    "yaml_Marshal_node checked_codec (YNode DocumentNode tag s [YNode MappingNode tag' s' ts]) = Inr doc"
    "jsonyaml_Unmarshal_object checked_codec doc = Inr v"
  then have "v = VMap (entries_value ts)" "map_of (entries_value ts) ''metadata'' = Some mv"
    using fields_map_of [of "''metadata''" "entries_value ts"]
    by (auto simp: checked_codec_def codec_def entries_fields simp del: tree_text.simps split: if_splits)
  then show "\<exists>m. v = VMap m \<and> map_of m ''metadata'' = Some mv" by blast
qed

definition labelled_web :: goval where
  "labelled_web = VMap [(''metadata'', VMap [(''name'', VStr ''web''), (''labels'', VMap [(controlledByLabel, VStr ''plugin'')])]),
     (''spec'', VMap [(''a'', VStr ''x''), (''b'', VStr ''y'')])]"

definition spec_patch :: Patch where
  "spec_patch = a_patch PatchTypeReplace [''spec'', ''a'']"

text \<open>The status of the other object, as a whole.\<close>

definition status_copy :: Patch where
  "status_copy = copy_patch [''status''] [''status'']"

lemma spec_patches_outside:
  "outside_metadata checked_codec spec_patch" "outside_metadata checked_codec status_copy"
proof -
  have p: "compile_path checked_codec (Path spec_patch) = Inr (PRoot (PChild ''spec'' (PChild ''a'' PIdentity)))"
    "compile_path checked_codec (Path status_copy) = Inr (PRoot (PChild ''status'' PIdentity))"
    by code_simp+
  then show "outside_metadata checked_codec spec_patch"
    by (simp add: outside_metadata_def path_outside_def spec_patch_def a_patch_def emptyPatch_def)
  have "getChildName (Path status_copy) = ''status''"
    "compile_path checked_codec (getParentPath (Path status_copy)) = Inr (PRoot PIdentity)"
    by code_simp+
  moreover have "Operation status_copy \<noteq> PatchTypeAdd"
    by (simp add: status_copy_def copy_patch_def)
  ultimately show "outside_metadata checked_codec status_copy" using p(2)
    by (simp add: outside_metadata_def path_outside_def root_child_def)
qed

lemma spec_patch_outside:
  "patches_outside checked_codec [Some spec_patch, Some status_copy] []"
  "patches_outside checked_codec [Some spec_patch] [Some status_copy]"
  "patches_outside checked_codec [Some status_copy] []"
  using spec_patches_outside by (auto simp: patches_outside_def outside_metadata_def)

section \<open>Patches outside the metadata\<close>



text \<open>The syncers that the mappings of a configuration are registered with do their work and nothing else, when
  their patches leave the metadata alone.\<close>

lemma configured_syncers_settle_and_spare:
  assumes "clusters ctx vview pview" "lawful E" "metadata_codec E sem" "list_all (can_create P ctx) ms"
    and "\<forall>m c. m \<in> set ms \<longrightarrow> MFromVirtualCluster m = Some c \<longrightarrow> patches_outside E (Patches c) (ReversePatches c)"
    and "fs = {f. FromVirtualBase f \<in> set (concat (map (planned P ctx) ms))}"
  shows "(\<forall>f nc req w w'. f \<in> fs \<longrightarrow> fv_Reconcile E ctx nc f req w = (Inr done_result, w') \<longrightarrow>
      fv_settled ctx f (vview w req) (pview w (VirtualToPhysical ctx req)) (pview w' (VirtualToPhysical ctx req)))
    \<and> (\<forall>env w w' nn obj. syncer_run E ctx fs env w w' \<longrightarrow> (\<forall>w1 w2. env w1 w2 \<longrightarrow> pview w2 nn = pview w1 nn) \<longrightarrow>
      pview w nn = Some obj \<longrightarrow> (\<forall>f \<in> fs. fv_isExcluded ctx f obj) \<longrightarrow> pview w' nn = Some obj)"
proof -
  have made: "\<exists>c. CreateFromVirtualSyncer (RegexpCompile P) (NewRequirement P) ctx c = Inr f
      \<and> patches_outside E (Patches c) (ReversePatches c)" if "f \<in> fs" for f
    using planned_syncer [OF assms(4), of f] that assms(5,6) by blast
  have keep: "keeps_address E (Patches (fv_config f)) (ReversePatches (fv_config f)) (fv_resolver ctx f vObj)"
    "keeps_owner E (Patches (fv_config f)) (ReversePatches (fv_config f)) (fv_resolver ctx f vObj) (fv_getControllerID ctx f)"
    if "f \<in> fs" for f vObj
    using made [OF that] created_outside(1) outside_keeps [OF assms(2,3)] by metis+
  have settle: "fv_settled ctx f (vview w req) (pview w (VirtualToPhysical ctx req)) (pview w' (VirtualToPhysical ctx req))"
    if "f \<in> fs" "fv_Reconcile E ctx nc f req w = (Inr done_result, w')" for f nc req w w'
    using made [OF that(1)] created_clients(1)
    by (intro clusters.fv_Reconcile_settles [OF assms(1) _ _ keep [OF that(1)] that(2)]) blast+
  have spare: "pview w' nn = Some obj"
    if "syncer_run E ctx fs env w w'" "\<forall>w1 w2. env w1 w2 \<longrightarrow> pview w2 nn = pview w1 nn" "pview w nn = Some obj"
      "\<forall>f \<in> fs. fv_isExcluded ctx f obj" for env w w' nn obj
    by (rule other_host_objects_survive [OF assms(1) _ _ that(2,1,3,4)]) (use made keep in blast)+
  from settle spare show ?thesis by blast
qed



text \<open>A mapping with patches and a back syncer, between two stores.\<close>

definition spec_web :: goval where
  "spec_web = VMap [(''metadata'', VMap [(''name'', VStr ''web''), (''namespace'', VStr ''default'')]),
     (''spec'', VMap [(''a'', VStr ''x'')])]"

definition patched_mapping :: FromVirtualCluster where
  "patched_mapping = no_patches\<lparr>Patches := [Some spec_patch], ReversePatches := [Some status_copy],
     SyncBacks := [Some name_sync_back]\<rparr>"

abbreviation patched_mappings :: "Mapping list" where
  "patched_mappings \<equiv> [\<lparr>MFromHostCluster = None, MFromVirtualCluster = Some patched_mapping\<rparr>]"

definition patched_syncer :: "cluster_pair fromVirtualController" where
  "patched_syncer = pair_syncer\<lparr>fv_config := patched_mapping\<rparr>"

definition pair_plugin :: "(unit, cluster_pair) plugin_api" where
  "pair_plugin = \<lparr>InitPlugin = (\<lambda>w. (Inr pair_ctx, w)), Recognizes = (\<lambda>gvk. True),
     EnsureCRDFromPhysicalCluster = (\<lambda>gvk w. (Inr (), w)), MarshalConfig = (\<lambda>c. Inr []),
     GetInformer = (\<lambda>a k w. (Inr (), w)), AddEventHandler = (\<lambda>gvk i w. w),
     RegisterSyncer = (\<lambda>s w. (Inr (), w)), StartPlugin = (\<lambda>w. (Inr (), w)),
     DecodeConfig = (\<lambda>s. fail ''no decoder''), RegexpCompile = (\<lambda>s. Inl (Plain ''no expressions'')),
     NewRequirement = (\<lambda>k v. None)\<rparr>"

definition before_patch :: cluster_pair where
  "before_patch = \<lparr>virtual_objects = [(web_nn, spec_web), (others_nn, others_object)],
     host_objects = [(others_nn, others_object)]\<rparr>"

definition after_patch :: cluster_pair where
  "after_patch = snd (fv_Reconcile checked_codec pair_ctx (emptyNameCache :: cluster_pair nameCache) patched_syncer
     web_nn before_patch)"

lemma patches_web:
  "fv_Reconcile checked_codec pair_ctx (emptyNameCache :: cluster_pair nameCache) patched_syncer web_nn before_patch
    = (Inr done_result, after_patch)"
  unfolding after_patch_def by code_simp

lemma patched_created:
  "CreateFromVirtualSyncer (RegexpCompile pair_plugin) (NewRequirement pair_plugin) pair_ctx patched_mapping = Inr patched_syncer"
  by (simp add: CreateFromVirtualSyncer_def validateFromVirtualConfig_def prepare_patch_def patched_mapping_def
      spec_patch_def a_patch_def status_copy_def copy_patch_def emptyPatch_def no_patches_def patched_syncer_def pair_syncer_def pair_ctx_def
      connect_def result_simps)

lemma patched_planned:
  "list_all (can_create pair_plugin pair_ctx) patched_mappings"
  "{patched_syncer} = {f. FromVirtualBase f \<in> set (concat (map (planned pair_plugin pair_ctx) patched_mappings))}"
  "{pair_back} = {b. BackBase b \<in> set (concat (map (planned pair_plugin pair_ctx) patched_mappings))}"
  using patched_created
  by (auto simp: can_create_def planned_def created_def Let_def patched_syncer_def patched_mapping_def no_patches_def
      name_sync_back_def bar_sync_back_def CreateBackSyncer_def pair_back_def pair_ctx_parts)

lemma patched_outside: "\<forall>m \<in> set patched_mappings. mapping_outside checked_codec m"
  using spec_patch_outside
  by (simp add: mapping_outside_def outside_both_def patched_mapping_def name_sync_back_def bar_sync_back_def
      patches_outside_def)


text \<open>
  Both controllers at work, side by side with a user: the virtual object whose host object is gone is
  deleted, the user creates it anew, and the new one is synced to the host, patched.
\<close>

definition user_creates :: "cluster_pair \<Rightarrow> cluster_pair \<Rightarrow> bool" where
  "user_creates w w' \<longleftrightarrow> w' = w\<lparr>virtual_objects := (web_nn, spec_web) # virtual_objects w\<rparr>"


text \<open>
  Adding is no such patch: at a field of the object that is a scalar it puts the new value between
  the keys and the values, and the fields behind it are gone, the metadata among them.
\<close>

definition kind_and_metadata :: goval where
  "kind_and_metadata = VMap [(''kind'', VStr ''Foo''), (''metadata'', VMap [(''name'', VStr ''web'')])]"

lemma adding_at_a_scalar_hides_the_metadata:
  "\<exists>h h'. NewJSONNode codec kind_and_metadata [] = Inr (7, h) \<and> doc_root h 7 6 \<and> walk h 6 [''metadata''] \<noteq> None
     \<and> Add codec 7 (a_patch PatchTypeAdd [''kind'']) h = Inr h' \<and> doc_root h' 7 6 \<and> walk h' 6 [''metadata''] = None"
proof -
  define h where "h = (case NewJSONNode codec kind_and_metadata [] of Inl e \<Rightarrow> [] | Inr (d, h) \<Rightarrow> h)"
  define h' where "h' = (case Add codec 7 (a_patch PatchTypeAdd [''kind'']) h of Inl e \<Rightarrow> [] | Inr h' \<Rightarrow> h')"
  have "NewJSONNode codec kind_and_metadata [] = Inr (7, h)" unfolding h_def by code_simp
  moreover have "doc_root h 7 6" "walk h 6 [''metadata''] \<noteq> None" unfolding h_def by code_simp+
  moreover have "Add codec 7 (a_patch PatchTypeAdd [''kind'']) h = Inr h'" unfolding h'_def h_def by code_simp
  moreover have "doc_root h' 7 6" "walk h' 6 [''metadata''] = None" unfolding h'_def h_def by code_simp+
  ultimately show ?thesis by blast
qed

end
