(* ===== verification/Spec2Isabelle.thy ===== *)
theory Spec2Isabelle
  imports PatchProperties NameProperties SyncProperties PluginProperties StartUp RunProperties MetadataProperties
begin

text \<open>
  A verification library for the vcluster plugin that syncs generic CRDs. The theories model the Go
  packages of the plugin (\<^verbatim>\<open>src/main.go\<close>, \<^verbatim>\<open>src/pkg\<close>) as functions, and prove what makes them correct.

  \<^bold>\<open>The program.\<close> A configuration maps kinds of the virtual cluster to the host. For every mapping
  \<^verbatim>\<open>main\<close> registers a syncer (virtual to host), back syncers (host objects the mapping refers to are
  brought into the virtual cluster) and, when patches ask for it, force-sync controllers for Secrets and
  ConfigMaps. The syncers change objects by patches on YAML trees; names in patches are translated by a
  resolver; the inverse translation is looked up in a name cache that informers of the virtual
  cluster keep, and whose change hooks wake the controllers.

  \<^bold>\<open>Theories, from the leaves.\<close>
  \<^item> \<open>Prelude\<close>: Go errors and panics (\<open>fault\<close>), \<open>result\<close>, loops with early return, the fact collection
    \<open>result_simps\<close>. \<open>GoStrings\<close>: the functions of Go's \<^verbatim>\<open>strings\<close> and \<^verbatim>\<open>strconv\<close> the code calls.
  \<^item> \<open>Config\<close> (\<^verbatim>\<open>pkg/config\<close>): the configuration as records, its validation, and the declarative validity it decides.
  \<^item> \<open>YamlHeap\<close>, \<open>HeapInvariants\<close> (\<^verbatim>\<open>pkg/patches/operation.go\<close>, \<^verbatim>\<open>yaml.v3\<close>'s \<^verbatim>\<open>Node\<close>): nodes live in a store
    indexed by addresses, since patches share and mutate them; invariants \<open>wf_heap\<close>, reachability, totality of the walks.
  \<^item> \<open>YamlPath\<close> (the evaluation closures of \<^verbatim>\<open>yaml-jsonpath\<close>), \<open>OpPath\<close> (\<^verbatim>\<open>pkg/patches/path.go\<close>).
  \<^item> \<open>External\<close>: the record of third-party functions (decoders, encoders, path compiler) every definition
    of the patch engine takes as an argument. \<open>Conditions\<close> (\<^verbatim>\<open>conditions.go\<close>), \<open>PatchOps\<close>
    (\<^verbatim>\<open>patch.go\<close>, \<^verbatim>\<open>patch_types.go\<close>): all operations and \<open>ApplyPatches\<close>.
  \<^item> \<open>PatchInvariants\<close>, \<open>PatchSafety\<close>: every operation keeps the store sound and returns; the contract of the
    \<^verbatim>\<open>NameResolver\<close> interface is the locale \<open>safe_resolver\<close>. \<open>PatchEffects\<close>, \<open>PatchFields\<close>: what \<^verbatim>\<open>add\<close>,
    \<^verbatim>\<open>replace\<close> and \<^verbatim>\<open>remove\<close> do to the document, as updates of the map from paths to nodes.
  \<^item> \<open>PatchFrame\<close>, \<open>MetadataPaths\<close>, \<open>MetadataFrame\<close>: a frame for the metadata. The subtree of the metadata is
    closed off from the nodes that patches at other fields reach, through every operation but \<^verbatim>\<open>add\<close>
    (a \<^verbatim>\<open>copyFromObject\<close> shares nodes of the other object, but only below a field of its own), so \<open>ApplyPatches\<close>
    returns an object with the metadata it was given.
  \<^item> \<open>RegexReplace\<close> (\<^verbatim>\<open>regex.go\<close>): rewriting groups as a splice of the input.
  \<^item> \<open>Sha256\<close>, \<open>Translate\<close> (host names, on 32-bit words where they are hashed), \<open>Unstructured\<close> (objects as JSON values, their
    metadata), \<open>Translator\<close> (the SDK's metadata translation).
  \<^item> \<open>NameCache\<close>, \<open>NameIndex\<close> (\<^verbatim>\<open>namecache.go\<close>): the cache; the locale \<open>name_index\<close> states what a cache promises, by a history
    of exchanges and removals, and is interpreted by the model of the code. \<open>CacheHandler\<close>
    (\<^verbatim>\<open>from_virtual_handler.go\<close>): the informer handler and histories of informer events.
  \<^item> \<open>NameResolvers\<close>: the three resolvers, interpretations of \<open>safe_resolver\<close>.
  \<^item> \<open>Io\<close>: the outside world as a state, API calls as state transformers that can fail. \<open>Patcher\<close>
    (\<^verbatim>\<open>generic.go\<close>), \<open>FromVirtualSyncer\<close>, \<open>BackSyncer\<close>, \<open>ForceSync\<close> (\<^verbatim>\<open>pkg/syncer\<close>): the controllers.
    \<open>HookFlow\<close>: the hooks they install, run by the cache.
  \<^item> \<open>Clusters\<close>: what the syncers rely on in a cluster, as the locales \<open>cluster\<close> (one client: what it reads, writes
    and deletes) and \<open>clusters\<close> (the two clusters side by side), the runs of the syncers as the inductive
    relations \<open>syncer_run\<close> and \<open>back_run\<close>, and what a reconcile leaves and settles. \<open>PluginRuns\<close>: both sorts of controllers taking turns
    on the two clusters (\<open>plugin_run\<close>), with what each leaves alone on its far side. \<open>ObjectStore\<close>: clients
    over a store of objects, connected to the controllers, which interpret the locales.
  \<^item> \<open>LabelSelectors\<close>: what a label selector selects, and the translation of selectors against the translation of labels.
  \<^item> \<open>BlockingClient\<close> (\<^verbatim>\<open>blockingcacheclient\<close>): waiting for the cache, over a schedule of what happens in between.
    \<open>YamlUtil\<close> (\<^verbatim>\<open>pkg/util/yaml\<close>). \<open>PluginMain\<close> (\<^verbatim>\<open>main.go\<close>, \<^verbatim>\<open>NewNameCache\<close>).
  \<^item> \<open>Examples\<close>: concrete parameters (a small codec, clients that log) the properties are evaluated on.
    \<open>PatchProperties\<close>, \<open>NameProperties\<close>, \<open>SyncProperties\<close>, \<open>PluginProperties\<close>, \<open>RunProperties\<close> (of runs,
    on the two stores), \<open>MetadataProperties\<close> (of the controllers of a configuration), \<open>StartUp\<close> (what \<^verbatim>\<open>main\<close> refuses to start with): the properties (those of
    \<^verbatim>\<open>add\<close>, \<^verbatim>\<open>replace\<close>, \<^verbatim>\<open>remove\<close>, \<^verbatim>\<open>rewriteName\<close> stand in \<open>PatchEffects\<close> and \<open>PatchFields\<close>).

  \<^bold>\<open>Correspondence.\<close> A Go function is a definition of the same name (with a prefix \<open>fv_\<close>, \<open>bs_\<close>,
  \<open>fs_\<close>, \<open>cc_\<close>, \<open>vth_\<close>, \<open>htv_\<close>, \<open>mem_\<close> for the receiver where names clash). An error or a panic is \<open>Inl\<close>:
  \<open>Err e\<close> or \<open>Panic p\<close>. A nil pointer is \<open>None\<close>. Pointers to nodes are addresses; everything else is
  passed by value, and a struct mutated in place is returned updated. The order of iteration over a Go
  map, where the code ranges over one, is the order of an association list.

  \<^bold>\<open>Bounds and fuel.\<close> The recursive searches over nodes (\<open>Find\<close>, \<open>RecurseNodes\<close>, \<open>read_tree\<close>) get the
  fuel \<open>Suc (length h)\<close>: an acyclic store has no chain longer than its number of nodes, so with the
  invariant they never run out (\<open>Find_total\<close>, \<open>yields_RecurseNodes\<close>, \<open>read_tree_total\<close>), and running out,
  \<open>Panic Diverge\<close>, is the stack overflow of the code. \<open>SafeConcatName\<close> cuts at 63 bytes. The poll of the blocking client is
  bounded by its schedule.

  \<^bold>\<open>Parameters.\<close> YAML and JSON codecs, the compilers of paths and regular expressions, label selectors,
  the API servers and the SDK's registration. The laws assumed of them are named predicates
  (\<open>lawful\<close>, \<open>compiles_fields\<close>, \<open>decodes_paired\<close>, \<open>metadata_codec\<close>, \<open>reads_view\<close>, \<open>well_matched\<close>), and each is shown to hold of a concrete instance. What runs ask of the patches of a mapping (\<open>keeps_address\<close>,
  \<open>keeps_owner\<close>) follows from their paths alone, by \<open>outside_keeps\<close>, for all operations but \<^verbatim>\<open>add\<close>;
  \<open>mapping_outside\<close> is the condition for a mapping of the configuration, in both directions.
  A cluster shows the objects of one kind, by name and namespace; the steps of a run are those of controllers of that kind.

  \<^bold>\<open>Not modelled.\<close> Logging; the parsers of YAML, path expressions and regular expressions; locks (the name cache's
  mutex makes every operation of it atomic, as it is here); the wiring of controllers into
  controller-runtime beyond predicates, hooks and registration order; the construction of the clients
  (\<^verbatim>\<open>NewCacheClient\<close>); \<^verbatim>\<open>FromHostCluster\<close> mappings beyond their data, which the program never reads.
\<close>

end
